(* ===== verification/Prelude.thy ===== *)
theory Prelude
  imports Main "HOL-Library.Word" "HOL-Library.Sublist"
begin

section \<open>Prelude: outcomes, C++ strings and decimal numbers\<close>

text \<open>
  What every component shares. A C++ call is a computation that passes a state
  explicitly and ends in an \<open>outcome\<close>: it returns a value, throws an exception or never
  returns. \<open>std::string\<close> is a list of bytes (\<open>string\<close>); the searches and the
  number conversions of the standard library that the program uses are written out here,
  with the laws the components need. The collection \<open>outcome_simps\<close> unfolds the
  combinators of computations.
\<close>

named_theorems keeps_intros "rules for the invariants computations keep"

named_theorems nothrow_intros "rules for computations that throw nothing"

named_theorems outcome_simps "unfolding of the combinators of computations"

subsection \<open>Outcomes and computations\<close>

text \<open>
  \<open>StdException\<close> is an exception caught by \<open>catch (const std::exception&)\<close>, with
  its \<open>what()\<close>; \<open>OtherException\<close> is anything only \<open>catch (...)\<close> catches.
\<close>

datatype exn = StdException string | OtherException

datatype 'a outcome = Ret 'a | Exc exn | Hang

type_synonym u64 = "64 word"

type_synonym ('s, 'a) comp = "'s \<Rightarrow> 'a outcome \<times> 's"

definition ret :: "'a \<Rightarrow> ('s, 'a) comp" where
  "ret a s = (Ret a, s)"

definition throw :: "exn \<Rightarrow> ('s, 'a) comp" where
  "throw e s = (Exc e, s)"

definition bind_comp :: "('s, 'a) comp \<Rightarrow> ('a \<Rightarrow> ('s, 'b) comp) \<Rightarrow> ('s, 'b) comp" where
  "bind_comp m f s =
     (case m s of
        (Ret a, s') \<Rightarrow> f a s'
      | (Exc e, s') \<Rightarrow> (Exc e, s')
      | (Hang, s') \<Rightarrow> (Hang, s'))"

text \<open>\<open>try { m } catch (...) { h }\<close>.\<close>

definition catch_all :: "('s, 'a) comp \<Rightarrow> ('s, 'a) comp \<Rightarrow> ('s, 'a) comp" where
  "catch_all m h s =
     (case m s of
        (Ret a, s') \<Rightarrow> (Ret a, s')
      | (Exc e, s') \<Rightarrow> h s'
      | (Hang, s') \<Rightarrow> (Hang, s'))"

text \<open>\<open>try { m } catch (const std::exception&) { h }\<close>.\<close>

definition catch_std :: "('s, 'a) comp \<Rightarrow> (string \<Rightarrow> ('s, 'a) comp) \<Rightarrow> ('s, 'a) comp" where
  "catch_std m h s =
     (case m s of
        (Exc (StdException w), s') \<Rightarrow> h w s'
      | r \<Rightarrow> r)"

lemmas [outcome_simps] = ret_def throw_def bind_comp_def catch_all_def catch_std_def

lemma bind_ret [simp]: "bind_comp (ret a) f = f a"
  by (simp add: outcome_simps fun_eq_iff)

lemma bind_ret_right [simp]: "bind_comp m ret = m"
  by (auto simp: outcome_simps fun_eq_iff split: outcome.splits prod.splits)

lemma bind_unit_ret [simp]: "bind_comp m (\<lambda>_. ret ()) = m"
  using bind_ret_right [of m] by (simp add: fun_eq_iff)

lemma bind_assoc: "bind_comp (bind_comp m f) g = bind_comp m (\<lambda>a. bind_comp (f a) g)"
  by (auto simp: outcome_simps fun_eq_iff split: outcome.splits prod.splits)

lemma bind_comp_Ret:
  "bind_comp m f s = (Ret b, t) \<longleftrightarrow> (\<exists>a s'. m s = (Ret a, s') \<and> f a s' = (Ret b, t))"
  by (auto simp: bind_comp_def split: outcome.splits prod.splits)

lemma bind_comp_Exc:
  "bind_comp m f s = (Exc e, t) \<longleftrightarrow>
     m s = (Exc e, t) \<or> (\<exists>a s'. m s = (Ret a, s') \<and> f a s' = (Exc e, t))"
  by (auto simp: bind_comp_def split: outcome.splits prod.splits)

lemma catch_all_no_exc: "fst (h (snd (m s))) \<noteq> Exc e \<Longrightarrow> fst (catch_all m h s) \<noteq> Exc e"
  by (auto simp: catch_all_def split: outcome.splits prod.splits)

text \<open>
  A computation keeps a predicate on the state: if it ends, by returning or by throwing,
  the state it leaves satisfies the predicate if the state it started in did.
\<close>

definition keeps :: "('s \<Rightarrow> bool) \<Rightarrow> ('s, 'a) comp \<Rightarrow> bool" where
  "keeps I m \<longleftrightarrow> (\<forall>s r s'. I s \<longrightarrow> m s = (r, s') \<longrightarrow> r \<noteq> Hang \<longrightarrow> I s')"

lemma keepsI: "(\<And>s r s'. I s \<Longrightarrow> m s = (r, s') \<Longrightarrow> r \<noteq> Hang \<Longrightarrow> I s') \<Longrightarrow> keeps I m"
  by (auto simp: keeps_def)

lemma keepsD: "keeps I m \<Longrightarrow> I s \<Longrightarrow> m s = (r, s') \<Longrightarrow> r \<noteq> Hang \<Longrightarrow> I s'"
  by (auto simp: keeps_def)

lemma keeps_ret [intro, keeps_intros]: "keeps I (ret a)"
  by (simp add: keeps_def ret_def)

lemma keeps_throw [intro, keeps_intros]: "keeps I (throw e)"
  by (simp add: keeps_def throw_def)

lemma keeps_bind [intro, keeps_intros]:
  assumes m: "keeps I m" and f: "\<And>a. keeps I (f a)"
  shows "keeps I (bind_comp m f)"
proof (rule keepsI)
  fix s r s'
  assume s: "I s" "bind_comp m f s = (r, s')" "r \<noteq> Hang"
  obtain q t where q: "m s = (q, t)" by fastforce
  show "I s'"
  proof (cases q)
    case (Ret a)
    with s q have "I t" "f a t = (r, s')" by (auto simp: bind_comp_def dest: keepsD [OF m])
    with s f show ?thesis by (blast dest: keepsD)
  next
    case (Exc e)
    with s q show ?thesis by (auto simp: bind_comp_def dest: keepsD [OF m])
  next
    case Hang
    with s q show ?thesis by (auto simp: bind_comp_def)
  qed
qed

lemma keeps_catch_all [intro, keeps_intros]:
  assumes m: "keeps I m" and h: "keeps I h"
  shows "keeps I (catch_all m h)"
proof (rule keepsI)
  fix s r s'
  assume s: "I s" "catch_all m h s = (r, s')" "r \<noteq> Hang"
  obtain q t where q: "m s = (q, t)" by fastforce
  have "I t" if "q \<noteq> Hang" using keepsD [OF m s(1) q that] .
  with s q show "I s'"
    by (cases q) (auto simp: catch_all_def dest: keepsD [OF h])
qed

lemma keeps_catch_std [intro, keeps_intros]:
  assumes m: "keeps I m" and h: "\<And>w. keeps I (h w)"
  shows "keeps I (catch_std m h)"
proof (rule keepsI)
  fix s r s'
  assume s: "I s" "catch_std m h s = (r, s')" "r \<noteq> Hang"
  obtain q t where q: "m s = (q, t)" by fastforce
  have "I t" if "q \<noteq> Hang" using keepsD [OF m s(1) q that] .
  with s q h show "I s'"
    by (cases "(q, t)" rule: prod.exhaust; cases q)
       (auto simp: catch_std_def split: exn.splits dest: keepsD)
qed

lemma keeps_if [keeps_intros]: "keeps I a \<Longrightarrow> keeps I b \<Longrightarrow> keeps I (if c then a else b)"
  by simp

lemma keeps_option [keeps_intros]:
  "keeps I a \<Longrightarrow> (\<And>y. keeps I (f y)) \<Longrightarrow> keeps I (case x of None \<Rightarrow> a | Some y \<Rightarrow> f y)"
  by (cases x) simp_all

lemma keeps_prod [keeps_intros]:
  "(\<And>a b. keeps I (f a b)) \<Longrightarrow> keeps I (case p of (a, b) \<Rightarrow> f a b)"
  by (cases p) simp

lemma keeps_let [keeps_intros]: "(\<And>y. keeps I (f y)) \<Longrightarrow> keeps I (let x = y in f x)"
  by (simp add: Let_def)

subsection \<open>Computations that throw nothing\<close>

definition throws_nothing :: "('s, 'a) comp \<Rightarrow> bool" where
  "throws_nothing m \<longleftrightarrow> (\<forall>s e t. m s \<noteq> (Exc e, t))"

lemma throws_nothingI: "(\<And>s e t. m s \<noteq> (Exc e, t)) \<Longrightarrow> throws_nothing m"
  by (simp add: throws_nothing_def)

lemma throws_nothingD: "throws_nothing m \<Longrightarrow> m s \<noteq> (Exc e, t)"
  by (simp add: throws_nothing_def)

lemma nothrow_ret [nothrow_intros]: "throws_nothing (ret a)"
  by (simp add: throws_nothing_def ret_def)

lemma nothrow_bind [nothrow_intros]:
  "throws_nothing m \<Longrightarrow> (\<And>a. throws_nothing (f a)) \<Longrightarrow> throws_nothing (bind_comp m f)"
  by (simp add: throws_nothing_def bind_comp_Exc)

lemma nothrow_catch_all [nothrow_intros]: "throws_nothing h \<Longrightarrow> throws_nothing (catch_all m h)"
  by (auto simp: throws_nothing_def catch_all_def split: prod.split outcome.split)

lemma nothrow_if [nothrow_intros]:
  "throws_nothing a \<Longrightarrow> throws_nothing b \<Longrightarrow> throws_nothing (if c then a else b)"
  by simp

lemma nothrow_option [nothrow_intros]:
  "throws_nothing a \<Longrightarrow> (\<And>y. throws_nothing (f y)) \<Longrightarrow>
     throws_nothing (case x of None \<Rightarrow> a | Some y \<Rightarrow> f y)"
  by (cases x) simp_all

lemma nothrow_prod [nothrow_intros]:
  "(\<And>a b. throws_nothing (f a b)) \<Longrightarrow> throws_nothing (case p of (a, b) \<Rightarrow> f a b)"
  by (cases p) simp

lemma nothrow_let [nothrow_intros]: "(\<And>y. throws_nothing (f y)) \<Longrightarrow> throws_nothing (let x = y in f x)"
  by (simp add: Let_def)

subsection \<open>Processes\<close>

text \<open>
  How a process or one of its long calls goes on: it ends (or waits for ever, with the
  state it waits in), it is killed by an exception nothing catches (\<open>std::terminate\<close>), or it
  is busy for ever.
\<close>

datatype ('a, 's) life = Ends "'a outcome" 's | Aborts 's | Spins

definition life_of :: "('a outcome \<times> 's) option \<Rightarrow> ('a, 's) life" where
  "life_of r = (case r of None \<Rightarrow> Spins | Some (q, s) \<Rightarrow> Ends q s)"

text \<open>Going on after a call, as \<open>bind_comp\<close> does for computations.\<close>

definition after_life :: "('a, 's) life \<Rightarrow> ('a \<Rightarrow> 's \<Rightarrow> ('b, 's) life) \<Rightarrow> ('b, 's) life" where
  "after_life l f =
     (case l of
        Ends (Ret a) s \<Rightarrow> f a s
      | Ends (Exc e) s \<Rightarrow> Ends (Exc e) s
      | Ends Hang s \<Rightarrow> Ends Hang s
      | Aborts s \<Rightarrow> Aborts s
      | Spins \<Rightarrow> Spins)"

lemma after_life_simps [simp]:
  "after_life (Ends (Ret a) s) f = f a s"
  "after_life (Ends (Exc e) s) f = Ends (Exc e) s"
  "after_life (Ends Hang s) f = Ends Hang s"
  "after_life (Aborts s) f = Aborts s"
  "after_life Spins f = Spins"
  by (simp_all add: after_life_def)

text \<open>
  A thread of its own that runs \<open>m\<close>, or a \<open>main\<close> without handler: an exception that leaves
  it ends the process.
\<close>

definition in_thread :: "('s, 'a) comp \<Rightarrow> 's \<Rightarrow> ('a, 's) life" where
  "in_thread m s =
     (case m s of (Ret a, t) \<Rightarrow> Ends (Ret a) t | (Exc e, t) \<Rightarrow> Aborts t | (Hang, t) \<Rightarrow> Ends Hang t)"

lemma in_thread_nothrow:
  "throws_nothing m \<Longrightarrow> (\<exists>a t. in_thread m s = Ends (Ret a) t) \<or> (\<exists>t. in_thread m s = Ends Hang t)"
  by (auto simp: in_thread_def dest: throws_nothingD split: prod.split outcome.split)

subsection \<open>Searching and cutting strings\<close>

definition quoted :: "string \<Rightarrow> string" where
  "quoted s = CHR 0x22 # s @ [CHR 0x22]"

text \<open>
  \<open>s.substr(pos, n)\<close> for \<open>pos\<close> not past the end, and \<open>s.find(pat, pos)\<close>,
  \<open>None\<close> for \<open>npos\<close>. The empty pattern is found wherever the search starts.
\<close>

definition substr :: "string \<Rightarrow> nat \<Rightarrow> nat \<Rightarrow> string" where
  "substr s pos n = take n (drop pos s)"

fun find_sub :: "string \<Rightarrow> string \<Rightarrow> nat option" where
  "find_sub pat [] = (if pat = [] then Some 0 else None)"
| "find_sub pat (c # cs) =
     (if prefix pat (c # cs) then Some 0 else map_option Suc (find_sub pat cs))"

definition str_find :: "string \<Rightarrow> string \<Rightarrow> nat \<Rightarrow> nat option" where
  "str_find s pat pos =
     (if pos \<le> length s then map_option ((+) pos) (find_sub pat (drop pos s)) else None)"

lemma find_sub_Some:
  "find_sub pat s = Some p \<longleftrightarrow>
     p \<le> length s \<and> prefix pat (drop p s) \<and> (\<forall>q < p. \<not> prefix pat (drop q s))"
proof (induction s arbitrary: p)
  case Nil
  then show ?case by auto
next
  case (Cons c cs)
  show ?case
  proof (cases "prefix pat (c # cs)")
    case True
    then show ?thesis by (auto dest: spec [of _ 0])
  next
    case False
    show ?thesis
    proof (cases p)
      case 0
      with False show ?thesis by auto
    next
      case (Suc p')
      have "(\<forall>q < Suc p'. \<not> prefix pat (drop q (c # cs))) \<longleftrightarrow>
            (\<forall>q < p'. \<not> prefix pat (drop q cs))"
        using False by (auto simp: less_Suc_eq_0_disj)
      with False Suc Cons.IH [of p'] show ?thesis by auto
    qed
  qed
qed

lemma find_sub_None: "find_sub pat s = None \<longleftrightarrow> \<not> sublist pat s"
  by (induction s) (auto simp: sublist_Cons_right)

lemma str_find_Some:
  "str_find s pat pos = Some p \<longleftrightarrow>
     pos \<le> p \<and> p \<le> length s \<and> prefix pat (drop p s) \<and>
     (\<forall>q. pos \<le> q \<and> q < p \<longrightarrow> \<not> prefix pat (drop q s))"
proof -
  have shift: "(\<forall>q < p - pos. \<not> prefix pat (drop q (drop pos s))) \<longleftrightarrow>
        (\<forall>q. pos \<le> q \<and> q < p \<longrightarrow> \<not> prefix pat (drop q s))" if "pos \<le> p"
  proof -
    have "\<not> prefix pat (drop q s)"
      if "\<forall>q < p - pos. \<not> prefix pat (drop q (drop pos s))" "pos \<le> q" "q < p" for q
      using that(1) [rule_format, of "q - pos"] that(2,3) by simp
    moreover have "\<not> prefix pat (drop q (drop pos s))"
      if "\<forall>q. pos \<le> q \<and> q < p \<longrightarrow> \<not> prefix pat (drop q s)" "q < p - pos" for q
      using that(1) [rule_format, of "q + pos"] that(2) by simp
    ultimately show ?thesis by blast
  qed
  have "str_find s pat pos = Some p \<longleftrightarrow> pos \<le> length s \<and> pos \<le> p \<and>
      find_sub pat (drop pos s) = Some (p - pos)"
    by (auto simp: str_find_def)
  also have "\<dots> \<longleftrightarrow> pos \<le> p \<and> p \<le> length s \<and> prefix pat (drop p s) \<and>
      (\<forall>q < p - pos. \<not> prefix pat (drop q (drop pos s)))"
    by (auto simp: find_sub_Some)
  finally show ?thesis using shift by blast
qed

text \<open>
  \<open>s.find(c)\<close> for a single character and \<open>s.find_last_of(c)\<close>; a set of characters is
  given as a predicate for \<open>find_first_not_of\<close> and \<open>find_last_not_of\<close>.
\<close>

fun find_idx :: "(char \<Rightarrow> bool) \<Rightarrow> string \<Rightarrow> nat option" where
  "find_idx P [] = None"
| "find_idx P (c # cs) = (if P c then Some 0 else map_option Suc (find_idx P cs))"

definition find_last_idx :: "(char \<Rightarrow> bool) \<Rightarrow> string \<Rightarrow> nat option" where
  "find_last_idx P s = map_option (\<lambda>k. length s - 1 - k) (find_idx P (rev s))"

definition find_char :: "char \<Rightarrow> string \<Rightarrow> nat option" where
  "find_char c = find_idx ((=) c)"

lemma find_idx_None: "find_idx P s = None \<longleftrightarrow> (\<forall>c \<in> set s. \<not> P c)"
  by (induction s) auto

lemma find_idx_takeWhile:
  "find_idx P s = (if \<exists>c \<in> set s. P c then Some (length (takeWhile (\<lambda>c. \<not> P c) s)) else None)"
  by (induction s) auto

lemma find_idx_append:
  "find_idx P (s @ t) =
     (case find_idx P s of Some k \<Rightarrow> Some k | None \<Rightarrow> map_option ((+) (length s)) (find_idx P t))"
  by (induction s) (auto simp: option.map_comp comp_def map_option_case split: option.splits)

lemma find_idx_Some:
  "find_idx P s = Some k \<longleftrightarrow> k < length s \<and> P (s ! k) \<and> (\<forall>j < k. \<not> P (s ! j))"
proof (induction s arbitrary: k)
  case Nil
  then show ?case by simp
next
  case (Cons c cs)
  show ?case
  proof (cases k)
    case 0
    then show ?thesis by auto
  next
    case (Suc k')
    then show ?thesis using Cons.IH [of k'] by (auto simp: less_Suc_eq_0_disj)
  qed
qed

lemma find_char_first: "c \<notin> set s \<Longrightarrow> find_char c (s @ c # t) = Some (length s)"
  using find_idx_None [of "(=) c" s]
  by (auto simp: find_char_def find_idx_append split: option.splits)

lemma find_char_None: "find_char c s = None \<longleftrightarrow> c \<notin> set s"
  by (auto simp: find_char_def find_idx_None)

lemma find_last_idx_append:
  "P c \<Longrightarrow> \<forall>d \<in> set t. \<not> P d \<Longrightarrow> find_last_idx P (s @ c # t) = Some (length s)"
proof -
  assume "P c" "\<forall>d \<in> set t. \<not> P d"
  then have "find_idx P (rev t) = None" by (simp add: find_idx_None)
  with \<open>P c\<close> find_idx_append [of P "rev t" "c # rev s"] show ?thesis
    by (simp add: find_last_idx_def)
qed

lemma find_last_idx_None: "find_last_idx P s = None \<longleftrightarrow> (\<forall>c \<in> set s. \<not> P c)"
  by (simp add: find_last_idx_def find_idx_None)

subsection \<open>Character classes and stripping\<close>

text \<open>\<open>std::isspace\<close>, \<open>std::isdigit\<close> and \<open>std::tolower\<close> in the C locale.\<close>

definition is_space :: "char \<Rightarrow> bool" where
  "is_space c \<longleftrightarrow>
     c = CHR '' '' \<or> c = CHR 0x09 \<or> c = CHR 0x0A \<or> c = CHR 0x0B \<or> c = CHR 0x0C \<or> c = CHR 0x0D"

definition char_code :: "char \<Rightarrow> nat" where
  "char_code c = of_char c"

definition is_digit :: "char \<Rightarrow> bool" where
  "is_digit c \<longleftrightarrow> 48 \<le> char_code c \<and> char_code c \<le> 57"

definition to_lower :: "char \<Rightarrow> char" where
  "to_lower c = (if 65 \<le> char_code c \<and> char_code c \<le> 90 then char_of (char_code c + 32) else c)"

text \<open>The text without the spaces at its two ends, the result both trimming routines compute.\<close>

definition strip :: "string \<Rightarrow> string" where
  "strip s = rev (dropWhile is_space (rev (dropWhile is_space s)))"

lemma is_digit_not_space: "is_digit c \<Longrightarrow> \<not> is_space c"
  by (auto simp: is_digit_def is_space_def char_code_def)

lemma strip_ends:
  "strip s \<noteq> [] \<Longrightarrow> \<not> is_space (hd (strip s)) \<and> \<not> is_space (last (strip s))"
proof -
  assume ne: "strip s \<noteq> []"
  let ?t = "dropWhile is_space s"
  obtain w where w: "?t = strip s @ w"
    unfolding strip_def by (metis rev_append rev_rev_ident takeWhile_dropWhile_id)
  with ne have "hd ?t = hd (strip s)" "?t \<noteq> []" by auto
  then have "\<not> is_space (hd (strip s))" by (metis hd_dropWhile)
  moreover have "\<not> is_space (last (strip s))"
    using ne hd_dropWhile [of is_space "rev ?t"] by (simp add: strip_def last_rev)
  ultimately show ?thesis by simp
qed

lemma strip_decomp:
  "\<exists>u v. s = u @ strip s @ v \<and> (\<forall>c \<in> set u \<union> set v. is_space c)"
proof -
  let ?t = "dropWhile is_space s"
  have "s = takeWhile is_space s @ strip s @ rev (takeWhile is_space (rev ?t))"
    unfolding strip_def
    by (metis rev_append rev_rev_ident takeWhile_dropWhile_id)
  moreover have "\<forall>c \<in> set (takeWhile is_space s) \<union> set (rev (takeWhile is_space (rev ?t))). is_space c"
    by (auto dest: set_takeWhileD)
  ultimately show ?thesis by blast
qed

lemma strip_id: "(s = [] \<or> \<not> is_space (hd s) \<and> \<not> is_space (last s)) \<Longrightarrow> strip s = s"
proof (cases s)
  case (Cons c cs)
  moreover assume "s = [] \<or> \<not> is_space (hd s) \<and> \<not> is_space (last s)"
  ultimately have "dropWhile is_space s = s" "dropWhile is_space (rev s) = rev s"
    by (simp_all add: dropWhile_eq_self_iff hd_rev del: rev.simps)
  then show ?thesis by (simp add: strip_def)
qed (simp add: strip_def)

lemma strip_idem [simp]: "strip (strip s) = strip s"
  by (metis strip_ends strip_id)

lemma strip_Nil_iff: "strip s = [] \<longleftrightarrow> (\<forall>c \<in> set s. is_space c)"
  by (auto simp: strip_def dropWhile_eq_Nil_conv dest: set_dropWhileD)
     (metis dropWhile_eq_Nil_conv hd_dropWhile hd_in_set set_dropWhileD)

lemma strip_no_space: "\<forall>c \<in> set s. \<not> is_space c \<Longrightarrow> strip s = s"
  by (rule strip_id) (auto simp: neq_Nil_conv)

lemma strip_pad:
  "\<forall>c \<in> set u \<union> set v. is_space c \<Longrightarrow> strip (u @ s @ v) = strip s"
proof -
  assume *: "\<forall>c \<in> set u \<union> set v. is_space c"
  then have "dropWhile is_space (u @ s @ v) = dropWhile is_space (s @ v)"
    by (simp add: dropWhile_append2)
  moreover have "dropWhile is_space (rev (dropWhile is_space (s @ v))) =
                 dropWhile is_space (rev (dropWhile is_space s))"
  proof (cases "\<forall>c \<in> set s. is_space c")
    case True
    then have 1: "dropWhile is_space s = []" by simp
    from True * have 2: "dropWhile is_space (s @ v) = []" by simp
    show ?thesis by (simp add: 1 2 del: dropWhile_eq_Nil_conv)
  next
    case False
    then have "dropWhile is_space (s @ v) = dropWhile is_space s @ v"
      by (auto simp: dropWhile_append1)
    moreover have "dropWhile is_space (rev v @ w) = dropWhile is_space w" for w
      by (rule dropWhile_append2) (use * in auto)
    ultimately show ?thesis by simp
  qed
  ultimately show ?thesis by (simp add: strip_def)
qed

subsection \<open>Decimal numbers\<close>

text \<open>
  \<open>dec\<close> is the decimal text of a natural number; \<open>std::to_string\<close> of an unsigned 64-bit
  value and of a signed integer are built on it. \<open>std::stoi\<close> and \<open>std::stoull\<close> skip
  leading space, read an optional sign and the longest run of digits, ignore what follows,
  and throw when there is no digit or the value does not fit. A minus sign before an
  unsigned value negates it modulo \<open>2 ^ 64\<close>, as \<open>strtoull\<close> does.
\<close>

definition digit :: "nat \<Rightarrow> char" where
  "digit d = char_of (48 + d)"

fun dec :: "nat \<Rightarrow> string" where
  "dec n = (if n < 10 then [digit n] else dec (n div 10) @ [digit (n mod 10)])"

declare dec.simps [simp del]

definition to_string_u64 :: "u64 \<Rightarrow> string" where
  "to_string_u64 x = dec (unat x)"

definition to_string_int :: "int \<Rightarrow> string" where
  "to_string_int i = (if i < 0 then CHR ''-'' # dec (nat (- i)) else dec (nat i))"

definition digits_val :: "string \<Rightarrow> nat" where
  "digits_val s = foldl (\<lambda>a c. 10 * a + (char_code c - 48)) 0 s"

fun split_sign :: "string \<Rightarrow> bool \<times> string" where
  "split_sign [] = (False, [])"
| "split_sign (c # s) =
     (if c = CHR ''-'' then (True, s) else if c = CHR ''+'' then (False, s) else (False, c # s))"

definition scan_int :: "string \<Rightarrow> (bool \<times> nat) option" where
  "scan_int s =
     (let (neg, r) = split_sign (dropWhile is_space s); ds = takeWhile is_digit r
      in if ds = [] then None else Some (neg, digits_val ds))"

definition stoi :: "string \<Rightarrow> exn + int" where
  "stoi s =
     (case scan_int s of
        None \<Rightarrow> Inl (StdException ''stoi'')
      | Some (neg, n) \<Rightarrow>
          (let v = (if neg then - int n else int n)
           in if - (2 ^ 31) \<le> v \<and> v \<le> 2 ^ 31 - 1 then Inr v else Inl (StdException ''stoi'')))"

definition stoull :: "string \<Rightarrow> exn + u64" where
  "stoull s =
     (case scan_int s of
        None \<Rightarrow> Inl (StdException ''stoull'')
      | Some (neg, n) \<Rightarrow>
          (if n < 2 ^ 64 then Inr (if neg then - of_nat n else of_nat n)
           else Inl (StdException ''stoull'')))"

lemma char_code_digit [simp]: "d < 10 \<Longrightarrow> char_code (digit d) = 48 + d"
  by (simp add: digit_def char_code_def)

lemma is_digit_digit [simp]: "d < 10 \<Longrightarrow> is_digit (digit d)"
  by (simp add: is_digit_def)

lemma dec_digits: "c \<in> set (dec n) \<Longrightarrow> is_digit c"
proof (induction n rule: dec.induct)
  case (1 n)
  then show ?case by (auto simp: dec.simps [of n] split: if_splits)
qed

lemma dec_nonempty [simp]: "dec n \<noteq> []"
  by (subst dec.simps) simp

lemma digits_val_snoc: "digits_val (s @ [c]) = 10 * digits_val s + (char_code c - 48)"
  by (simp add: digits_val_def)

lemma digits_val_dec [simp]: "digits_val (dec n) = n"
proof (induction n rule: dec.induct)
  case (1 n)
  show ?case
  proof (cases "n < 10")
    case True
    then show ?thesis by (simp add: dec.simps [of n] digits_val_def)
  next
    case False
    with 1 show ?thesis by (simp add: dec.simps [of n] digits_val_snoc)
  qed
qed

lemma dec_inject [simp]: "dec m = dec n \<longleftrightarrow> m = n"
  by (metis digits_val_dec)

lemma dec_no_char: "\<not> is_digit c \<Longrightarrow> c \<notin> set (dec n)"
  using dec_digits by blast

lemma scan_digits:
  assumes "ds \<noteq> []" "\<forall>c \<in> set ds. is_digit c" "r = [] \<or> \<not> is_digit (hd r)"
  shows "scan_int (ds @ r) = Some (False, digits_val ds)"
proof -
  from assms obtain d ds' where ds: "ds = d # ds'" by (cases ds) auto
  with assms(2) have d: "is_digit d" "\<not> is_space d" by (auto simp: is_digit_not_space)
  then have "d \<noteq> CHR ''-''" "d \<noteq> CHR ''+''" by (auto simp: is_digit_def char_code_def)
  moreover have "takeWhile is_digit (ds @ r) = ds"
    using assms by (cases r) (auto simp: takeWhile_append2)
  ultimately show ?thesis using ds d by (simp add: scan_int_def)
qed

lemma scan_dec: "scan_int (dec n) = Some (False, n)"
  using scan_digits [of "dec n" "[]"] dec_digits by simp

lemma scan_neg_dec: "scan_int (CHR ''-'' # dec n) = Some (True, n)"
proof -
  have tw: "takeWhile is_digit (dec n) = dec n" using dec_digits by simp
  show ?thesis by (simp add: scan_int_def is_space_def Let_def tw)
qed

lemma stoull_to_string [simp]: "stoull (to_string_u64 x) = Inr x"
proof -
  have "unat x < 2 ^ LENGTH(64)" by (rule unsigned_less)
  then show ?thesis by (simp add: stoull_def to_string_u64_def scan_dec)
qed

lemma stoi_to_string:
  "- (2 ^ 31) \<le> i \<Longrightarrow> i \<le> 2 ^ 31 - 1 \<Longrightarrow> stoi (to_string_int i) = Inr i"
  by (auto simp: stoi_def to_string_int_def scan_dec scan_neg_dec)

lemma to_string_u64_inject [simp]: "to_string_u64 x = to_string_u64 y \<longleftrightarrow> x = y"
  by (simp add: to_string_u64_def word_unat_eq_iff)

lemma to_string_int_inject [simp]: "to_string_int i = to_string_int j \<longleftrightarrow> i = j"
proof -
  have "CHR ''-'' # dec m \<noteq> dec n" for m n
    using dec_digits [of "CHR ''-''" n] by (auto simp: is_digit_def char_code_def) (metis list.set_intros(1))
  then show ?thesis by (auto simp: to_string_int_def) metis+
qed

lemma stoi_range: "stoi s = Inr v \<Longrightarrow> - (2 ^ 31) \<le> v \<and> v \<le> 2 ^ 31 - 1"
  by (auto simp: stoi_def Let_def split: option.splits if_splits)

end
