(* ===== verification/Text_Utils.thy ===== *)
theory Text_Utils
  imports Prelude
begin

section \<open>String utilities\<close>

text \<open>
  \<open>StringUtils\<close> of \<open>common/src/utils/string_utils.cpp\<close>. \<open>split_loop\<close> is the
  \<open>do ... while\<close> of \<open>Split\<close>; it is a partial function because the loop never ends
  for an empty delimiter. \<open>pieces\<close> is the reference: the text cut at each
  delimiter from left to right, empty pieces included. \<open>su_trim\<close> is \<open>Trim\<close>.
\<close>

subsection \<open>Split\<close>

partial_function (option) split_loop ::
  "string \<Rightarrow> string \<Rightarrow> nat \<Rightarrow> string list \<Rightarrow> string list option" where
  "split_loop str delim prev tokens =
     (let pos = (case str_find str delim prev of Some p \<Rightarrow> p | None \<Rightarrow> length str);
          token = substr str prev (pos - prev);
          tokens' = (if token \<noteq> [] then tokens @ [token] else tokens);
          prev' = pos + length delim
      in if pos < length str \<and> prev' < length str
         then split_loop str delim prev' tokens'
         else Some tokens')"

definition split :: "string \<Rightarrow> string \<Rightarrow> string list option" where
  "split str delim = split_loop str delim 0 []"

subsection \<open>Trim\<close>

definition whitespace :: string where
  "whitespace = [CHR '' '', CHR 0x09, CHR 0x0A, CHR 0x0D, CHR 0x0C, CHR 0x0B]"

definition su_trim :: "string \<Rightarrow> string" where
  "su_trim str =
     (case find_idx (\<lambda>c. c \<notin> set whitespace) str of
        None \<Rightarrow> []
      | Some start \<Rightarrow>
          (case find_last_idx (\<lambda>c. c \<notin> set whitespace) str of
             None \<Rightarrow> []
           | Some e \<Rightarrow> substr str start (e - start + 1)))"

subsection \<open>The reference for Split\<close>

function pieces :: "string \<Rightarrow> string \<Rightarrow> string list" where
  "pieces delim s =
     (if delim = [] then [s]
      else case find_sub delim s of
             None \<Rightarrow> [s]
           | Some p \<Rightarrow> take p s # pieces delim (drop (p + length delim) s))"
  by pat_completeness auto
termination
proof (relation "measure (\<lambda>(delim, s). length s)", goal_cases)
  case (2 delim s p)
  then have "prefix delim (drop p s)" "p \<le> length s" by (auto simp: find_sub_Some)
  then have "length delim \<le> length s - p" by (metis length_drop prefix_length_le)
  moreover have "0 < length delim" using 2 by simp
  ultimately have "0 < length s" by linarith
  with \<open>0 < length delim\<close> show ?case by simp
qed simp

declare pieces.simps [simp del]

fun join :: "string \<Rightarrow> string list \<Rightarrow> string" where
  "join delim [] = []"
| "join delim [t] = t"
| "join delim (t # ts) = t @ delim @ join delim ts"

lemma pieces_nonempty: "pieces delim s \<noteq> []"
  by (subst pieces.simps) (simp split: option.split)

lemma join_Cons: "ts \<noteq> [] \<Longrightarrow> join delim (t # ts) = t @ delim @ join delim ts"
  by (cases ts) auto

lemma pieces_Nil [simp]: "delim \<noteq> [] \<Longrightarrow> pieces delim [] = [[]]"
  by (simp add: pieces.simps)

text \<open>The pieces put together again are the text, and none contains the delimiter.\<close>

lemma join_pieces: "join delim (pieces delim s) = s"
proof (induction delim s rule: pieces.induct)
  case (1 delim s)
  show ?case
  proof (cases "delim = [] \<or> find_sub delim s = None")
    case True
    then show ?thesis by (auto simp: pieces.simps [of delim s])
  next
    case False
    then obtain p where p: "find_sub delim s = Some p" "delim \<noteq> []" by auto
    then have "prefix delim (drop p s)" by (simp add: find_sub_Some)
    then obtain r where "drop p s = delim @ r" by (auto simp: prefix_def)
    then have "s = take p s @ delim @ drop (p + length delim) s"
      by (metis append_take_drop_id append_eq_conv_conj drop_drop add.commute)
    moreover have "join delim (pieces delim s) =
        take p s @ delim @ join delim (pieces delim (drop (p + length delim) s))"
      using p by (simp add: pieces.simps [of delim s] join_Cons pieces_nonempty)
    ultimately show ?thesis using 1 p by simp
  qed
qed

lemma not_sublist_take:
  assumes "find_sub delim s = Some p" "delim \<noteq> []"
  shows "\<not> sublist delim (take p s)"
proof
  assume "sublist delim (take p s)"
  then obtain q where "find_sub delim (take p s) = Some q"
    by (metis find_sub_None not_None_eq)
  then have q: "prefix delim (drop q (take p s))" "q \<le> p" by (auto simp: find_sub_Some)
  then have "prefix delim (drop q s)"
    by (metis drop_take prefix_order.trans take_is_prefix)
  moreover have "q < p" using q assms(2) by (cases "q = p") auto
  ultimately show False using assms(1) by (simp add: find_sub_Some)
qed

lemma pieces_no_delim: "delim \<noteq> [] \<Longrightarrow> t \<in> set (pieces delim s) \<Longrightarrow> \<not> sublist delim t"
proof (induction delim s rule: pieces.induct)
  case (1 delim s)
  show ?case
  proof (cases "find_sub delim s")
    case None
    with 1 show ?thesis by (auto simp: pieces.simps [of delim s] find_sub_None)
  next
    case (Some p)
    with 1 show ?thesis
      by (auto simp: pieces.simps [of delim s] not_sublist_take)
  qed
qed

subsection \<open>The loop computes the nonempty pieces\<close>

lemma split_loop_pieces:
  assumes "delim \<noteq> []" "prev \<le> length str"
  shows "split_loop str delim prev tokens =
           Some (tokens @ filter (\<lambda>t. t \<noteq> []) (pieces delim (drop prev str)))"
  using assms
proof (induction "length str - prev" arbitrary: prev tokens rule: less_induct)
  case less
  show ?case
  proof (cases "find_sub delim (drop prev str)")
    case None
    then have "pieces delim (drop prev str) = [drop prev str]"
      by (simp add: pieces.simps [of delim])
    with None less.prems show ?thesis
      by (subst split_loop.simps) (simp add: str_find_def Let_def substr_def)
  next
    case (Some p)
    let ?prev = "prev + p + length delim"
    have p: "prefix delim (drop (p + prev) str)" "p + prev \<le> length str"
      using Some less.prems by (auto simp: find_sub_Some)
    then have "length delim \<le> length str - (p + prev)"
      by (metis length_drop prefix_length_le)
    with less.prems p have le: "?prev \<le> length str" "p + prev < length str"
      by (auto simp: neq_Nil_conv)
    have ps: "pieces delim (drop prev str) =
        take p (drop prev str) # pieces delim (drop ?prev str)"
      using Some less.prems by (simp add: pieces.simps [of delim "drop prev str"] ac_simps)
    show ?thesis
    proof (cases "?prev < length str")
      case True
      have "split_loop str delim ?prev ts =
          Some (ts @ filter (\<lambda>t. t \<noteq> []) (pieces delim (drop ?prev str)))" for ts
        by (rule less.hyps) (use True less.prems le in \<open>auto intro!: diff_less_mono2 simp: neq_Nil_conv\<close>)
      with True Some less.prems le ps show ?thesis
        by (subst split_loop.simps) (simp add: str_find_def Let_def substr_def ac_simps)
    next
      case False
      with Some less.prems le ps show ?thesis
        by (subst split_loop.simps) (simp add: str_find_def Let_def substr_def ac_simps)
    qed
  qed
qed

lemma split_loop_stuck:
  assumes returns: "split_loop str delim prev tokens = Some r"
  shows "delim = [] \<longrightarrow> \<not> prev < length str"
proof (rule split_loop.raw_induct
    [where P = "\<lambda>str delim prev tokens r. delim = [] \<longrightarrow> \<not> prev < length str", OF _ returns])
  fix f str delim prev tokens r
  assume IH: "\<And>str delim prev tokens r. f str delim prev tokens = Some r \<Longrightarrow>
      delim = [] \<longrightarrow> \<not> prev < length str"
    and eq: "(let pos = (case str_find str delim prev of None \<Rightarrow> length str | Some p \<Rightarrow> p);
          token = substr str prev (pos - prev);
          tokens' = if token \<noteq> [] then tokens @ [token] else tokens;
          prev' = pos + length delim
      in if pos < length str \<and> prev' < length str then f str delim prev' tokens'
         else Some tokens') = Some r"
  show "delim = [] \<longrightarrow> \<not> prev < length str"
  proof (intro impI notI)
    assume "delim = []" "prev < length str"
    then have "str_find str delim prev = Some prev" by (simp add: str_find_Some)
    with eq IH \<open>delim = []\<close> \<open>prev < length str\<close> show False
      by (simp add: Let_def substr_def)
  qed
qed

text \<open>
  \<open>Split\<close> with a nonempty delimiter ends, and returns the nonempty pieces of
  the text between delimiters, in order.
\<close>

theorem split_pieces:
  "delim \<noteq> [] \<Longrightarrow> split str delim = Some (filter (\<lambda>t. t \<noteq> []) (pieces delim str))"
  by (simp add: split_def split_loop_pieces)

theorem split_pieces_witness:
  "split ''a,,b'' '','' = Some [''a'', ''b'']"
  using split_pieces [of "'',''" "''a,,b''"] by (simp add: pieces.simps)

text \<open>\<open>Split\<close> of a nonempty text with an empty delimiter never returns.\<close>

theorem split_empty_delim_diverges: "str \<noteq> [] \<Longrightarrow> split str [] = None"
  using split_loop_stuck [of str "[]" 0 "[]"] by (cases "split str []") (auto simp: split_def)

theorem split_empty_delim_diverges_witness: "split ''a'' [] = None"
  using split_empty_delim_diverges [of "''a''"] by simp

subsection \<open>Trim strips\<close>

lemma set_whitespace: "c \<in> set whitespace \<longleftrightarrow> is_space c"
  by (auto simp: whitespace_def is_space_def)

lemma su_trim_strip: "su_trim s = strip s"
proof (cases "\<forall>c \<in> set s. is_space c")
  case True
  then have "find_idx (\<lambda>c. \<not> is_space c) s = None" "strip s = []"
    by (simp_all add: find_idx_None strip_Nil_iff)
  then show ?thesis by (simp add: su_trim_def set_whitespace)
next
  case False
  obtain u v where uv: "s = u @ strip s @ v" "\<forall>c \<in> set u \<union> set v. is_space c"
    using strip_decomp by blast
  from False have ne: "strip s \<noteq> []" by (simp add: strip_Nil_iff)
  then obtain x xs where x: "strip s = x # xs" "\<not> is_space x"
    using strip_ends [of s] by (cases "strip s") auto
  from ne obtain y ys where y: "strip s = ys @ [y]" "\<not> is_space y"
    using strip_ends [of s] by (cases "strip s" rule: rev_cases) auto
  have 1: "find_idx (\<lambda>c. \<not> is_space c) s = Some (length u)"
    using uv(2) x find_idx_None [of "\<lambda>c. \<not> is_space c" u]
    by (subst uv(1)) (simp add: find_idx_append)
  have 2: "find_last_idx (\<lambda>c. \<not> is_space c) s = Some (length (u @ ys))"
    using find_last_idx_append [of "\<lambda>c. \<not> is_space c" y v "u @ ys"] uv y by simp
  have "substr s (length u) (Suc (length ys)) = strip s"
    using y by (subst uv(1)) (simp add: substr_def)
  with 1 2 show ?thesis by (simp add: su_trim_def set_whitespace)
qed

end
