(* ===== verification/Config.thy ===== *)
theory Config
  imports Text_Utils "HOL-Library.AList" "HOL-Library.Multiset"
begin

section \<open>The configuration manager\<close>

text \<open>
  \<open>ConfigManager\<close> of \<open>common/src/config/config_manager.{h,cpp}\<close>: the parser of its
  YAML subset, one definition per helper and one for the body of the line loop, and the
  four getters. The unordered map is an association list with distinct keys, whose order
  stands for the unspecified iteration order. The file system is a parameter of
  \<open>load\<close>: \<open>None\<close> when the file cannot be opened.
\<close>

subsection \<open>The helpers\<close>

function trim_start :: "string \<Rightarrow> nat \<Rightarrow> nat" where
  "trim_start s start =
     (if start < length s \<and> is_space (s ! start) then trim_start s (start + 1) else start)"
  by pat_completeness auto
termination by (relation "measure (\<lambda>(s, start). length s - start)") auto

function trim_end :: "string \<Rightarrow> nat \<Rightarrow> nat \<Rightarrow> nat" where
  "trim_end s start e =
     (if e > start \<and> is_space (s ! (e - 1)) then trim_end s start (e - 1) else e)"
  by pat_completeness auto
termination by (relation "measure (\<lambda>(s, start, e). e)") auto

declare trim_start.simps [simp del] trim_end.simps [simp del]

definition cfg_trim :: "string \<Rightarrow> string" where
  "cfg_trim s =
     (let start = trim_start s 0; e = trim_end s start (length s)
      in substr s start (e - start))"

definition starts_with :: "string \<Rightarrow> string \<Rightarrow> bool" where
  "starts_with s pre \<longleftrightarrow> length s \<ge> length pre \<and> take (length pre) s = pre"

definition unquote :: "string \<Rightarrow> string" where
  "unquote v =
     (if length v \<ge> 2
      then (let a = hd v; b = last v
            in if a = CHR 0x22 \<and> b = CHR 0x22 \<or> a = CHR 0x27 \<and> b = CHR 0x27
               then substr v 1 (length v - 2) else v)
      else v)"

fun count_leading_spaces :: "string \<Rightarrow> nat" where
  "count_leading_spaces [] = 0"
| "count_leading_spaces (c # cs) =
     (if c = CHR '' '' then Suc (count_leading_spaces cs) else 0)"

function comment_loop :: "string \<Rightarrow> nat \<Rightarrow> string" where
  "comment_loop s i =
     (if i < length s
      then (if s ! i = CHR ''#''
            then (if i = 0 then []
                  else if is_space (s ! (i - 1)) then take i s
                  else comment_loop s (i + 1))
            else comment_loop s (i + 1))
      else s)"
  by pat_completeness auto
termination by (relation "measure (\<lambda>(s, i). length s - i)") auto

declare comment_loop.simps [simp del]

definition strip_inline_comment :: "string \<Rightarrow> string" where
  "strip_inline_comment s = comment_loop s 0"

definition join_keys :: "string list \<Rightarrow> string" where
  "join_keys stack =
     foldl (\<lambda>out k. if k = [] then out
                    else (if out \<noteq> [] then out @ ''.'' else out) @ k) [] stack"

subsection \<open>Loading\<close>

text \<open>
  \<open>getlines\<close> is the \<open>std::getline\<close> loop on the contents of the file. The stacks are
  vectors, their top is the last element.
\<close>

function getlines :: "string \<Rightarrow> string list" where
  "getlines s =
     (if s = [] then []
      else case find_char (CHR 0x0A) s of
             None \<Rightarrow> [s]
           | Some p \<Rightarrow> take p s # getlines (drop (p + 1) s))"
  by pat_completeness auto
termination
  by (relation "measure length") auto

declare getlines.simps [simp del]

type_synonym config_map = "(string \<times> string) list"

record load_state =
  key_stack :: "string list"
  indent_stack :: "nat list"
  list_counters :: "(string \<times> nat) list"
  config_map :: config_map

function pop_sections :: "nat \<Rightarrow> string list \<Rightarrow> nat list \<Rightarrow> string list \<times> nat list" where
  "pop_sections indent ks ins =
     (if ins \<noteq> [] \<and> indent < last ins
      then pop_sections indent (if ks \<noteq> [] then butlast ks else ks) (butlast ins)
      else (ks, ins))"
  by pat_completeness auto
termination by (relation "measure (\<lambda>(indent, ks, ins). length ins)") auto

declare pop_sections.simps [simp del]

definition add_item :: "load_state \<Rightarrow> string \<Rightarrow> load_state" where
  "add_item st content =
     (let value = cfg_trim (substr content 2 (length content));
          value = unquote (cfg_trim value);
          pre = join_keys (key_stack st)
      in if pre = [] then st
         else case map_of (list_counters st) pre of
                None \<Rightarrow>
                  st\<lparr>list_counters := AList.update pre 1 (list_counters st),
                     config_map :=
                       AList.update (pre @ ''.'' @ to_string_int 0) value (config_map st)\<rparr>
              | Some idx \<Rightarrow>
                  st\<lparr>list_counters := AList.update pre (idx + 1) (list_counters st),
                     config_map :=
                       AList.update (pre @ ''.'' @ to_string_int (int idx)) value
                         (config_map st)\<rparr>)"

definition add_key :: "load_state \<Rightarrow> nat \<Rightarrow> string \<Rightarrow> load_state" where
  "add_key st indent content =
     (case find_char (CHR '':'') content of
        None \<Rightarrow> st
      | Some pos \<Rightarrow>
          (let key = cfg_trim (take pos content);
               rest = cfg_trim (drop (pos + 1) content)
           in if key = [] then st
              else if rest = []
              then st\<lparr>key_stack := key_stack st @ [key], indent_stack := indent_stack st @ [indent]\<rparr>
              else
                (let full_key = join_keys (key_stack st);
                     full_key = (if full_key \<noteq> [] then full_key @ ''.'' else full_key) @ key
                 in st\<lparr>config_map := AList.update full_key (unquote rest) (config_map st)\<rparr>)))"

definition load_line :: "load_state \<Rightarrow> string \<Rightarrow> load_state" where
  "load_line st line =
     (let raw = strip_inline_comment line
      in if cfg_trim raw = [] then st
         else
           (let indent = count_leading_spaces raw; content = cfg_trim raw
            in if content = [] then st
               else
                 (let (ks, ins) = pop_sections indent (key_stack st) (indent_stack st);
                      st' = st\<lparr>key_stack := ks, indent_stack := ins\<rparr>
                  in if starts_with content ''- '' then add_item st' content
                     else add_key st' indent content)))"

definition empty_state :: load_state where
  "empty_state = \<lparr>key_stack = [], indent_stack = [], list_counters = [], config_map = []\<rparr>"

definition load_lines :: "load_state \<Rightarrow> string list \<Rightarrow> load_state" where
  "load_lines st lines = foldl load_line st lines"

definition load :: "(string \<Rightarrow> string option) \<Rightarrow> string \<Rightarrow> bool \<times> config_map" where
  "load open_file file_path =
     (case open_file file_path of
        None \<Rightarrow> (False, [])
      | Some contents \<Rightarrow> (True, config_map (load_lines empty_state (getlines contents))))"

subsection \<open>The getters\<close>

definition get_string :: "config_map \<Rightarrow> string \<Rightarrow> string \<Rightarrow> string" where
  "get_string cm key default_val =
     (case map_of cm key of Some v \<Rightarrow> v | None \<Rightarrow> default_val)"

definition get_int :: "config_map \<Rightarrow> string \<Rightarrow> int \<Rightarrow> int" where
  "get_int cm key default_val =
     (case map_of cm key of
        Some v \<Rightarrow> (case stoi v of Inr i \<Rightarrow> i | Inl _ \<Rightarrow> default_val)
      | None \<Rightarrow> default_val)"

definition get_bool :: "config_map \<Rightarrow> string \<Rightarrow> bool \<Rightarrow> bool" where
  "get_bool cm key default_val =
     (case map_of cm key of
        None \<Rightarrow> default_val
      | Some v0 \<Rightarrow>
          (let v = List.map to_lower v0
           in if v = ''true'' \<or> v = ''1'' \<or> v = ''yes'' \<or> v = ''on'' then True
              else if v = ''false'' \<or> v = ''0'' \<or> v = ''no'' \<or> v = ''off'' then False
              else default_val))"

text \<open>
  The loop of \<open>GetStringList\<close> over the map, then \<open>std::sort\<close> by index. Among equal
  indices \<open>std::sort\<close> may leave any order; here it is the iteration order, itself
  unspecified.
\<close>

definition list_entry :: "string \<Rightarrow> string \<times> string \<Rightarrow> (int \<times> string) option" where
  "list_entry pre kv =
     (if \<not> starts_with (fst kv) pre then None
      else
        (let suffix = drop (length pre) (fst kv)
         in if suffix = [] then None
            else if \<not> list_all is_digit suffix then None
            else case stoi suffix of Inl _ \<Rightarrow> None | Inr idx \<Rightarrow> Some (idx, snd kv)))"

definition list_items :: "config_map \<Rightarrow> string \<Rightarrow> (int \<times> string) list" where
  "list_items cm key_prefix = List.map_filter (list_entry (key_prefix @ ''.'')) cm"

definition get_string_list :: "config_map \<Rightarrow> string \<Rightarrow> string list" where
  "get_string_list cm key_prefix = List.map snd (sort_key fst (list_items cm key_prefix))"

subsection \<open>Trimming strips\<close>

lemma trim_start_eq: "trim_start s i = i + length (takeWhile is_space (drop i s))"
proof (induction s i rule: trim_start.induct)
  case (1 s i)
  show ?case
  proof (cases "i < length s")
    case True
    then have "drop i s = s ! i # drop (Suc i) s" by (simp add: Cons_nth_drop_Suc)
    with True 1 show ?thesis by (simp add: trim_start.simps [of s i])
  next
    case False
    then show ?thesis by (simp add: trim_start.simps [of s i])
  qed
qed

lemma trim_end_eq:
  "i \<le> e \<Longrightarrow> e \<le> length s \<Longrightarrow>
     trim_end s i e = e - length (takeWhile is_space (rev (drop i (take e s))))"
proof (induction s i e rule: trim_end.induct)
  case (1 s i e)
  show ?case
  proof (cases "i < e")
    case True
    then have "take e s = take (e - 1) s @ [s ! (e - 1)]"
      using "1.prems" by (metis Suc_diff_1 Suc_le_lessD less_nat_zero_code neq0_conv take_Suc_conv_app_nth)
    moreover have "drop i (take (e - 1) s @ [s ! (e - 1)]) = drop i (take (e - 1) s) @ [s ! (e - 1)]"
      using True "1.prems" by simp
    ultimately show ?thesis
      using True 1 by (auto simp: trim_end.simps [of s i e])
  next
    case False
    with "1.prems" show ?thesis by (subst trim_end.simps) simp
  qed
qed

lemma cfg_trim_strip: "cfg_trim s = strip s"
proof -
  let ?i = "length (takeWhile is_space s)" and ?t = "dropWhile is_space s"
  let ?n = "length (takeWhile is_space (rev ?t))"
  have t: "drop ?i s = ?t" by (simp add: dropWhile_eq_drop)
  have i: "?i \<le> length s" by (rule length_takeWhile_le)
  have "trim_end s ?i (length s) = length s - ?n"
    using trim_end_eq [OF i] t by simp
  then have "cfg_trim s = take (length s - ?n - ?i) ?t"
    by (simp add: cfg_trim_def trim_start_eq substr_def t)
  also have "length s - ?n - ?i = length ?t - ?n"
    by (metis diff_commute length_drop t)
  also have "take (length ?t - ?n) ?t = rev (drop ?n (rev ?t))" by (simp add: rev_drop)
  also have "\<dots> = strip s" by (simp add: strip_def dropWhile_eq_drop)
  finally show ?thesis .
qed

subsection \<open>Comments, prefixes and quotes\<close>

lemma comment_loop_id: "CHR ''#'' \<notin> set s \<Longrightarrow> comment_loop s i = s"
proof (induction s i rule: comment_loop.induct)
  case (1 s i)
  show ?case
  proof (cases "i < length s")
    case True
    with "1.prems" have "s ! i \<noteq> CHR ''#''" by (metis nth_mem)
    with True 1 show ?thesis by (simp add: comment_loop.simps [of s i])
  next
    case False
    then show ?thesis by (simp add: comment_loop.simps [of s i])
  qed
qed

lemma strip_inline_comment_id: "CHR ''#'' \<notin> set s \<Longrightarrow> strip_inline_comment s = s"
  by (simp add: strip_inline_comment_def comment_loop_id)

lemma comment_loop_prefix: "prefix (comment_loop s i) s"
proof (induction s i rule: comment_loop.induct)
  case (1 s i)
  then show ?case
    by (subst comment_loop.simps) (auto simp: take_is_prefix)
qed

lemma starts_with_prefix: "starts_with s p \<longleftrightarrow> prefix p s"
  by (auto simp: starts_with_def prefix_def) (metis append_take_drop_id)

lemma unquote_quoted [simp]: "unquote (CHR 0x22 # v @ [CHR 0x22]) = v"
  by (simp add: unquote_def substr_def)

lemma unquote_unquoted:
  "v = [] \<or> hd v \<noteq> CHR 0x22 \<and> hd v \<noteq> CHR 0x27 \<Longrightarrow> unquote v = v"
  by (auto simp: unquote_def Let_def)

subsection \<open>Keys\<close>

abbreviation dotted :: "string \<Rightarrow> string \<Rightarrow> string" where
  "dotted k l \<equiv> k @ ''.'' @ l"

lemma join_keys_snoc:
  "k \<noteq> [] \<Longrightarrow> join_keys (ks @ [k]) = (if join_keys ks = [] then k else dotted (join_keys ks) k)"
  by (simp add: join_keys_def)

lemma join_keys_Nil [simp]: "join_keys [] = []"
  by (simp add: join_keys_def)

lemma join_keys_empty: "[] \<notin> set ks \<Longrightarrow> join_keys ks = [] \<longleftrightarrow> ks = []"
  by (cases ks rule: rev_cases) (auto simp: join_keys_snoc split: if_splits)

subsection \<open>Invariants of the line loop\<close>

text \<open>
  The two stacks have the same height, the indentations on the stack do not decrease
  towards the top, no key on the stack is empty, and the map has one entry per key.
\<close>

definition load_inv :: "load_state \<Rightarrow> bool" where
  "load_inv st \<longleftrightarrow>
     length (key_stack st) = length (indent_stack st) \<and> sorted (indent_stack st) \<and>
     [] \<notin> set (key_stack st) \<and>
     distinct (List.map fst (config_map st)) \<and> distinct (List.map fst (list_counters st))"

lemma pop_sections_eq:
  "length ks = length ins \<Longrightarrow> sorted ins \<Longrightarrow>
     pop_sections indent ks ins =
       (take (length (takeWhile (\<lambda>i. i \<le> indent) ins)) ks, takeWhile (\<lambda>i. i \<le> indent) ins)"
proof (induction indent ks ins rule: pop_sections.induct)
  case (1 indent ks ins)
  show ?case
  proof (cases "ins \<noteq> [] \<and> indent < last ins")
    case True
    then obtain js i where ins: "ins = js @ [i]" "indent < i" by (cases ins rule: rev_cases) auto
    with "1.prems" obtain ls k where ks: "ks = ls @ [k]" "length ls = length js"
      by (cases ks rule: rev_cases) auto
    have "pop_sections indent ks ins = pop_sections indent ls js"
      using ins ks by (subst pop_sections.simps) simp
    also have "\<dots> = (take (length (takeWhile (\<lambda>i. i \<le> indent) js)) ls,
                    takeWhile (\<lambda>i. i \<le> indent) js)"
      using 1 True ins ks by (simp add: sorted_append)
    also have "takeWhile (\<lambda>i. i \<le> indent) js = takeWhile (\<lambda>i. i \<le> indent) ins"
      using ins by (simp add: takeWhile_tail)
    finally show ?thesis
      using ins ks length_takeWhile_le [of "\<lambda>i. i \<le> indent" js]
      by (simp add: takeWhile_tail)
  next
    case False
    have tw: "takeWhile (\<lambda>i. i \<le> indent) ins = ins"
    proof (cases ins rule: rev_cases)
      case (snoc js i)
      with False "1.prems" show ?thesis by (auto simp: sorted_append takeWhile_eq_all_conv)
    qed simp
    have "pop_sections indent ks ins = (ks, ins)"
      using False by (subst pop_sections.simps) (simp only: if_not_P False if_False)
    then show ?thesis using "1.prems" by (simp add: tw)
  qed
qed

lemma load_inv_empty [simp]: "load_inv empty_state"
  by (simp add: load_inv_def empty_state_def)

lemma load_inv_pop:
  assumes "load_inv st" "pop_sections indent (key_stack st) (indent_stack st) = (ks, ins)"
  shows "load_inv (st\<lparr>key_stack := ks, indent_stack := ins\<rparr>) \<and> (\<forall>i \<in> set ins. i \<le> indent)"
proof -
  let ?js = "takeWhile (\<lambda>i. i \<le> indent) (indent_stack st)"
  have eq: "ks = take (length ?js) (key_stack st)" "ins = ?js"
    using assms pop_sections_eq [of "key_stack st" "indent_stack st" indent]
    by (auto simp: load_inv_def)
  have "sorted ?js" using assms(1) by (auto simp: load_inv_def intro: sorted_takeWhile)
  moreover have "length ?js \<le> length (key_stack st)"
    using assms(1) length_takeWhile_le [of "\<lambda>i. i \<le> indent" "indent_stack st"]
    by (simp add: load_inv_def)
  moreover have "[] \<notin> set (take (length ?js) (key_stack st))"
    using assms(1) by (auto simp: load_inv_def dest: in_set_takeD)
  ultimately show ?thesis using assms(1) eq by (auto simp: load_inv_def dest: set_takeWhileD)
qed

lemma load_inv_add_item: "load_inv st \<Longrightarrow> load_inv (add_item st content)"
  by (auto simp: add_item_def load_inv_def Let_def distinct_update split: option.splits)

lemma load_inv_add_key:
  "load_inv st \<Longrightarrow> \<forall>i \<in> set (indent_stack st). i \<le> indent \<Longrightarrow> load_inv (add_key st indent content)"
  by (auto simp: add_key_def load_inv_def Let_def distinct_update sorted_append split: option.splits)

lemma load_inv_line: "load_inv st \<Longrightarrow> load_inv (load_line st line)"
proof -
  assume inv: "load_inv st"
  let ?raw = "strip_inline_comment line"
  obtain ks ins where pop:
      "pop_sections (count_leading_spaces ?raw) (key_stack st) (indent_stack st) = (ks, ins)"
    by fastforce
  note inv' = load_inv_pop [OF inv pop]
  show ?thesis
    using inv inv' load_inv_add_item load_inv_add_key
    by (simp add: load_line_def Let_def pop)
qed

lemma load_inv_lines: "load_inv st \<Longrightarrow> load_inv (load_lines st ls)"
  by (induction ls arbitrary: st) (auto simp: load_lines_def load_inv_line)

subsection \<open>Lines as a writer of the file lays them out\<close>

text \<open>
  A section header, a scalar and a list item, at an indentation. \<open>render\<close> writes the
  line; \<open>line_step\<close> says what reading it does to the parser, in terms of the stack of
  sections and the map only. A plain token has no space at its ends and no \<open>#\<close>.
\<close>

datatype yaml_line = Section nat string | Scalar nat string string | Item nat string

fun render :: "yaml_line \<Rightarrow> string" where
  "render (Section n k) = replicate n (CHR '' '') @ k @ '':''"
| "render (Scalar n k v) = replicate n (CHR '' '') @ k @ '': '' @ v"
| "render (Item n v) = replicate n (CHR '' '') @ ''- '' @ v"

definition plain :: "string \<Rightarrow> bool" where
  "plain s \<longleftrightarrow> s \<noteq> [] \<and> \<not> is_space (hd s) \<and> \<not> is_space (last s) \<and> CHR ''#'' \<notin> set s"

definition plain_key :: "string \<Rightarrow> bool" where
  "plain_key k \<longleftrightarrow> plain k \<and> CHR '':'' \<notin> set k \<and> \<not> prefix ''- '' k"

fun well_written :: "yaml_line \<Rightarrow> bool" where
  "well_written (Section n k) \<longleftrightarrow> plain_key k"
| "well_written (Scalar n k v) \<longleftrightarrow> plain_key k \<and> plain v"
| "well_written (Item n v) \<longleftrightarrow> plain v"

fun indent_of :: "yaml_line \<Rightarrow> nat" where
  "indent_of (Section n k) = n"
| "indent_of (Scalar n k v) = n"
| "indent_of (Item n v) = n"

definition close_sections :: "nat \<Rightarrow> load_state \<Rightarrow> load_state" where
  "close_sections n st =
     (let m = length (takeWhile (\<lambda>i. i \<le> n) (indent_stack st))
      in st\<lparr>key_stack := take m (key_stack st), indent_stack := take m (indent_stack st)\<rparr>)"

definition path_key :: "string list \<Rightarrow> string \<Rightarrow> string" where
  "path_key ks k = (if join_keys ks = [] then k else dotted (join_keys ks) k)"

fun line_effect :: "load_state \<Rightarrow> yaml_line \<Rightarrow> load_state" where
  "line_effect st (Section n k) =
     st\<lparr>key_stack := key_stack st @ [k], indent_stack := indent_stack st @ [n]\<rparr>"
| "line_effect st (Scalar n k v) =
     st\<lparr>config_map := AList.update (path_key (key_stack st) k) (unquote v) (config_map st)\<rparr>"
| "line_effect st (Item n v) =
     (let pre = join_keys (key_stack st);
          idx = (case map_of (list_counters st) pre of None \<Rightarrow> 0 | Some i \<Rightarrow> i)
      in if pre = [] then st
         else st\<lparr>list_counters := AList.update pre (idx + 1) (list_counters st),
                 config_map :=
                   AList.update (dotted pre (dec idx)) (unquote v) (config_map st)\<rparr>)"

definition line_step :: "load_state \<Rightarrow> yaml_line \<Rightarrow> load_state" where
  "line_step st l = line_effect (close_sections (indent_of l) st) l"

lemma plain_strip [simp]: "plain s \<Longrightarrow> strip s = s"
  by (simp add: plain_def strip_id)

lemma plain_indented:
  assumes "plain s"
  shows "strip_inline_comment (replicate n (CHR '' '') @ s) = replicate n (CHR '' '') @ s"
    and "cfg_trim (replicate n (CHR '' '') @ s) = s"
    and "count_leading_spaces (replicate n (CHR '' '') @ s) = n"
proof -
  show "strip_inline_comment (replicate n (CHR '' '') @ s) = replicate n (CHR '' '') @ s"
    using assms by (auto simp: plain_def intro!: strip_inline_comment_id)
  show "cfg_trim (replicate n (CHR '' '') @ s) = s"
    using strip_pad [of "replicate n (CHR '' '')" "[]" s] assms
    by (simp add: cfg_trim_strip is_space_def)
  obtain c cs where "s = c # cs" "c \<noteq> CHR '' ''"
    using assms by (cases s) (auto simp: plain_def is_space_def)
  then show "count_leading_spaces (replicate n (CHR '' '') @ s) = n"
    by (induction n) auto
qed

lemma load_line_plain:
  assumes "plain s" "load_inv st"
  shows "load_line st (replicate n (CHR '' '') @ s) =
           (if starts_with s ''- '' then add_item (close_sections n st) s
            else add_key (close_sections n st) n s)"
proof -
  have ne: "s \<noteq> []" using assms(1) by (simp add: plain_def)
  have "pop_sections n (key_stack st) (indent_stack st) =
      (key_stack (close_sections n st), indent_stack (close_sections n st))"
    using assms(2) pop_sections_eq [of "key_stack st" "indent_stack st" n]
    by (simp add: load_inv_def close_sections_def Let_def flip: takeWhile_eq_take)
  moreover have "st\<lparr>key_stack := key_stack (close_sections n st),
      indent_stack := indent_stack (close_sections n st)\<rparr> = close_sections n st"
    by (simp add: close_sections_def Let_def)
  ultimately show ?thesis
    using ne by (simp add: load_line_def plain_indented [OF assms(1)] Let_def)
qed

lemma plain_section: "plain_key k \<Longrightarrow> plain (k @ '':'')"
  by (auto simp: plain_key_def plain_def is_space_def)

lemma plain_scalar: "plain_key k \<Longrightarrow> plain v \<Longrightarrow> plain (k @ '': '' @ v)"
  by (auto simp: plain_key_def plain_def)

lemma plain_item: "plain v \<Longrightarrow> plain (''- '' @ v)"
  by (auto simp: plain_def is_space_def)

lemma key_not_item: "plain_key k \<Longrightarrow> \<not> starts_with (k @ CHR '':'' # r) ''- ''"
  by (cases k; cases "tl k") (auto simp: plain_key_def starts_with_prefix)

lemma add_item_eq:
  "plain v \<Longrightarrow> add_item st (''- '' @ v) = line_effect st (Item n v)"
  by (auto simp: add_item_def Let_def cfg_trim_strip substr_def to_string_int_def split: option.splits)

lemma strip_Nil [simp]: "strip [] = []"
  by (simp add: strip_def)

lemma plain_keyD: "plain_key k \<Longrightarrow> CHR '':'' \<notin> set k \<and> strip k = k \<and> k \<noteq> []"
  by (auto simp: plain_key_def) (simp add: plain_def)

lemma add_key_section: "plain_key k \<Longrightarrow> add_key st n (k @ '':'') = line_effect st (Section n k)"
  by (drule plain_keyD) (simp add: add_key_def find_char_first cfg_trim_strip Let_def)

lemma add_key_scalar:
  assumes "plain_key k" "plain v"
  shows "add_key st n (k @ '': '' @ v) = line_effect st (Scalar n k v)"
proof -
  have "strip (CHR '' '' # v) = v"
    using strip_pad [of "'' ''" "[]" v] assms by (simp add: is_space_def)
  moreover have "v \<noteq> []" using assms by (simp add: plain_def)
  ultimately show ?thesis using plain_keyD [OF assms(1)]
    by (simp add: add_key_def find_char_first cfg_trim_strip Let_def path_key_def)
qed

lemma load_line_render:
  assumes "well_written l" "load_inv st"
  shows "load_line st (render l) = line_step st l"
proof (cases l)
  case (Section n k)
  with assms have "plain_key k" by simp
  with Section assms(2) load_line_plain [OF plain_section, of k st n] show ?thesis
    by (simp add: key_not_item line_step_def add_key_section)
next
  case (Scalar n k v)
  with assms have "plain_key k" "plain v" by auto
  with Scalar assms(2) load_line_plain [OF plain_scalar, of k v st n] show ?thesis
    by (simp add: key_not_item line_step_def add_key_scalar [of k v, simplified])
next
  case (Item n v)
  with assms have "plain v" by simp
  with Item assms(2) load_line_plain [OF plain_item, of v st n] show ?thesis
    by (simp add: starts_with_prefix line_step_def add_item_eq [of v _ n, simplified])
qed

lemma load_lines_render:
  "\<forall>l \<in> set ls. well_written l \<Longrightarrow> load_inv st \<Longrightarrow>
     load_lines st (List.map render ls) = foldl line_step st ls"
proof (induction ls arbitrary: st)
  case (Cons l ls)
  have "load_line st (render l) = line_step st l" using Cons.prems load_line_render by simp
  moreover have "load_inv (line_step st l)"
    using Cons.prems load_inv_line [of st "render l"] calculation by simp
  ultimately show ?case using Cons by (simp add: load_lines_def)
qed (simp add: load_lines_def)

text \<open>The contents of a file of these lines.\<close>

definition unlines :: "string list \<Rightarrow> string" where
  "unlines ls = concat (List.map (\<lambda>l. l @ [CHR 0x0A]) ls)"

lemma getlines_Nil [simp]: "getlines [] = []"
  by (simp add: getlines.simps)

lemma getlines_unlines: "\<forall>l \<in> set ls. CHR 0x0A \<notin> set l \<Longrightarrow> getlines (unlines ls) = ls"
  by (induction ls) (auto simp: unlines_def getlines.simps [of "_ @ _"] find_char_first)

lemma load_render:
  assumes "\<forall>l \<in> set ls. well_written l \<and> CHR 0x0A \<notin> set (render l)"
    and "open_file path = Some (unlines (List.map render ls))"
  shows "load open_file path = (True, config_map (foldl line_step empty_state ls))"
  using assms by (simp add: load_def getlines_unlines load_lines_render)

subsection \<open>Lists\<close>

lemma update_fresh: "k \<notin> fst ` set al \<Longrightarrow> AList.update k v al = al @ [(k, v)]"
  by (induction al) auto

definition items_map :: "string \<Rightarrow> string list \<Rightarrow> config_map" where
  "items_map k vs = List.map (\<lambda>j. (dotted k (dec j), unquote (vs ! j))) [0..<length vs]"

lemma items_map_snoc:
  "items_map k (vs @ [v]) = items_map k vs @ [(dotted k (dec (length vs)), unquote v)]"
  by (auto simp: items_map_def nth_append)

lemma join_keys_single [simp]: "k \<noteq> [] \<Longrightarrow> join_keys [k] = k"
  using join_keys_snoc [of k "[]"] by simp

lemma section_items_state:
  assumes "plain_key k" "n \<le> m"
  shows "foldl line_step empty_state (Section n k # List.map (Item m) vs) =
     \<lparr>key_stack = [k], indent_stack = [n],
      list_counters = (if vs = [] then [] else [(k, length vs)]), config_map = items_map k vs\<rparr>"
proof (induction vs rule: rev_induct)
  case Nil
  then show ?case
    by (simp add: line_step_def close_sections_def empty_state_def items_map_def)
next
  case (snoc v vs)
  have ne: "k \<noteq> []" using assms(1) plain_keyD by blast
  have fresh: "dotted k (dec (length vs)) \<notin> fst ` set (items_map k vs)"
    by (auto simp: items_map_def)
  let ?st = "\<lambda>vs. \<lparr>key_stack = [k], indent_stack = [n],
      list_counters = (if vs = [] then [] else [(k, length vs)]), config_map = items_map k vs\<rparr>"
  have "foldl line_step empty_state (Section n k # List.map (Item m) (vs @ [v])) =
      line_step (foldl line_step empty_state (Section n k # List.map (Item m) vs)) (Item m v)"
    by simp
  also have "\<dots> = line_step (?st vs) (Item m v)" by (simp only: snoc)
  also have "\<dots> = ?st (vs @ [v])"
    using assms(2) ne fresh items_map_snoc [of k vs v]
    by (cases "vs = []") (simp_all add: line_step_def close_sections_def Let_def update_fresh)
  finally show ?case .
qed

lemma list_entry_item:
  "int j < 2 ^ 31 \<Longrightarrow> list_entry (k @ ''.'') (dotted k (dec j), v) = Some (int j, v)"
proof -
  assume j: "int j < 2 ^ 31"
  have "stoi (dec j) = Inr (int j)"
    using stoi_to_string [of "int j"] j by (simp add: to_string_int_def)
  moreover have "list_all is_digit (dec j)" by (auto simp: list_all_iff intro: dec_digits)
  ultimately show ?thesis by (simp add: list_entry_def starts_with_prefix)
qed

lemma map_filter_map_Some:
  "(\<And>x. x \<in> set xs \<Longrightarrow> f (h x) = Some (g x)) \<Longrightarrow> List.map_filter f (List.map h xs) = List.map g xs"
  by (induction xs) (auto simp: map_filter_simps)

lemma map_nth_unquote: "List.map (\<lambda>j. unquote (vs ! j)) [0..<length vs] = List.map unquote vs"
  by (rule nth_equalityI) auto

lemma get_string_list_items:
  assumes "int (length vs) \<le> 2 ^ 31"
  shows "get_string_list (items_map k vs) k = List.map unquote vs"
proof -
  have "list_items (items_map k vs) k = List.map (\<lambda>j. (int j, unquote (vs ! j))) [0..<length vs]"
    using assms unfolding list_items_def items_map_def
    by (intro map_filter_map_Some list_entry_item) auto
  moreover have "sorted (List.map int [0..<length vs])" by (simp add: sorted_map)
  ultimately show ?thesis
    by (simp add: get_string_list_def sort_key_id_if_sorted comp_def map_nth_unquote)
qed

lemma sort_key_distinct_eq:
  assumes "mset xs = mset ys" "distinct (List.map f xs)"
  shows "sort_key f xs = sort_key f ys"
proof -
  have d: "distinct (List.map f ys)"
    using assms by (metis mset_eq_imp_distinct_iff mset_map)
  have single: "filter (\<lambda>x. f k = f x) zs = [k]" if "distinct (List.map f zs)" "k \<in> set zs" for zs k
    using that by (induction zs) (auto simp: filter_empty_conv image_iff)
  show ?thesis
  proof (rule properties_for_sort_key)
    show "mset (sort_key f ys) = mset xs" using assms(1) by simp
    show "filter (\<lambda>x. f k = f x) (sort_key f ys) = filter (\<lambda>x. f k = f x) xs"
      if "k \<in> set (sort_key f ys)" for k
    proof -
      have "k \<in> set xs" "k \<in> set ys" using that assms(1) mset_eq_setD by auto
      moreover have "distinct (List.map f (sort_key f ys))"
        using d by (metis mset_eq_imp_distinct_iff mset_map mset_sort)
      ultimately show ?thesis using single assms(2) by (metis set_sort)
    qed
    show "sorted (List.map f (sort_key f ys))" by simp
  qed
qed

subsection \<open>Properties\<close>

text \<open>
  Whatever the file holds, loading it keeps the stacks of keys and of indentations
  together, the indentations in order, and one entry per key in the map.
\<close>

theorem load_lines_invariant:
  "load_inv (load_lines empty_state (getlines contents)) \<and>
   distinct (List.map fst (snd (load open_file path)))"
proof
  show "load_inv (load_lines empty_state (getlines contents))"
    by (simp add: load_inv_lines)
  have "load_inv (load_lines empty_state (getlines c))" for c
    by (simp add: load_inv_lines)
  then show "distinct (List.map fst (snd (load open_file path)))"
    by (auto simp: load_def load_inv_def split: option.splits)
qed

text \<open>
  Nesting by indentation, as in YAML: a header or a scalar at the indentation of an open
  section, or less, stands beside it and closes it, an item may stand at the indentation of
  its list.
\<close>

fun within :: "yaml_line \<Rightarrow> nat \<Rightarrow> bool" where
  "within (Item n v) i \<longleftrightarrow> i \<le> n"
| "within l i \<longleftrightarrow> i < indent_of l"

definition yaml_step :: "load_state \<Rightarrow> yaml_line \<Rightarrow> load_state" where
  "yaml_step st l =
     (let m = length (takeWhile (within l) (indent_stack st))
      in line_effect (st\<lparr>key_stack := take m (key_stack st), indent_stack := take m (indent_stack st)\<rparr>) l)"

text \<open>No key of the rest of the file stands at the indentation of a section open before it.\<close>

primrec no_siblings :: "load_state \<Rightarrow> yaml_line list \<Rightarrow> bool" where
  "no_siblings st [] \<longleftrightarrow> True"
| "no_siblings st (l # ls) \<longleftrightarrow>
     ((\<exists>n v. l = Item n v) \<or> indent_of l \<notin> set (indent_stack st)) \<and> no_siblings (yaml_step st l) ls"

lemma line_step_yaml:
  assumes "(\<exists>n v. l = Item n v) \<or> indent_of l \<notin> set (indent_stack st)"
  shows "line_step st l = yaml_step st l"
proof -
  have "takeWhile (within l) (indent_stack st) = takeWhile (\<lambda>i. i \<le> indent_of l) (indent_stack st)"
    using assms by (intro takeWhile_cong refl) (cases l; auto simp: order_le_less)
  then show ?thesis by (simp add: line_step_def yaml_step_def close_sections_def Let_def)
qed

lemma line_steps_yaml: "no_siblings st ls \<Longrightarrow> foldl line_step st ls = foldl yaml_step st ls"
  by (induction ls arbitrary: st) (simp_all add: line_step_yaml)

text \<open>
  C21. A file of section headers, scalars and list items, one to a line and without comments, is
  loaded by its indentation: a header or a scalar stands in the open sections of a smaller
  indentation and closes the others, an item stands also in one of its own indentation; a
  scalar is stored under the dotted path of the sections it stands in, an item under the next
  index of its list. This is for files in which no header or scalar stands at the indentation
  of an open section: in YAML it is a sibling of that section, the loader takes it to be
  inside (see \<open>sibling_section_nested\<close>). Of the values only quotes around them are read,
  YAML's other forms are kept as they are written.
\<close>

theorem load_refines_yaml:
  assumes "\<forall>l \<in> set ls. well_written l \<and> CHR 0x0A \<notin> set (render l)"
    and "no_siblings empty_state ls"
    and "open_file path = Some (unlines (List.map render ls))"
  shows "load open_file path = (True, config_map (foldl yaml_step empty_state ls))"
  using load_render [where open_file = open_file and path = path, OF assms(1,3)] line_steps_yaml [OF assms(2)] by simp

theorem load_refines_yaml_witness:
  "load (\<lambda>_. Some (unlines (List.map render [Section 0 ''a'', Scalar 2 ''x'' ''1'', Section 2 ''b'',
      Item 2 ''u'', Item 2 ''v'']))) ''f'' = (True, [(''a.x'', ''1''), (''a.b.0'', ''u''), (''a.b.1'', ''v'')])"
proof -
  let ?ls = "[Section 0 ''a'', Scalar 2 ''x'' ''1'', Section 2 ''b'', Item 2 ''u'', Item 2 ''v'']"
  have w: "\<forall>l \<in> set ?ls. well_written l \<and> CHR 0x0A \<notin> set (render l)"
    by (simp add: plain_key_def plain_def is_space_def eval_nat_numeral)
  have n: "no_siblings empty_state ?ls"
    by (simp add: yaml_step_def empty_state_def Let_def)
  have d: "dec 0 = ''0''" "dec (Suc 0) = ''1''" by code_simp+
  from load_refines_yaml [OF w n, of "\<lambda>_. Some (unlines (List.map render ?ls))"]
  show ?thesis
    by (simp add: yaml_step_def empty_state_def path_key_def unquote_def join_keys_def Let_def d)
qed

text \<open>
  A section beside another is taken to be inside it: of a file with two sections at the same
  indentation, each with one scalar, the scalar of the second is found under the names of
  both and not under its own, where YAML has it.
\<close>

theorem sibling_section_nested:
  assumes "\<forall>l \<in> set [Section n a, Scalar m k v, Section n b, Scalar m j u].
             well_written l \<and> CHR 0x0A \<notin> set (render l)"
    and "n < m" "a \<noteq> b" "CHR ''.'' \<notin> set a" "CHR ''.'' \<notin> set b"
    and "open_file path = Some (unlines (List.map render
           [Section n a, Scalar m k v, Section n b, Scalar m j u]))"
  shows "map_of (snd (load open_file path)) (b @ ''.'' @ j) = None \<and>
    map_of (snd (load open_file path)) (a @ ''.'' @ b @ ''.'' @ j) = Some (unquote u) \<and>
    map_of (config_map (foldl yaml_step empty_state
      [Section n a, Scalar m k v, Section n b, Scalar m j u])) (b @ ''.'' @ j) = Some (unquote u)"
proof -
  have ne: "a \<noteq> []" "b \<noteq> []" using assms(1) by (auto simp: plain_key_def plain_def)
  have apart: "x @ ''.'' @ y \<noteq> b @ ''.'' @ j" if "x = a" for x y
  proof
    assume "x @ ''.'' @ y = b @ ''.'' @ j"
    then have "takeWhile (\<lambda>c. c \<noteq> CHR ''.'') (a @ ''.'' @ y) = takeWhile (\<lambda>c. c \<noteq> CHR ''.'') (b @ ''.'' @ j)"
      using that by simp
    moreover have "takeWhile (\<lambda>c. c \<noteq> CHR ''.'') (z @ CHR ''.'' # y) = z" if "CHR ''.'' \<notin> set z" for z y :: string
      using that by (induction z) auto
    ultimately show False using assms(3-5) by simp
  qed
  have l: "load open_file path = (True, config_map (foldl line_step empty_state
      [Section n a, Scalar m k v, Section n b, Scalar m j u]))"
    by (rule load_render [where open_file = open_file and path = path, OF assms(1,6)])
  have c: "config_map (foldl line_step empty_state [Section n a, Scalar m k v, Section n b, Scalar m j u]) =
      AList.update (a @ ''.'' @ b @ ''.'' @ j) (unquote u) [(a @ ''.'' @ k, unquote v)]"
    using assms(2) ne
    by (simp add: line_step_def close_sections_def empty_state_def path_key_def join_keys_def)
  have y: "config_map (foldl yaml_step empty_state [Section n a, Scalar m k v, Section n b, Scalar m j u]) =
      AList.update (b @ ''.'' @ j) (unquote u) [(a @ ''.'' @ k, unquote v)]"
    using assms(2) ne
    by (simp add: yaml_step_def empty_state_def path_key_def join_keys_def)
  show ?thesis
    unfolding l snd_conv c y using apart [OF refl, of k] apart [OF refl, of "b @ ''.'' @ j"]
    by (auto simp: update_conv')
qed

theorem sibling_section_nested_witness:
  "map_of (snd (load (\<lambda>_. Some (unlines (List.map render [Section 0 ''server'',
      Scalar 2 ''tcp_port'' ''9000'', Section 0 ''log'', Scalar 2 ''level'' ''debug'']))) ''f''))
     ''log.level'' = None"
proof -
  have "\<forall>l \<in> set [Section 0 ''server'', Scalar 2 ''tcp_port'' ''9000'', Section 0 ''log'',
      Scalar 2 ''level'' ''debug'']. well_written l \<and> CHR 0x0A \<notin> set (render l)"
    by (simp add: plain_key_def plain_def is_space_def eval_nat_numeral)
  from sibling_section_nested [OF this, of "\<lambda>_. Some (unlines (List.map render [Section 0 ''server'',
      Scalar 2 ''tcp_port'' ''9000'', Section 0 ''log'', Scalar 2 ''level'' ''debug'']))" "''f''"]
  show ?thesis by simp
qed

text \<open>
  A list written under a section, one item per line, is what \<open>GetStringList\<close>
  returns for the section, in the order of the file, each item without its quotes.
\<close>

theorem list_round_trip:
  assumes "plain_key k" "n \<le> m" "int (length vs) \<le> 2 ^ 31" "\<forall>v \<in> set vs. plain v"
    and "\<forall>s \<in> set (k # vs). CHR 0x0A \<notin> set s"
    and "open_file path =
      Some (unlines (List.map render (Section n k # List.map (Item m) vs)))"
  shows "get_string_list (snd (load open_file path)) k = List.map unquote vs"
proof -
  have "\<forall>l \<in> set (Section n k # List.map (Item m) vs).
      well_written l \<and> CHR 0x0A \<notin> set (render l)"
    using assms by auto
  then have "load open_file path = (True, config_map (foldl line_step empty_state
      (Section n k # List.map (Item m) vs)))"
    using assms(6) by (rule load_render)
  then show ?thesis
    using section_items_state [OF assms(1,2), of vs] get_string_list_items [OF assms(3)] by simp
qed

theorem list_round_trip_witness:
  "get_string_list (snd (load
     (\<lambda>_. Some (unlines (List.map render (Section 0 ''w'' # List.map (Item 2) [''b'', ''a'']))))
     ''f'')) ''w'' = [''b'', ''a'']"
proof -
  have 1: "plain_key ''w''" "\<forall>v \<in> set [''b'', ''a'']. plain v"
    by (simp_all add: plain_key_def plain_def is_space_def)
  show ?thesis
    using list_round_trip [OF 1(1), of 0 2 "[''b'', ''a'']" "\<lambda>_. Some (unlines (List.map render (Section 0 ''w'' # List.map (Item 2) [''b'', ''a''])))" "''f''"] 1
    by (simp add: unquote_def)
qed

text \<open>
  \<open>GetStringList\<close> does not depend on the iteration order of the unordered map,
  as long as no two keys of the list have the same index.
\<close>

theorem get_string_list_order:
  assumes "mset cm = mset cm'" "distinct (List.map fst (list_items cm key))"
  shows "get_string_list cm key = get_string_list cm' key"
proof -
  have "mset (list_items cm key) = mset (list_items cm' key)"
    using assms(1) by (simp add: list_items_def map_filter_def mset_filter)
  then have "sort_key fst (list_items cm key) = sort_key fst (list_items cm' key)"
    using assms(2) by (rule sort_key_distinct_eq)
  then show ?thesis by (simp add: get_string_list_def)
qed

theorem get_string_list_order_witness:
  "get_string_list [(''w.1'', ''b''), (''w.0'', ''a'')] ''w'' =
   get_string_list [(''w.0'', ''a''), (''w.1'', ''b'')] ''w''"
  by (rule get_string_list_order) (simp, code_simp)

lemma get_int_range:
  "- (2 ^ 31) \<le> default_val \<Longrightarrow> default_val \<le> 2 ^ 31 - 1 \<Longrightarrow>
     - (2 ^ 31) \<le> get_int cm key default_val \<and> get_int cm key default_val \<le> 2 ^ 31 - 1"
  using stoi_range by (auto simp: get_int_def split: option.splits sum.splits)

text \<open>
  \<open>GetInt\<close> never fails: it returns an integer that was written in decimal, the
  default for a missing or unreadable value, and always a value of type \<open>int\<close>.
\<close>

theorem get_int_total:
  assumes "- (2 ^ 31) \<le> default_val" "default_val \<le> 2 ^ 31 - 1"
  shows "- (2 ^ 31) \<le> get_int cm key default_val \<and> get_int cm key default_val \<le> 2 ^ 31 - 1 \<and>
     (map_of cm key = None \<longrightarrow> get_int cm key default_val = default_val) \<and>
     (\<forall>i. map_of cm key = Some (to_string_int i) \<longrightarrow>
        get_int cm key default_val =
          (if - (2 ^ 31) \<le> i \<and> i \<le> 2 ^ 31 - 1 then i else default_val))"
proof -
  have "stoi (to_string_int i) = Inl (StdException ''stoi'')"
    if "\<not> (- (2 ^ 31) \<le> i \<and> i \<le> 2 ^ 31 - 1)" for i
    using that by (auto simp: stoi_def to_string_int_def scan_dec scan_neg_dec)
  with assms stoi_to_string stoi_range show ?thesis
    by (auto simp: get_int_def split: option.splits sum.splits)
qed

theorem get_int_total_witness:
  "get_int [(''p'', to_string_int 6379)] ''p'' 1 = 6379"
  using get_int_total [of 1 "[(''p'', to_string_int 6379)]" "''p''"] by auto

text \<open>The two trimming routines of the program compute the same text.\<close>

theorem trims_agree: "cfg_trim s = su_trim s"
  by (simp add: cfg_trim_strip su_trim_strip)

text \<open>
  A section header at the indentation of an open section does not close it: the
  second of two sibling sections is stored below the first, and is not found under its
  own name.
\<close>

theorem sibling_section_nests:
  assumes "\<forall>s \<in> {a, b, k, l, v, w}. CHR 0x0A \<notin> set s"
    and "plain_key a" "plain_key b" "plain_key k" "plain_key l" "plain v" "plain w" "n < m"
    and "open_file path =
      Some (unlines (List.map render [Section n a, Scalar m k v, Section n b, Scalar m l w]))"
    and "dotted b l \<noteq> dotted a k"
  shows "get_string (snd (load open_file path)) (dotted a (dotted b l)) d = unquote w \<and>
     get_string (snd (load open_file path)) (dotted b l) d = d"
proof -
  let ?ls = "[Section n a, Scalar m k v, Section n b, Scalar m l w]"
  have ne: "a \<noteq> []" "b \<noteq> []" "k \<noteq> []" "l \<noteq> []"
    using assms(2-5) plain_keyD by blast+
  have "\<forall>l \<in> set ?ls. well_written l \<and> CHR 0x0A \<notin> set (render l)" using assms by auto
  then have "load open_file path = (True, config_map (foldl line_step empty_state ?ls))"
    using assms(9) by (rule load_render)
  then have "snd (load open_file path) = config_map (foldl line_step empty_state ?ls)" by simp
  also have "\<dots> = AList.update (dotted a (dotted b l)) (unquote w) [(dotted a k, unquote v)]"
    using ne assms(8) join_keys_snoc [of b "[a]"]
    by (simp add: line_step_def close_sections_def empty_state_def path_key_def)
  moreover have "dotted b l \<noteq> dotted a (dotted b l)"
    by (metis append_Cons append_eq_append_conv2 append_self_conv2 impossible_Cons length_append
        le_add2 length_Cons not_Cons_self2 append_assoc self_append_conv2)
  ultimately show ?thesis
    using assms(10) by (simp add: get_string_def update_conv')
qed

theorem sibling_section_nests_witness:
  "get_string (snd (load (\<lambda>_. Some (unlines (List.map render
     [Section 0 ''server'', Scalar 2 ''port'' ''9000'', Section 0 ''log'', Scalar 2 ''level'' ''debug''])))
     ''f'')) ''log.level'' ''info'' = ''info''"
proof -
  have "plain_key ''server''" "plain_key ''log''" "plain_key ''port''" "plain_key ''level''"
    "plain ''9000''" "plain ''debug''"
    by (simp_all add: plain_key_def plain_def is_space_def)
  then show ?thesis
    using sibling_section_nests [of "''server''" "''log''" "''port''" "''level''" "''9000''" "''debug''" 0 2
      "\<lambda>_. Some (unlines (List.map render [Section 0 ''server'', Scalar 2 ''port'' ''9000'',
         Section 0 ''log'', Scalar 2 ''level'' ''debug'']))" "''f''" "''info''"]
    by simp
qed

end
