(* ===== verification/Retry.thy ===== *)
theory Retry
  imports Prelude
begin

section \<open>The retry executor\<close>

text \<open>
  \<open>ExecuteWithRetry\<close> and \<open>ExecuteWithRetryVoid\<close> of \<open>common/src/utils/retry.h\<close>. The
  executed function is a computation on the state, the pause between two attempts is a
  function of the delay on the state, because other parties may act meanwhile. The two
  catch clauses differ in the text they log only. The locale \<open>retried\<close> is the contract
  of a body that keeps an invariant; every data access of the program interprets it.
\<close>

subsection \<open>The two executors\<close>

function retry_loop ::
  "('s \<Rightarrow> 's) \<Rightarrow> int \<Rightarrow> ('s, 'a) comp \<Rightarrow> int \<Rightarrow> ('s, 'a) comp" where
  "retry_loop pause max_retries func attempt s =
     (case func s of
        (Ret a, s') \<Rightarrow> (Ret a, s')
      | (Exc (StdException w), s') \<Rightarrow>
          (if attempt \<ge> max_retries then (Exc (StdException w), s')
           else retry_loop pause max_retries func (attempt + 1) (pause s'))
      | (Exc OtherException, s') \<Rightarrow>
          (if attempt \<ge> max_retries then (Exc OtherException, s')
           else retry_loop pause max_retries func (attempt + 1) (pause s'))
      | (Hang, s') \<Rightarrow> (Hang, s'))"
  by pat_completeness auto
termination
  by (relation "measure (\<lambda>(pause, max_retries, func, attempt, s). nat (max_retries - attempt))")
     auto

definition execute_with_retry ::
  "(int \<Rightarrow> 's \<Rightarrow> 's) \<Rightarrow> int \<Rightarrow> int \<Rightarrow> ('s, 'a) comp \<Rightarrow> ('s, 'a) comp" where
  "execute_with_retry sleep_for max_retries delay_ms func =
     retry_loop (sleep_for delay_ms) max_retries func 0"

function retry_void_loop ::
  "('s \<Rightarrow> 's) \<Rightarrow> int \<Rightarrow> ('s, unit) comp \<Rightarrow> int \<Rightarrow> ('s, unit) comp" where
  "retry_void_loop pause max_retries func attempt s =
     (case func s of
        (Ret _, s') \<Rightarrow> (Ret (), s')
      | (Exc (StdException w), s') \<Rightarrow>
          (if attempt \<ge> max_retries then (Exc (StdException w), s')
           else retry_void_loop pause max_retries func (attempt + 1) (pause s'))
      | (Exc OtherException, s') \<Rightarrow>
          (if attempt \<ge> max_retries then (Exc OtherException, s')
           else retry_void_loop pause max_retries func (attempt + 1) (pause s'))
      | (Hang, s') \<Rightarrow> (Hang, s'))"
  by pat_completeness auto
termination
  by (relation "measure (\<lambda>(pause, max_retries, func, attempt, s). nat (max_retries - attempt))")
     auto

definition execute_with_retry_void ::
  "(int \<Rightarrow> 's \<Rightarrow> 's) \<Rightarrow> int \<Rightarrow> int \<Rightarrow> ('s, unit) comp \<Rightarrow> ('s, unit) comp" where
  "execute_with_retry_void sleep_for max_retries delay_ms func =
     retry_void_loop (sleep_for delay_ms) max_retries func 0"

declare retry_loop.simps [simp del] retry_void_loop.simps [simp del]

lemma retry_loop_unfold:
  "retry_loop pause mx func k s =
     (case func s of
        (Exc e, s') \<Rightarrow> if k \<ge> mx then (Exc e, s') else retry_loop pause mx func (k + 1) (pause s')
      | r \<Rightarrow> r)"
  by (subst retry_loop.simps) (auto split: outcome.split prod.split exn.split)

lemma retry_void_loop_eq: "retry_void_loop pause mx func k s = retry_loop pause mx func k s"
proof (induction pause mx func k s rule: retry_loop.induct)
  case (1 pause mx func k s)
  then show ?case
    by (subst retry_void_loop.simps, subst retry_loop.simps)
       (auto split: outcome.split prod.split exn.split)
qed

lemma execute_with_retry_void_eq: "execute_with_retry_void = execute_with_retry"
  by (simp add: execute_with_retry_void_def execute_with_retry_def retry_void_loop_eq fun_eq_iff)

subsection \<open>What a run of attempts is\<close>

text \<open>
  \<open>failing func pause n s t\<close>: from \<open>s\<close>, \<open>n\<close> attempts in a row throw, each followed by
  the pause, and the state is then \<open>t\<close>.
\<close>

fun failing :: "('s, 'a) comp \<Rightarrow> ('s \<Rightarrow> 's) \<Rightarrow> nat \<Rightarrow> 's \<Rightarrow> 's \<Rightarrow> bool" where
  "failing func pause 0 s t \<longleftrightarrow> t = s"
| "failing func pause (Suc n) s t \<longleftrightarrow>
     (case func s of (Exc e, s') \<Rightarrow> failing func pause n (pause s') t | _ \<Rightarrow> False)"

lemma failing_keeps:
  "keeps I func \<Longrightarrow> (\<And>s. I s \<Longrightarrow> I (pause s)) \<Longrightarrow> I s \<Longrightarrow> failing func pause n s t \<Longrightarrow> I t"
  by (induction n arbitrary: s) (auto split: prod.splits outcome.splits dest: keepsD)

lemma retry_loop_result:
  "retry_loop pause mx func k s = (r, t) \<longleftrightarrow>
     (\<exists>n u. n \<le> nat (mx - k) \<and> failing func pause n s u \<and> func u = (r, t) \<and>
        ((\<exists>e. r = Exc e) \<longrightarrow> n = nat (mx - k)))"
proof (induction pause mx func k s rule: retry_loop.induct)
  case (1 pause mx func k s)
  obtain q s' where f: "func s = (q, s')" by fastforce
  show ?case
  proof (cases "(\<exists>e. q = Exc e) \<and> k < mx")
    case False
    then have "retry_loop pause mx func k s = (q, s')"
      using f by (subst retry_loop_unfold) (auto split: outcome.split)
    moreover have "n = 0" if "failing func pause n s u" "n \<le> nat (mx - k)" for n u
      using that f False by (cases n) (auto split: outcome.splits)
    ultimately show ?thesis
      using f False by (fastforce intro!: exI [of _ "0::nat"])
  next
    case True
    then obtain e where q: "q = Exc e" by blast
    have IH: "retry_loop pause mx func (k + 1) (pause s') = (r, t) \<longleftrightarrow>
        (\<exists>n u. n \<le> nat (mx - (k + 1)) \<and> failing func pause n (pause s') u \<and> func u = (r, t) \<and>
           ((\<exists>e. r = Exc e) \<longrightarrow> n = nat (mx - (k + 1))))"
      using 1 f q True by (cases e) auto
    have "retry_loop pause mx func k s = retry_loop pause mx func (k + 1) (pause s')"
      using f q True by (subst retry_loop_unfold) simp
    moreover have "k < mx" using True by blast
    then have eq: "nat (mx - k) = Suc (nat (mx - (k + 1)))" by linarith
    have "(\<exists>n u. n \<le> nat (mx - k) \<and> failing func pause n s u \<and> func u = (r, t) \<and>
            ((\<exists>e. r = Exc e) \<longrightarrow> n = nat (mx - k))) \<longleftrightarrow>
          (\<exists>n u. n \<le> nat (mx - (k + 1)) \<and> failing func pause n (pause s') u \<and> func u = (r, t) \<and>
           ((\<exists>e. r = Exc e) \<longrightarrow> n = nat (mx - (k + 1))))" (is "?L \<longleftrightarrow> ?R")
    proof
      assume ?L
      then obtain n u where n: "n \<le> nat (mx - k)" "failing func pause n s u" "func u = (r, t)"
        "(\<exists>e. r = Exc e) \<longrightarrow> n = nat (mx - k)" by blast
      then obtain n' where "n = Suc n'" using f q eq by (cases n) auto
      with n f q eq show ?R by auto
    next
      assume ?R
      then obtain n u where "n \<le> nat (mx - (k + 1))" "failing func pause n (pause s') u"
        "func u = (r, t)" "(\<exists>e. r = Exc e) \<longrightarrow> n = nat (mx - (k + 1))" by blast
      then show ?L using f q eq by (intro exI [of _ "Suc n"] exI [of _ u]) auto
    qed
    ultimately show ?thesis using IH by simp
  qed
qed

lemma execute_with_retry_Ret_first:
  "func s = (Ret a, t) \<Longrightarrow> execute_with_retry slp mx d func s = (Ret a, t)"
  by (simp add: execute_with_retry_def retry_loop_unfold [of _ _ _ _ s])

subsection \<open>The contract of a retried body\<close>

text \<open>
  A body and a pause that keep a predicate on the state: the executor keeps it, whatever
  the number of attempts, and so does a \<open>try ... catch (...)\<close> around it.
\<close>

locale retried =
  fixes body :: "('s, 'a) comp"
    and sleep_for :: "int \<Rightarrow> 's \<Rightarrow> 's"
    and inv :: "'s \<Rightarrow> bool"
  assumes body_keeps: "keeps inv body"
    and sleep_keeps: "inv s \<Longrightarrow> inv (sleep_for d s)"
begin

lemma retry_keeps: "keeps inv (execute_with_retry sleep_for mx d body)"
proof (rule keepsI)
  fix s r t
  assume s: "inv s" "execute_with_retry sleep_for mx d body s = (r, t)" "r \<noteq> Hang"
  then obtain n u where nu: "failing body (sleep_for d) n s u" "body u = (r, t)"
    by (auto simp: execute_with_retry_def retry_loop_result)
  have "inv u" by (rule failing_keeps [OF body_keeps _ s(1) nu(1)]) (rule sleep_keeps)
  then show "inv t" using nu(2) s(3) by (rule keepsD [OF body_keeps])
qed

lemma retry_caught_keeps:
  "keeps inv h \<Longrightarrow> keeps inv (catch_all (execute_with_retry sleep_for mx d body) h)"
  by (intro keeps_catch_all retry_keeps)

end

subsection \<open>Counting attempts\<close>

text \<open>A body with a counter of its calls, on a state with the counter beside it.\<close>

definition counted :: "('s, 'a) comp \<Rightarrow> ('s \<times> nat, 'a) comp" where
  "counted m = (\<lambda>(s, n). case m s of (r, s') \<Rightarrow> (r, (s', Suc n)))"

definition lift_sleep :: "(int \<Rightarrow> 's \<Rightarrow> 's) \<Rightarrow> int \<Rightarrow> 's \<times> nat \<Rightarrow> 's \<times> nat" where
  "lift_sleep slp d = (\<lambda>(s, n). (slp d s, n))"

lemma failing_counted:
  "failing (counted func) (lift_sleep slp d) n (s, c) (t, c') \<longleftrightarrow>
     failing func (slp d) n s t \<and> c' = c + n"
  by (induction n arbitrary: s c)
     (auto simp: counted_def lift_sleep_def split: prod.splits outcome.splits)

subsection \<open>Properties\<close>

text \<open>
  C22. \<open>ExecuteWithRetry\<close> returns the result of the first attempt that does not throw,
  if it is among the first \<open>max_retries + 1\<close> (one if \<open>max_retries\<close> is negative);
  otherwise it throws what the last of these attempts threw. The attempts run one after
  the other, each on the state the one before and the pause left.
\<close>

theorem execute_with_retry_result:
  "execute_with_retry sleep_for max_retries delay_ms func s = (r, t) \<longleftrightarrow>
     (\<exists>n u. n \<le> nat max_retries \<and> failing func (sleep_for delay_ms) n s u \<and> func u = (r, t) \<and>
        ((\<exists>e. r = Exc e) \<longrightarrow> n = nat max_retries))"
  by (simp add: execute_with_retry_def retry_loop_result)

theorem execute_with_retry_result_witness:
  "execute_with_retry (\<lambda>d s. s) 1 500
     (\<lambda>s. if s = (0::nat) then (Exc OtherException, 1) else (Ret ''ok'', s)) 0 = (Ret ''ok'', 1)"
proof -
  let ?f = "\<lambda>s. if s = (0::nat) then (Exc OtherException, 1) else (Ret ''ok'', s)"
  have "\<exists>n u. n \<le> nat 1 \<and> failing ?f (\<lambda>s. s) n 0 u \<and> ?f u = (Ret ''ok'', 1) \<and>
      ((\<exists>e. Ret ''ok'' = Exc e) \<longrightarrow> n = nat 1)"
    by (intro exI [of _ "1::nat"] exI [of _ "1::nat"]) simp
  then show ?thesis
    using execute_with_retry_result [of "\<lambda>d s. s" 1 500 ?f 0 "Ret ''ok''" 1] by simp
qed

text \<open>
  The function is called at least once and at most \<open>max_retries + 1\<close> times, and the
  counter changes nothing else.
\<close>

theorem execute_with_retry_attempts:
  assumes "execute_with_retry (lift_sleep sleep_for) max_retries delay_ms (counted func) (s, 0) =
             (r, (t, calls))"
  shows "1 \<le> calls \<and> calls \<le> nat max_retries + 1 \<and>
         execute_with_retry sleep_for max_retries delay_ms func s = (r, t)"
proof -
  obtain n u c where n: "n \<le> nat max_retries"
      "failing (counted func) (lift_sleep sleep_for delay_ms) n (s, 0) (u, c)"
      "counted func (u, c) = (r, (t, calls))" "(\<exists>e. r = Exc e) \<longrightarrow> n = nat max_retries"
    using assms by (auto simp: execute_with_retry_def retry_loop_result)
  then have "failing func (sleep_for delay_ms) n s u" "c = n"
    by (auto simp: failing_counted)
  moreover have "func u = (r, t)" "calls = Suc c"
    using n(3) by (auto simp: counted_def split: prod.splits)
  ultimately show ?thesis
    using n by (auto simp: execute_with_retry_def retry_loop_result)
qed

theorem execute_with_retry_attempts_witness:
  "snd (snd (execute_with_retry (lift_sleep (\<lambda>d s. s)) 3 500
     (counted (throw OtherException :: (nat, string) comp)) (7, 0))) \<le> 4"
proof -
  obtain r t c where c: "execute_with_retry (lift_sleep (\<lambda>d s. s)) 3 500
     (counted (throw OtherException :: (nat, string) comp)) (7, 0) = (r, (t, c))"
    by (metis prod.exhaust)
  from execute_with_retry_attempts [OF c] show ?thesis by (simp add: c)
qed

text \<open>The executor for functions without a result does the same.\<close>

theorem execute_with_retry_void_same:
  "execute_with_retry_void sleep_for max_retries delay_ms func =
   execute_with_retry sleep_for max_retries delay_ms func"
  by (simp add: execute_with_retry_void_eq)

end
