(* ===== verification/Mysql_Pool.thy ===== *)
theory Mysql_Pool
  imports Prelude "HOL-Library.Multiset"
begin

section \<open>The MySQL connection pool\<close>

text \<open>
  \<open>MysqlConnectionPool\<close> and \<open>MysqlConnectionGuard\<close> of
  \<open>common/src/db/mysql_pool.{h,cpp}\<close>, as one thread sees them: a call that would wait
  for ever on the condition variable is \<open>Hang\<close>. The driver is a parameter. The state
  of a service is \<open>app\<close>: its pool and the world outside the process. The locale
  \<open>connection_pool\<close> is what the guard relies on. Theory \<open>Pool_Threads\<close> has the
  pool under concurrent threads.
\<close>

subsection \<open>State\<close>

type_synonym conn = nat

record mysql_pool =
  pool_host :: string
  pool_port :: int
  pool_user :: string
  pool_password :: string
  pool_database :: string
  pool_size :: int
  idle :: "conn list"
  initialized :: bool
  is_shutdown :: bool

definition new_pool :: mysql_pool where
  "new_pool = \<lparr>pool_host = [], pool_port = 3306, pool_user = [], pool_password = [],
     pool_database = [], pool_size = 10, idle = [], initialized = False, is_shutdown = False\<rparr>"

record 'w app =
  pool :: mysql_pool
  world :: 'w

definition on_world :: "('w, 'a) comp \<Rightarrow> ('w app, 'a) comp" where
  "on_world m s = (case m (world s) of (r, w) \<Rightarrow> (r, s\<lparr>world := w\<rparr>))"

definition on_pool :: "(mysql_pool, 'a) comp \<Rightarrow> ('w app, 'a) comp" where
  "on_pool m s = (case m (pool s) of (r, p) \<Rightarrow> (r, s\<lparr>pool := p\<rparr>))"

text \<open>
  The driver: \<open>get_mysql_driver_instance\<close>, \<open>connect(url, user, password)\<close> and
  \<open>setSchema\<close> on a connection.
\<close>

record 'w mysql_driver =
  driver_instance :: "('w, unit) comp"
  driver_connect :: "string \<Rightarrow> string \<Rightarrow> string \<Rightarrow> ('w, conn) comp"
  set_schema :: "conn \<Rightarrow> string \<Rightarrow> ('w, unit) comp"

subsection \<open>Operations\<close>

definition push_conn :: "conn \<Rightarrow> (mysql_pool, unit) comp" where
  "push_conn c p = (Ret (), p\<lparr>idle := idle p @ [c]\<rparr>)"

fun open_conns :: "'w mysql_driver \<Rightarrow> mysql_pool \<Rightarrow> nat \<Rightarrow> ('w app, unit) comp" where
  "open_conns drv p 0 = ret ()"
| "open_conns drv p (Suc n) =
     bind_comp
       (on_world (driver_connect drv (''tcp://'' @ pool_host p @ '':'' @ to_string_int (pool_port p))
          (pool_user p) (pool_password p)))
       (\<lambda>c. bind_comp (on_world (set_schema drv c (pool_database p)))
          (\<lambda>_. bind_comp (on_pool (push_conn c)) (\<lambda>_. open_conns drv p n)))"

definition pool_initialize ::
  "'w mysql_driver \<Rightarrow> string \<Rightarrow> int \<Rightarrow> string \<Rightarrow> string \<Rightarrow> string \<Rightarrow> int \<Rightarrow> ('w app, bool) comp" where
  "pool_initialize drv host port user password database n s =
     (if initialized (pool s) then (Ret True, s)
      else
        (let p = (pool s)\<lparr>initialized := True, pool_host := host, pool_port := port,
                   pool_user := user, pool_password := password, pool_database := database,
                   pool_size := (if n > 0 then n else 10)\<rparr>
         in catch_std
              (bind_comp (on_world (driver_instance drv))
                 (\<lambda>_. bind_comp (open_conns drv p (nat (pool_size p))) (\<lambda>_. ret True)))
              (\<lambda>_ s'. (Ret False, s'\<lparr>pool := (pool s')\<lparr>idle := [], initialized := False\<rparr>\<rparr>))
              (s\<lparr>pool := p\<rparr>)))"

text \<open>
  \<open>AcquireConnection\<close>: the wait ends when the queue is not empty or the pool is shut
  down. \<open>ReleaseConnection\<close> of a null pointer does nothing, and after a shutdown the
  connection is dropped.
\<close>

definition acquire_connection :: "(mysql_pool, conn option) comp" where
  "acquire_connection p =
     (if idle p = [] \<and> \<not> is_shutdown p then (Hang, p)
      else if is_shutdown p then (Ret None, p)
      else (Ret (Some (hd (idle p))), p\<lparr>idle := tl (idle p)\<rparr>))"

definition release_connection :: "conn option \<Rightarrow> (mysql_pool, unit) comp" where
  "release_connection c p =
     (case c of
        None \<Rightarrow> (Ret (), p)
      | Some c \<Rightarrow>
          (if is_shutdown p then (Ret (), p) else (Ret (), p\<lparr>idle := idle p @ [c]\<rparr>)))"

definition pool_shutdown :: "(mysql_pool, unit) comp" where
  "pool_shutdown p =
     (if is_shutdown p then (Ret (), p) else (Ret (), p\<lparr>is_shutdown := True, idle := []\<rparr>))"

text \<open>
  A block with a \<open>MysqlConnectionGuard\<close>: the constructor acquires, the block throws when
  it got no connection, the destructor releases when the block is left, by a return or by
  an exception.
\<close>

definition guarded :: "(conn \<Rightarrow> ('w, 'a) comp) \<Rightarrow> ('w app, 'a) comp" where
  "guarded body =
     bind_comp (on_pool acquire_connection)
       (\<lambda>c. case c of
          None \<Rightarrow> throw (StdException ''Failed to get DB connection'')
        | Some conn \<Rightarrow>
            (\<lambda>s. case on_world (body conn) s of
                   (Ret a, s') \<Rightarrow> (Ret a, snd (on_pool (release_connection (Some conn)) s'))
                 | (Exc e, s') \<Rightarrow> (Exc e, snd (on_pool (release_connection (Some conn)) s'))
                 | (Hang, s') \<Rightarrow> (Hang, s')))"

subsection \<open>The contract of a pool\<close>

text \<open>
  What a client relies on: acquiring takes a connection out of the pool or gives none and
  changes nothing; releasing puts the connection back unless the pool is closed; neither
  throws or closes the pool.
\<close>

locale connection_pool =
  fixes acquire :: "('p, conn option) comp"
    and release :: "conn option \<Rightarrow> ('p, unit) comp"
    and conns :: "'p \<Rightarrow> conn multiset"
    and closed :: "'p \<Rightarrow> bool"
  assumes acquire_Some:
      "acquire p = (Ret (Some c), p') \<Longrightarrow>
         conns p = add_mset c (conns p') \<and> \<not> closed p \<and> \<not> closed p'"
    and acquire_None: "acquire p = (Ret None, p') \<Longrightarrow> p' = p \<and> closed p"
    and acquire_no_throw: "fst (acquire p) \<noteq> Exc e"
    and release_Some:
      "\<not> closed p \<Longrightarrow> release (Some c) p = (r, p') \<Longrightarrow>
         conns p' = add_mset c (conns p) \<and> \<not> closed p'"
begin

lemma acquire_release_balanced:
  assumes "acquire p = (Ret (Some c), p')" "release (Some c) p' = (r, p'')"
  shows "conns p'' = conns p \<and> \<not> closed p''"
proof -
  have "conns p = add_mset c (conns p')" "\<not> closed p'" using acquire_Some [OF assms(1)] by auto
  then show ?thesis using release_Some [of p' c r p''] assms(2) by simp
qed

end

interpretation mysql_pool:
  connection_pool acquire_connection release_connection "\<lambda>p. mset (idle p)" is_shutdown
proof (unfold_locales, goal_cases)
  case (1 p c p')
  then show ?case
    by (cases "idle p") (auto simp: acquire_connection_def split: if_splits)
qed (auto simp: acquire_connection_def release_connection_def split: if_splits)

subsection \<open>Guarded blocks leak nothing\<close>

text \<open>
  \<open>holds_conns M s\<close>: the pool of the service is open and holds exactly the connections \<open>M\<close>.
\<close>

definition holds_conns :: "conn multiset \<Rightarrow> 'w app \<Rightarrow> bool" where
  "holds_conns M s \<longleftrightarrow> \<not> is_shutdown (pool s) \<and> mset (idle (pool s)) = M"

lemma keeps_on_world: "keeps (holds_conns M) (on_world m)"
  by (auto simp: keeps_def on_world_def holds_conns_def split: prod.splits)

lemma pool_on_world [simp]: "pool (snd (on_world m s)) = pool s"
  by (simp add: on_world_def split: prod.split)

lemma acquire_shutdown_same:
  "acquire_connection p = (r, p') \<Longrightarrow> is_shutdown p' = is_shutdown p"
  by (auto simp: acquire_connection_def split: if_splits)

lemma guarded_cases:
  "guarded body s =
     (case acquire_connection (pool s) of
        (Ret (Some c), p) \<Rightarrow>
          (case body c (world s) of
             (Hang, w) \<Rightarrow> (Hang, s\<lparr>pool := p, world := w\<rparr>)
           | (r, w) \<Rightarrow> (r, s\<lparr>pool := snd (release_connection (Some c) p), world := w\<rparr>))
      | (Ret None, p) \<Rightarrow> (Exc (StdException ''Failed to get DB connection''), s)
      | (Exc e, p) \<Rightarrow> (Exc e, s)
      | (Hang, p) \<Rightarrow> (Hang, s))"
  by (auto simp: guarded_def bind_comp_def on_pool_def on_world_def throw_def
      acquire_connection_def split: prod.split outcome.split)

lemma guarded_Some:
  assumes "guarded body s = (r, s')" "r \<noteq> Hang" "\<not> is_shutdown (pool s)"
  obtains c p w where "acquire_connection (pool s) = (Ret (Some c), p)"
    "body c (world s) = (r, w)"
    "s' = s\<lparr>pool := snd (release_connection (Some c) p), world := w\<rparr>"
proof -
  obtain q p where q: "acquire_connection (pool s) = (q, p)" by fastforce
  with assms obtain c where c: "q = Ret (Some c)"
    by (auto simp: guarded_cases acquire_connection_def split: if_splits)
  obtain r' w where "body c (world s) = (r', w)" by fastforce
  with assms(1,2) q c that show thesis
    by (auto simp: guarded_cases split: outcome.splits)
qed

lemma guarded_keeps: "keeps (holds_conns M) (guarded body)"
proof (rule keepsI)
  fix s r s'
  assume s: "holds_conns M s" "guarded body s = (r, s')" "r \<noteq> Hang"
  then have "\<not> is_shutdown (pool s)" by (simp add: holds_conns_def)
  then obtain c p w where c: "acquire_connection (pool s) = (Ret (Some c), p)"
    "s' = s\<lparr>pool := snd (release_connection (Some c) p), world := w\<rparr>"
    using guarded_Some [OF s(2,3)] by metis
  have "mset (idle (snd (release_connection (Some c) p))) = mset (idle (pool s))"
    using mysql_pool.acquire_release_balanced [OF c(1)] by (metis prod.collapse)
  moreover have "is_shutdown (snd (release_connection (Some c) p)) = is_shutdown (pool s)"
    using acquire_shutdown_same [OF c(1)] by (simp add: release_connection_def)
  ultimately show "holds_conns M s'" using s(1) c(2) by (simp add: holds_conns_def)
qed

text \<open>A block whose body succeeds succeeds, when there is an idle connection.\<close>

lemma guarded_run:
  assumes "idle (pool s) = c # cs" "\<not> is_shutdown (pool s)" "body c (world s) = (r, w)" "r \<noteq> Hang"
  shows "guarded body s = (r, s\<lparr>pool := (pool s)\<lparr>idle := cs @ [c]\<rparr>, world := w\<rparr>)"
  using assms
  by (cases r) (auto simp: guarded_cases acquire_connection_def release_connection_def)

subsection \<open>Initialisation\<close>

lemma open_conns_Ret:
  "open_conns drv p n s = (Ret u, s') \<Longrightarrow>
     (\<exists>cs. length cs = n \<and> pool s' = (pool s)\<lparr>idle := idle (pool s) @ cs\<rparr>)"
proof (induction n arbitrary: s)
  case 0
  then show ?case by (auto simp: ret_def intro!: exI [of _ "[]"])
next
  case (Suc n)
  then obtain c s1 s2 s3 where
    "on_world (driver_connect drv (''tcp://'' @ pool_host p @ '':'' @ to_string_int (pool_port p))
       (pool_user p) (pool_password p)) s = (Ret c, s1)"
    "on_world (set_schema drv c (pool_database p)) s1 = (Ret (), s2)"
    "on_pool (push_conn c) s2 = (Ret (), s3)" "open_conns drv p n s3 = (Ret u, s')"
    by (auto simp: bind_comp_Ret)
  moreover from this have "pool s3 = (pool s)\<lparr>idle := idle (pool s) @ [c]\<rparr>"
    by (auto simp: on_world_def on_pool_def push_conn_def split: prod.splits)
  ultimately obtain cs where "length cs = n"
      "pool s' = (pool s3)\<lparr>idle := idle (pool s3) @ cs\<rparr>"
    using Suc.IH by blast
  with \<open>pool s3 = _\<close> show ?case by (intro exI [of _ "c # cs"]) simp
qed

text \<open>
  When \<open>Initialize\<close> of a fresh pool returns true, the pool is open and holds as
  many connections as asked for (ten if the size is not positive); when it returns false
  the pool is empty and may be initialised again; it never throws a standard exception.
\<close>

theorem pool_initialize_result:
  assumes "pool s = new_pool"
    and "pool_initialize drv host port user password database n s = (r, s')"
  shows "(r = Ret True \<longrightarrow>
            length (idle (pool s')) = nat (if n > 0 then n else 10) \<and>
            initialized (pool s') \<and> \<not> is_shutdown (pool s')) \<and>
         (r = Ret False \<longrightarrow> idle (pool s') = [] \<and> \<not> initialized (pool s')) \<and>
         (\<forall>w. r \<noteq> Exc (StdException w))"
proof -
  let ?p = "new_pool\<lparr>initialized := True, pool_host := host, pool_port := port,
      pool_user := user, pool_password := password, pool_database := database,
      pool_size := (if n > 0 then n else 10)\<rparr>"
  let ?m = "bind_comp (on_world (driver_instance drv))
      (\<lambda>_. bind_comp (open_conns drv ?p (nat (pool_size ?p))) (\<lambda>_. ret True))"
  obtain q t where q: "?m (s\<lparr>pool := ?p\<rparr>) = (q, t)" by fastforce
  have run: "pool_initialize drv host port user password database n s =
      catch_std ?m (\<lambda>_ s'. (Ret False, s'\<lparr>pool := (pool s')\<lparr>idle := [], initialized := False\<rparr>\<rparr>))
        (s\<lparr>pool := ?p\<rparr>)"
    using assms(1) by (simp add: pool_initialize_def new_pool_def Let_def)
  have "b \<and> (\<exists>cs. length cs = nat (pool_size ?p) \<and> pool t = ?p\<lparr>idle := cs\<rparr>)" if "q = Ret b" for b
  proof -
    from q that obtain u s1 v where s1: "on_world (driver_instance drv) (s\<lparr>pool := ?p\<rparr>) = (Ret u, s1)"
        "open_conns drv ?p (nat (pool_size ?p)) s1 = (Ret v, t)" "b"
      by (auto simp: bind_comp_Ret ret_def)
    have "pool s1 = ?p" using s1(1) by (auto simp: on_world_def split: prod.splits)
    with open_conns_Ret [OF s1(2)] s1(3) show ?thesis by (auto simp: new_pool_def)
  qed
  with run q assms(2) show ?thesis
    by (cases q) (auto simp: catch_std_def new_pool_def split: exn.splits)
qed

theorem pool_initialize_result_witness:
  "length (idle (pool (snd (pool_initialize
     \<lparr>driver_instance = ret (), driver_connect = (\<lambda>u n p w. (Ret w, Suc w)),
      set_schema = (\<lambda>c d. ret ())\<rparr> ''h'' 3306 ''u'' ''p'' ''d'' 2
     \<lparr>pool = new_pool, world = 0\<rparr>)))) = 2"
proof -
  let ?drv = "\<lparr>driver_instance = ret (), driver_connect = (\<lambda>u n p w. (Ret w, Suc w)),
      set_schema = (\<lambda>c d. ret ())\<rparr>"
  obtain r s' where rs: "pool_initialize ?drv ''h'' 3306 ''u'' ''p'' ''d'' 2
      \<lparr>pool = new_pool, world = 0\<rparr> = (r, s')"
    by fastforce
  then have "r = Ret True"
    by (simp add: pool_initialize_def new_pool_def catch_std_def on_world_def on_pool_def
        push_conn_def ret_def bind_comp_def eval_nat_numeral)
  with pool_initialize_result [OF _ rs] show ?thesis by (simp add: rs)
qed

text \<open>
  A guarded block, when it ends, by returning or by throwing, has put its connection
  back: the pool holds the connections it held before.
\<close>

theorem guarded_no_leak:
  assumes "\<not> is_shutdown (pool s)" "guarded body s = (r, s')" "r \<noteq> Hang"
  shows "mset (idle (pool s')) = mset (idle (pool s)) \<and> \<not> is_shutdown (pool s')"
proof -
  obtain c p w where c: "acquire_connection (pool s) = (Ret (Some c), p)"
    "s' = s\<lparr>pool := snd (release_connection (Some c) p), world := w\<rparr>"
    using guarded_Some [OF assms(2,3,1)] by metis
  then show ?thesis
    using mysql_pool.acquire_release_balanced [OF c(1)] by (metis prod.collapse app.select_convs(1)
        app.update_convs(2) app.update_convs(1) app.surjective)
qed

theorem guarded_no_leak_witness:
  "mset (idle (pool (snd (guarded (\<lambda>c. throw OtherException :: (nat, nat) comp)
     \<lparr>pool = new_pool\<lparr>idle := [7, 8]\<rparr>, world = 0\<rparr>)))) = {#7, 8#}"
proof -
  let ?s = "\<lparr>pool = new_pool\<lparr>idle := [7, 8]\<rparr>, world = (0::nat)\<rparr>"
  let ?b = "\<lambda>c. throw OtherException :: (nat, nat) comp"
  have "guarded ?b ?s = (Exc OtherException, snd (guarded ?b ?s))"
    by (simp add: guarded_cases acquire_connection_def new_pool_def throw_def)
  from guarded_no_leak [OF _ this] show ?thesis by (simp add: new_pool_def)
qed

text \<open>Any use of the pool: what the acquisitions returned, and the pool left.\<close>

datatype pool_call = Acquire | Release "conn option" | Shutdown

fun pool_run :: "pool_call list \<Rightarrow> mysql_pool \<Rightarrow> (conn option) outcome list \<times> mysql_pool" where
  "pool_run [] p = ([], p)"
| "pool_run (Acquire # cs) p =
     (case acquire_connection p of (r, p') \<Rightarrow>
        (case pool_run cs p' of (rs, q) \<Rightarrow> (r # rs, q)))"
| "pool_run (Release c # cs) p = pool_run cs (snd (release_connection c p))"
| "pool_run (Shutdown # cs) p = pool_run cs (snd (pool_shutdown p))"

lemma closed_pool_run:
  "is_shutdown p \<Longrightarrow>
     pool_run cs p = (replicate (length (filter ((=) Acquire) cs)) (Ret None), p)"
  by (induction cs p rule: pool_run.induct)
     (auto simp: acquire_connection_def release_connection_def pool_shutdown_def
       split: option.splits)

text \<open>
  After \<open>Shutdown\<close> the pool gives out no connection and takes none back, however it is
  used: every acquisition returns at once with none, and nothing changes the pool.
\<close>

theorem after_shutdown_nothing:
  "pool_run cs (snd (pool_shutdown p)) =
     (replicate (length (filter ((=) Acquire) cs)) (Ret None), snd (pool_shutdown p))"
  by (rule closed_pool_run) (simp add: pool_shutdown_def)

end
