(* ===== verification/Pool_Threads.thy ===== *)
theory Pool_Threads
  imports Mysql_Pool
begin

section \<open>The pool under concurrent threads\<close>

text \<open>
  The operations of \<open>MysqlConnectionPool\<close> interleaved: one step per critical section of
  the mutex, per atomic access outside it and per wake-up. The critical sections are
  the operations of theory \<open>Mysql_Pool\<close>; waiting, \<open>notify_one\<close>, \<open>notify_all\<close> and
  spurious wake-ups of the condition variable move threads between the program counters.
  \<open>Shutdown\<close> sets its flag before it takes the mutex, so it is two steps; the flag is only
  read inside critical sections, so that no other atomic access needs a step of its own.
\<close>

subsection \<open>Threads and steps\<close>

text \<open>
  \<open>Ready\<close>: in \<open>AcquireConnection\<close>, about to take the mutex and test the predicate.
  \<open>Sleeping\<close>: blocked in \<open>cv_.wait\<close>. \<open>Draining\<close>: in \<open>Shutdown\<close>, the flag set.
\<close>

datatype pc = Outside | Ready | Sleeping | Holding conn | Draining

record threads =
  shared :: mysql_pool
  pcs :: "nat \<Rightarrow> pc"
  drained :: bool

definition wake_all :: "(nat \<Rightarrow> pc) \<Rightarrow> nat \<Rightarrow> pc" where
  "wake_all f = (\<lambda>i. if f i = Sleeping then Ready else f i)"

inductive thread_step :: "threads \<Rightarrow> threads \<Rightarrow> bool" where
  call_acquire:
    "pcs s i = Outside \<Longrightarrow> thread_step s (s\<lparr>pcs := (pcs s)(i := Ready)\<rparr>)"
| take_conn:
    "pcs s i = Ready \<Longrightarrow> acquire_connection (shared s) = (Ret (Some c), p) \<Longrightarrow>
       thread_step s (s\<lparr>shared := p, pcs := (pcs s)(i := Holding c)\<rparr>)"
| refused:
    "pcs s i = Ready \<Longrightarrow> acquire_connection (shared s) = (Ret None, p) \<Longrightarrow>
       thread_step s (s\<lparr>shared := p, pcs := (pcs s)(i := Outside)\<rparr>)"
| sleep:
    "pcs s i = Ready \<Longrightarrow> acquire_connection (shared s) = (Hang, p) \<Longrightarrow>
       thread_step s (s\<lparr>shared := p, pcs := (pcs s)(i := Sleeping)\<rparr>)"
| release_notify:
    "pcs s i = Holding c \<Longrightarrow> \<not> is_shutdown (shared s) \<Longrightarrow> pcs s j = Sleeping \<Longrightarrow>
       thread_step s (s\<lparr>shared := snd (release_connection (Some c) (shared s)),
                        pcs := (pcs s)(i := Outside, j := Ready)\<rparr>)"
| release_alone:
    "pcs s i = Holding c \<Longrightarrow> \<not> is_shutdown (shared s) \<Longrightarrow> \<forall>j. pcs s j \<noteq> Sleeping \<Longrightarrow>
       thread_step s (s\<lparr>shared := snd (release_connection (Some c) (shared s)),
                        pcs := (pcs s)(i := Outside)\<rparr>)"
| release_closed:
    "pcs s i = Holding c \<Longrightarrow> is_shutdown (shared s) \<Longrightarrow>
       thread_step s (s\<lparr>shared := snd (release_connection (Some c) (shared s)),
                        pcs := (pcs s)(i := Outside)\<rparr>)"
| spurious:
    "pcs s i = Sleeping \<Longrightarrow> thread_step s (s\<lparr>pcs := (pcs s)(i := Ready)\<rparr>)"
| shutdown_flag:
    "pcs s i = Outside \<Longrightarrow> \<not> is_shutdown (shared s) \<Longrightarrow>
       thread_step s (s\<lparr>shared := (shared s)\<lparr>is_shutdown := True\<rparr>,
                        pcs := (pcs s)(i := Draining)\<rparr>)"
| shutdown_drain:
    "pcs s i = Draining \<Longrightarrow>
       thread_step s (s\<lparr>shared := (shared s)\<lparr>idle := []\<rparr>,
                        pcs := (wake_all (pcs s))(i := Outside), drained := True\<rparr>)"

text \<open>The pool after a successful initialisation, no thread inside.\<close>

definition start :: "mysql_pool \<Rightarrow> threads" where
  "start p = \<lparr>shared = p, pcs = (\<lambda>_. Outside), drained = False\<rparr>"

inductive reachable :: "mysql_pool \<Rightarrow> threads \<Rightarrow> bool" for p where
  init: "reachable p (start p)"
| step: "reachable p s \<Longrightarrow> thread_step s t \<Longrightarrow> reachable p t"

inductive_cases thread_stepE: "thread_step s t"

lemmas pool_ops = acquire_connection_def release_connection_def

lemma acquire_SomeE:
  assumes "acquire_connection p = (Ret (Some c), q)"
  obtains cs where "idle p = c # cs" "q = p\<lparr>idle := cs\<rparr>" "\<not> is_shutdown p"
  using assms by (cases "idle p") (auto simp: acquire_connection_def split: if_splits)

lemma acquire_NoneD: "acquire_connection p = (Ret None, q) \<Longrightarrow> q = p \<and> is_shutdown p"
  by (auto simp: acquire_connection_def split: if_splits)

lemma acquire_HangD:
  "acquire_connection p = (Hang, q) \<Longrightarrow> q = p \<and> idle p = [] \<and> \<not> is_shutdown p"
  by (auto simp: acquire_connection_def split: if_splits)

lemma acquire_is_shutdown:
  "acquire_connection p = (r, q) \<Longrightarrow> is_shutdown q = is_shutdown p"
  by (auto simp: acquire_connection_def split: if_splits)

lemma release_is_shutdown [simp]:
  "is_shutdown (snd (release_connection c p)) = is_shutdown p"
  by (auto simp: release_connection_def split: option.split)

subsection \<open>Closing\<close>

text \<open>
  The flag is up from the first step of \<open>Shutdown\<close> on; once the second is done, the
  queue is empty and nobody sleeps, for good.
\<close>

definition closing :: "threads \<Rightarrow> bool" where
  "closing s \<longleftrightarrow>
     (\<forall>i. pcs s i = Draining \<longrightarrow> is_shutdown (shared s)) \<and>
     (drained s \<longrightarrow>
        is_shutdown (shared s) \<and> idle (shared s) = [] \<and> (\<forall>i. pcs s i \<noteq> Sleeping)) \<and>
     (is_shutdown (shared s) \<longrightarrow> \<not> drained s \<longrightarrow> (\<exists>i. pcs s i = Draining))"

lemma closing_start: "\<not> is_shutdown p \<Longrightarrow> closing (start p)"
  by (simp add: closing_def start_def)

lemma closing_frame:
  assumes "closing s" "is_shutdown q = is_shutdown (shared s)"
    and "is_shutdown (shared s) \<Longrightarrow> idle (shared s) = [] \<Longrightarrow> idle q = []"
    and "\<And>i. f i = Draining \<longleftrightarrow> pcs s i = Draining"
    and "\<And>i. f i = Sleeping \<Longrightarrow> pcs s i = Sleeping \<or> \<not> is_shutdown (shared s)"
  shows "closing (s\<lparr>shared := q, pcs := f\<rparr>)"
  using assms by (auto simp: closing_def)

lemma closing_step: "thread_step s t \<Longrightarrow> closing s \<Longrightarrow> closing t"
proof (induction rule: thread_step.induct)
  case (take_conn s i c p)
  show ?case
    by (rule closing_frame [OF take_conn(3)])
      (use take_conn in \<open>auto elim!: acquire_SomeE split: if_splits\<close>)
next
  case (refused s i p)
  show ?case
    by (rule closing_frame [OF refused(3)])
      (use refused in \<open>auto dest!: acquire_NoneD split: if_splits\<close>)
next
  case (sleep s i p)
  show ?case
    by (rule closing_frame [OF sleep(3)])
      (use sleep in \<open>auto dest!: acquire_HangD split: if_splits\<close>)
next
  case (release_notify s i c j)
  show ?case
    by (rule closing_frame [OF release_notify(4)])
      (use release_notify in \<open>auto split: if_splits\<close>)
next
  case (release_alone s i c)
  show ?case
    by (rule closing_frame [OF release_alone(4)])
      (use release_alone in \<open>auto split: if_splits\<close>)
next
  case (release_closed s i c)
  show ?case
    by (rule closing_frame [OF release_closed(3)])
      (use release_closed in \<open>auto simp: release_connection_def split: if_splits\<close>)
next
  case (call_acquire s i)
  then have "closing (s\<lparr>shared := shared s, pcs := (pcs s)(i := Ready)\<rparr>)"
    by (intro closing_frame) (auto split: if_splits)
  then show ?case by simp
next
  case (spurious s i)
  then have "closing (s\<lparr>shared := shared s, pcs := (pcs s)(i := Ready)\<rparr>)"
    by (intro closing_frame) (auto split: if_splits)
  then show ?case by simp
next
  case (shutdown_flag s i)
  then show ?case by (auto simp: closing_def)
next
  case (shutdown_drain s i)
  then show ?case by (auto simp: closing_def wake_all_def)
qed

subsection \<open>Ownership\<close>

text \<open>
  With \<open>C\<close> the connections the pool was opened with: no connection is idle twice, idle and
  held, or held by two threads, and until a shutdown none is lost.
\<close>

definition ownership :: "conn set \<Rightarrow> threads \<Rightarrow> bool" where
  "ownership C s \<longleftrightarrow>
     distinct (idle (shared s)) \<and> set (idle (shared s)) \<subseteq> C \<and>
     (\<forall>i c. pcs s i = Holding c \<longrightarrow> c \<in> C \<and> c \<notin> set (idle (shared s))) \<and>
     (\<forall>i j c. pcs s i = Holding c \<longrightarrow> pcs s j = Holding c \<longrightarrow> i = j) \<and>
     (\<not> is_shutdown (shared s) \<longrightarrow>
        (\<forall>c \<in> C. c \<in> set (idle (shared s)) \<or> (\<exists>i. pcs s i = Holding c)))"

lemma ownership_start:
  "distinct (idle p) \<Longrightarrow> ownership (set (idle p)) (start p)"
  by (simp add: ownership_def start_def)

lemma ownership_frame:
  assumes "ownership C s" "idle q = idle (shared s)"
    and "is_shutdown (shared s) \<Longrightarrow> is_shutdown q"
    and "\<And>i c. f i = Holding c \<longleftrightarrow> pcs s i = Holding c"
  shows "ownership C (s\<lparr>shared := q, pcs := f\<rparr>)"
  using assms by (auto simp: ownership_def)

lemma ownership_take:
  assumes own: "ownership C s" and i: "pcs s i = Ready"
    and acq: "acquire_connection (shared s) = (Ret (Some c), p)"
  shows "ownership C (s\<lparr>shared := p, pcs := (pcs s)(i := Holding c)\<rparr>)"
proof -
  obtain cs where cs: "idle (shared s) = c # cs" "p = (shared s)\<lparr>idle := cs\<rparr>"
    using acq by (rule acquire_SomeE)
  have d: "distinct (c # cs)" "set (c # cs) \<subseteq> C" using own cs by (auto simp: ownership_def)
  have held: "d \<in> C \<and> d \<notin> set (c # cs)" if "pcs s j = Holding d" for j d
    using own cs that by (auto simp: ownership_def)
  have keep: "d \<in> set cs \<or> (\<exists>j. ((pcs s)(i := Holding c)) j = Holding d)"
    if "\<not> is_shutdown (shared s)" "d \<in> C" for d
  proof -
    from own that cs consider "d = c" | "d \<in> set cs" | j where "pcs s j = Holding d"
      by (fastforce simp: ownership_def)
    then show ?thesis
    proof cases
      case (3 j)
      with i have "((pcs s)(i := Holding c)) j = Holding d" by auto
      then show ?thesis by blast
    qed auto
  qed
  have unique: "j = k" if "((pcs s)(i := Holding c)) j = Holding d"
      "((pcs s)(i := Holding c)) k = Holding d" for j k d
    using own held that by (fastforce simp: ownership_def split: if_splits)
  let ?f = "(pcs s)(i := Holding c)"
  have holds: "e \<in> C \<and> e \<notin> set cs" if "?f j = Holding e" for j e
    using d held [of j e] that by (auto split: if_splits)
  show ?thesis
    unfolding ownership_def
  proof (intro conjI allI impI)
    fix j e
    assume "pcs (s\<lparr>shared := p, pcs := ?f\<rparr>) j = Holding e"
    then have "?f j = Holding e" by simp
    then show "e \<in> C" "e \<notin> set (idle (shared (s\<lparr>shared := p, pcs := ?f\<rparr>)))"
      using holds cs(2) by simp_all
  next
    fix j k e
    assume "pcs (s\<lparr>shared := p, pcs := ?f\<rparr>) j = Holding e"
      "pcs (s\<lparr>shared := p, pcs := ?f\<rparr>) k = Holding e"
    then have "?f j = Holding e" "?f k = Holding e" by simp_all
    then show "j = k" by (rule unique)
  next
    assume "\<not> is_shutdown (shared (s\<lparr>shared := p, pcs := ?f\<rparr>))"
    with cs(2) have "\<not> is_shutdown (shared s)" by simp
    then show "\<forall>e\<in>C. e \<in> set (idle (shared (s\<lparr>shared := p, pcs := ?f\<rparr>))) \<or>
        (\<exists>j. pcs (s\<lparr>shared := p, pcs := ?f\<rparr>) j = Holding e)"
      using keep cs(2) by simp
  qed (use d cs(2) in simp_all)
qed

lemma ownership_release:
  assumes own: "ownership C s" and i: "pcs s i = Holding c"
    and f: "\<And>j d. f j = Holding d \<longleftrightarrow> pcs s j = Holding d \<and> j \<noteq> i"
  shows "ownership C (s\<lparr>shared := snd (release_connection (Some c) (shared s)), pcs := f\<rparr>)"
proof -
  have c: "c \<in> C" "c \<notin> set (idle (shared s))" using own i by (auto simp: ownership_def)
  have other: "d \<noteq> c" if "f j = Holding d" for j d
    using own i f that by (auto simp: ownership_def)
  have keep: "d = c \<or> d \<in> set (idle (shared s)) \<or> (\<exists>j. f j = Holding d)"
    if "\<not> is_shutdown (shared s)" "d \<in> C" for d
    using own that i f unfolding ownership_def by (metis pc.inject)
  show ?thesis
    using own c other keep f by (auto simp: ownership_def release_connection_def)
qed

lemma ownership_step:
  "thread_step s t \<Longrightarrow> closing s \<Longrightarrow> ownership C s \<Longrightarrow> ownership C t"
proof (induction rule: thread_step.induct)
  case (take_conn s i c p)
  then show ?case by (auto intro: ownership_take)
next
  case (refused s i p)
  then show ?case by (auto dest!: acquire_NoneD intro!: ownership_frame split: if_splits)
next
  case (sleep s i p)
  then show ?case by (auto dest!: acquire_HangD intro!: ownership_frame split: if_splits)
next
  case (release_notify s i c j)
  then show ?case by (intro ownership_release) auto
next
  case (release_alone s i c)
  then show ?case by (intro ownership_release) auto
next
  case (release_closed s i c)
  then show ?case by (intro ownership_release) auto
next
  case (call_acquire s i)
  then have "ownership C (s\<lparr>shared := shared s, pcs := (pcs s)(i := Ready)\<rparr>)"
    by (intro ownership_frame) auto
  then show ?case by simp
next
  case (spurious s i)
  then have "ownership C (s\<lparr>shared := shared s, pcs := (pcs s)(i := Ready)\<rparr>)"
    by (intro ownership_frame) auto
  then show ?case by simp
next
  case (shutdown_flag s i)
  then show ?case by (intro ownership_frame) auto
next
  case (shutdown_drain s i)
  then have "is_shutdown (shared s)" by (auto simp: closing_def)
  with shutdown_drain show ?case by (auto simp: ownership_def wake_all_def split: if_splits)
qed

subsection \<open>Wake-ups\<close>

text \<open>
  While a thread sleeps and the pool is open, every idle connection has an awake thread on
  its way to it: no notification is lost.
\<close>

definition ready :: "(nat \<Rightarrow> pc) \<Rightarrow> nat set" where
  "ready f = {i. f i = Ready}"

definition asleep :: "(nat \<Rightarrow> pc) \<Rightarrow> nat set" where
  "asleep f = {i. f i = Sleeping}"

definition awake_enough :: "threads \<Rightarrow> bool" where
  "awake_enough s \<longleftrightarrow>
     finite (ready (pcs s)) \<and> finite (asleep (pcs s)) \<and>
     (\<not> is_shutdown (shared s) \<longrightarrow> asleep (pcs s) \<noteq> {} \<longrightarrow>
        length (idle (shared s)) \<le> card (ready (pcs s)))"

lemma in_ready [simp]: "i \<in> ready f \<longleftrightarrow> f i = Ready"
  by (simp add: ready_def)

lemma in_asleep [simp]: "i \<in> asleep f \<longleftrightarrow> f i = Sleeping"
  by (simp add: asleep_def)

lemma ready_upd [simp]:
  "ready (f(i := x)) = (if x = Ready then insert i (ready f) else ready f - {i})"
  by (auto split: if_splits)

lemma asleep_upd [simp]:
  "asleep (f(i := x)) = (if x = Sleeping then insert i (asleep f) else asleep f - {i})"
  by (auto split: if_splits)

lemma ready_wake_all [simp]: "ready (wake_all f) = ready f \<union> asleep f"
  by (auto simp: wake_all_def split: if_splits)

lemma asleep_wake_all [simp]: "asleep (wake_all f) = {}"
  by (auto simp: wake_all_def split: if_splits)

lemma awake_start: "awake_enough (start p)"
  by (simp add: awake_enough_def start_def ready_def asleep_def)

lemma awake_step_take:
  assumes "awake_enough s" "pcs s i = Ready" "acquire_connection (shared s) = (Ret (Some c), p)"
  shows "awake_enough (s\<lparr>shared := p, pcs := (pcs s)(i := Holding c)\<rparr>)"
proof -
  obtain cs where cs: "idle (shared s) = c # cs" "p = (shared s)\<lparr>idle := cs\<rparr>"
    using assms(3) by (rule acquire_SomeE)
  then show ?thesis
    using assms(1,2) by (auto simp: awake_enough_def)
qed

lemma awake_step_notify:
  assumes "awake_enough s" "pcs s i = Holding c" "\<not> is_shutdown (shared s)"
    "pcs s j = Sleeping"
  shows "awake_enough (s\<lparr>shared := snd (release_connection (Some c) (shared s)),
                        pcs := (pcs s)(i := Outside, j := Ready)\<rparr>)"
proof -
  have "j \<in> asleep (pcs s)" using assms(4) by simp
  then have "length (idle (shared s)) \<le> card (ready (pcs s))"
    using assms(1,3) by (auto simp: awake_enough_def)
  moreover have "ready (pcs s) - {i} = ready (pcs s)" using assms(2) by auto
  ultimately show ?thesis
    using assms by (auto simp: awake_enough_def release_connection_def)
qed

lemma asleep_not: "f i \<noteq> Sleeping \<Longrightarrow> asleep f - {i} = asleep f"
  by auto

lemma awake_step: "thread_step s t \<Longrightarrow> awake_enough s \<Longrightarrow> awake_enough t"
proof (induction rule: thread_step.induct)
  case (take_conn s i c p)
  then show ?case by (intro awake_step_take)
next
  case (release_notify s i c j)
  then show ?case by (intro awake_step_notify)
next
  case (call_acquire s i)
  then show ?case by (auto simp: awake_enough_def card_insert_if asleep_not)
next
  case (refused s i p)
  then show ?case by (auto simp: awake_enough_def dest!: acquire_NoneD)
next
  case (sleep s i p)
  then show ?case by (auto simp: awake_enough_def dest!: acquire_HangD)
next
  case (release_alone s i c)
  then have "asleep (pcs s) = {}" by auto
  with release_alone show ?case by (simp add: awake_enough_def)
next
  case (release_closed s i c)
  then show ?case by (simp add: awake_enough_def)
next
  case (spurious s i)
  then show ?case by (auto simp: awake_enough_def card_insert_if)
next
  case (shutdown_flag s i)
  then show ?case by (simp add: awake_enough_def)
next
  case (shutdown_drain s i)
  then show ?case by (simp add: awake_enough_def)
qed

subsection \<open>What every interleaving keeps\<close>

lemma reachable_invariants:
  assumes "reachable p s" "distinct (idle p)" "\<not> is_shutdown p"
  shows "closing s \<and> ownership (set (idle p)) s \<and> awake_enough s"
  using assms
proof (induction rule: reachable.induct)
  case init
  then show ?case by (simp add: closing_start ownership_start awake_start)
next
  case (step s t)
  then show ?case using closing_step ownership_step awake_step by blast
qed

text \<open>
  C3. Mutual exclusion: however the threads interleave, no two of them hold the same
  connection, a held one is not in the queue, and until a shutdown every connection the
  pool was opened with is idle or held.
\<close>

theorem no_connection_shared:
  assumes "reachable p s" "distinct (idle p)" "\<not> is_shutdown p"
  shows "(\<forall>i j c. pcs s i = Holding c \<longrightarrow> pcs s j = Holding c \<longrightarrow> i = j) \<and>
         (\<forall>i c. pcs s i = Holding c \<longrightarrow> c \<in> set (idle p) \<and> c \<notin> set (idle (shared s))) \<and>
         distinct (idle (shared s)) \<and>
         (\<not> is_shutdown (shared s) \<longrightarrow>
            set (idle p) = set (idle (shared s)) \<union> {c. \<exists>i. pcs s i = Holding c})"
  using reachable_invariants [OF assms] unfolding ownership_def by blast

definition one_conn :: mysql_pool where
  "one_conn = new_pool\<lparr>idle := [0], initialized := True\<rparr>"

text \<open>Thread 0 holds the only connection, thread 1 waits for it.\<close>

definition one_waiting :: threads where
  "one_waiting =
     \<lparr>shared = one_conn\<lparr>idle := []\<rparr>,
      pcs = (\<lambda>_. Outside)(0 := Holding 0, 1 := Sleeping), drained = False\<rparr>"

lemma reachable_one_waiting: "reachable one_conn one_waiting"
proof -
  note st = reachable.step
  let ?s1 = "(start one_conn)\<lparr>pcs := (\<lambda>_. Outside)(0 := Ready)\<rparr>"
  let ?s2 = "?s1\<lparr>pcs := (\<lambda>_. Outside)(0 := Ready, 1 := Ready)\<rparr>"
  let ?s3 = "?s2\<lparr>shared := one_conn\<lparr>idle := []\<rparr>,
                 pcs := (\<lambda>_. Outside)(0 := Holding 0, 1 := Ready)\<rparr>"
  have "reachable one_conn (start one_conn)" by (rule reachable.init)
  moreover have "thread_step (start one_conn) ?s1"
    using call_acquire [of "start one_conn" 0] by (simp add: start_def)
  ultimately have "reachable one_conn ?s1" by (rule st)
  moreover have "thread_step ?s1 ?s2"
    using call_acquire [of ?s1 1] by simp
  ultimately have "reachable one_conn ?s2" by (rule st)
  moreover have "thread_step ?s2 ?s3"
    using take_conn [of ?s2 0 0 "one_conn\<lparr>idle := []\<rparr>"]
    by (simp add: start_def one_conn_def new_pool_def acquire_connection_def fun_upd_twist)
  ultimately have "reachable one_conn ?s3" by (rule st)
  moreover have "thread_step ?s3 one_waiting"
    using sleep [of ?s3 1 "one_conn\<lparr>idle := []\<rparr>"]
    by (simp add: start_def one_conn_def new_pool_def acquire_connection_def one_waiting_def)
  ultimately show ?thesis by (rule st)
qed

theorem no_connection_shared_witness:
  "set (idle one_conn) = set (idle (shared one_waiting)) \<union> {c. \<exists>i. pcs one_waiting i = Holding c}"
  using no_connection_shared [OF reachable_one_waiting]
  by (simp add: one_conn_def one_waiting_def)

text \<open>
  C4. No thread waits for ever unseen: while a thread sleeps in \<open>AcquireConnection\<close> of a
  pool opened with connections, some thread is awake inside the pool (about to retry, holding
  a connection it will release, or closing the pool), every idle connection has a thread
  on its way to it, and none sleeps once a shutdown has completed.
\<close>

theorem no_lost_wakeup:
  assumes "reachable p s" "distinct (idle p)" "\<not> is_shutdown p" "idle p \<noteq> []"
    and "pcs s i = Sleeping"
  shows "\<not> drained s \<and>
         (\<exists>j. pcs s j = Ready \<or> (\<exists>c. pcs s j = Holding c) \<or> pcs s j = Draining) \<and>
         (\<not> is_shutdown (shared s) \<longrightarrow>
            length (idle (shared s)) \<le> card {j. pcs s j = Ready})"
proof (intro conjI)
  from assms have inv: "closing s" "ownership (set (idle p)) s" "awake_enough s"
    using reachable_invariants by blast+
  show nd: "\<not> drained s" using inv(1) assms(5) by (auto simp: closing_def)
  have asl: "asleep (pcs s) \<noteq> {}" using assms(5) in_asleep by blast
  show le: "\<not> is_shutdown (shared s) \<longrightarrow>
      length (idle (shared s)) \<le> card {j. pcs s j = Ready}"
    using inv(3) asl by (simp add: awake_enough_def ready_def)
  show "\<exists>j. pcs s j = Ready \<or> (\<exists>c. pcs s j = Holding c) \<or> pcs s j = Draining"
  proof (cases "is_shutdown (shared s)")
    case True
    then show ?thesis using inv(1) nd by (auto simp: closing_def)
  next
    case False
    obtain c where "c \<in> set (idle p)" using assms(4) by (cases "idle p") auto
    then consider "c \<in> set (idle (shared s))" | j where "pcs s j = Holding c"
      using inv(2) False by (auto simp: ownership_def)
    then show ?thesis
    proof cases
      case 1
      then have "0 < length (idle (shared s))" by (cases "idle (shared s)") auto
      with le False have "0 < card {j. pcs s j = Ready}" by linarith
      then have "{j. pcs s j = Ready} \<noteq> {}" by (metis card.empty less_irrefl)
      then show ?thesis by blast
    qed blast
  qed
qed

theorem no_lost_wakeup_witness:
  "\<exists>j. pcs one_waiting j = Ready \<or> (\<exists>c. pcs one_waiting j = Holding c) \<or>
       pcs one_waiting j = Draining"
  using no_lost_wakeup [OF reachable_one_waiting, of 1]
  by (simp add: one_conn_def one_waiting_def)

end
