(* ===== verification/Sensitive_Filter.thy ===== *)
theory Sensitive_Filter
  imports Prelude "HOL-Library.AList"
begin

section \<open>The sensitive-word filter\<close>

text \<open>
  \<open>SensitiveFilter\<close> of \<open>logic/src/sensitive_filter.{h,cpp}\<close>: a byte trie, its
  construction, the test and the masking routine, with the loops of the code over
  indices. \<open>mask_words\<close> is the reference the masking loop is proved equal to. The locale
  \<open>word_filter\<close> is what the chat handlers rely on; it is interpreted on the trie.
\<close>

subsection \<open>The trie\<close>

text \<open>
  \<open>TrieNode\<close>: the unordered map of children is an association list read with
  \<open>map_of\<close>; \<open>new_node\<close> is a freshly allocated node.
\<close>

datatype trie_node = TrieNode (children: "(char \<times> trie_node) list") (is_end: bool)

definition new_node :: trie_node where
  "new_node = TrieNode [] False"

definition child :: "trie_node \<Rightarrow> char \<Rightarrow> trie_node option" where
  "child node c = map_of (children node) c"

fun add_word_at :: "string \<Rightarrow> trie_node \<Rightarrow> trie_node" where
  "add_word_at [] node = TrieNode (children node) True"
| "add_word_at (c # cs) node =
     (let next_node = (case child node c of None \<Rightarrow> new_node | Some n \<Rightarrow> n)
      in TrieNode (AList.update c (add_word_at cs next_node) (children node)) (is_end node))"

definition add_word :: "string \<Rightarrow> trie_node \<Rightarrow> trie_node" where
  "add_word word root = (if word = [] then root else add_word_at word root)"

definition init_words :: "string list \<Rightarrow> trie_node \<Rightarrow> trie_node" where
  "init_words words root = foldl (\<lambda>r w. add_word w r) root words"

text \<open>The filter the constructor and \<open>Init\<close> make of a word list.\<close>

definition filter_of :: "string list \<Rightarrow> trie_node" where
  "filter_of words = init_words words new_node"

subsection \<open>HasSensitiveWord\<close>

function has_from :: "string \<Rightarrow> trie_node \<Rightarrow> nat \<Rightarrow> bool" where
  "has_from str node j =
     (if j < length str
      then (case child node (str ! j) of
              None \<Rightarrow> False
            | Some n \<Rightarrow> (if is_end n then True else has_from str n (j + 1)))
      else False)"
  by pat_completeness auto
termination by (relation "measure (\<lambda>(str, node, j). length str - j)") auto

function has_loop :: "trie_node \<Rightarrow> string \<Rightarrow> nat \<Rightarrow> bool" where
  "has_loop root str i =
     (if i < length str then (if has_from str root i then True else has_loop root str (i + 1))
      else False)"
  by pat_completeness auto
termination by (relation "measure (\<lambda>(root, str, i). length str - i)") auto

definition has_sensitive_word :: "trie_node \<Rightarrow> string \<Rightarrow> bool" where
  "has_sensitive_word root str =
     (if str = [] \<or> children root = [] then False else has_loop root str 0)"

subsection \<open>Filter\<close>

text \<open>The inner loop: the index of the last byte of the match that starts at \<open>i\<close>.\<close>

function match_end :: "string \<Rightarrow> trie_node \<Rightarrow> nat \<Rightarrow> nat option" where
  "match_end str node j =
     (if j < length str
      then (case child node (str ! j) of
              None \<Rightarrow> None
            | Some n \<Rightarrow> (if is_end n then Some j else match_end str n (j + 1)))
      else None)"
  by pat_completeness auto
termination by (relation "measure (\<lambda>(str, node, j). length str - j)") auto

declare has_from.simps [simp del] has_loop.simps [simp del] match_end.simps [simp del]

lemma match_end_ge: "match_end str node j = Some k \<Longrightarrow> j \<le> k \<and> k < length str"
proof (induction str node j rule: match_end.induct)
  case (1 str node j)
  from "1.prems" show ?case
    by (subst (asm) match_end.simps)
       (auto split: if_splits option.splits dest: "1.IH")
qed

text \<open>\<open>for (k = i; k <= j; ++k) result[k] = '*'\<close>.\<close>

function star_range :: "nat \<Rightarrow> nat \<Rightarrow> string \<Rightarrow> string" where
  "star_range k j result =
     (if k \<le> j then star_range (k + 1) j (result[k := CHR ''*'']) else result)"
  by pat_completeness auto
termination by (relation "measure (\<lambda>(k, j, result). Suc j - k)") auto

function filter_loop :: "trie_node \<Rightarrow> string \<Rightarrow> nat \<Rightarrow> string \<Rightarrow> string" where
  "filter_loop root str i result =
     (if i < length str
      then (case match_end str root i of
              Some j \<Rightarrow> filter_loop root str (j + 1) (star_range i j result)
            | None \<Rightarrow> filter_loop root str (i + 1) result)
      else result)"
  by pat_completeness auto
termination
  by (relation "measure (\<lambda>(root, str, i, result). length str - i)")
     (auto dest: match_end_ge)

declare star_range.simps [simp del] filter_loop.simps [simp del]

definition filter_text :: "trie_node \<Rightarrow> string \<Rightarrow> string" where
  "filter_text root str =
     (if str = [] \<or> children root = [] then str else filter_loop root str 0 str)"

subsection \<open>What a trie holds\<close>

fun accepts :: "trie_node \<Rightarrow> string \<Rightarrow> bool" where
  "accepts node [] = is_end node"
| "accepts node (c # cs) = (case child node c of None \<Rightarrow> False | Some n \<Rightarrow> accepts n cs)"

lemma accepts_new_node [simp]: "\<not> accepts new_node w"
  by (cases w) (auto simp: new_node_def child_def)

lemma child_TrieNode_update [simp]:
  "child (TrieNode (AList.update c n (children t)) e) d = (if d = c then Some n else child t d)"
  by (simp add: child_def update_conv')

lemma accepts_add_word_at: "accepts (add_word_at w t) v \<longleftrightarrow> v = w \<or> accepts t v"
proof (induction w t arbitrary: v rule: add_word_at.induct)
  case (1 node)
  then show ?case by (cases v) (auto simp: child_def split: option.splits)
next
  case (2 c cs node)
  then show ?case by (cases v) (auto simp: Let_def split: option.splits)
qed

lemma accepts_add_word: "accepts (add_word w t) v \<longleftrightarrow> v = w \<and> w \<noteq> [] \<or> accepts t v"
  by (auto simp: add_word_def accepts_add_word_at)

lemma accepts_init_words:
  "accepts (init_words ws t) v \<longleftrightarrow> v \<in> set ws \<and> v \<noteq> [] \<or> accepts t v"
  by (induction ws arbitrary: t) (auto simp: init_words_def accepts_add_word)

lemma accepts_filter_of [simp]: "accepts (filter_of ws) v \<longleftrightarrow> v \<in> set ws \<and> v \<noteq> []"
  by (simp add: filter_of_def accepts_init_words)

subsection \<open>Matching from a position\<close>

text \<open>\<open>match_end\<close> over the rest of the text: how many bytes after the first.\<close>

fun match_rest :: "trie_node \<Rightarrow> string \<Rightarrow> nat option" where
  "match_rest node [] = None"
| "match_rest node (c # cs) =
     (case child node c of
        None \<Rightarrow> None
      | Some n \<Rightarrow> (if is_end n then Some 0 else map_option Suc (match_rest n cs)))"

lemma match_end_rest: "match_end str node j = map_option ((+) j) (match_rest node (drop j str))"
proof (induction str node j rule: match_end.induct)
  case (1 str node j)
  show ?case
  proof (cases "j < length str")
    case True
    then have "drop j str = str ! j # drop (Suc j) str" by (simp add: Cons_nth_drop_Suc)
    with True 1 show ?thesis
      by (subst match_end.simps)
         (auto simp: option.map_comp comp_def split: option.splits)
  next
    case False
    then show ?thesis by (subst match_end.simps) simp
  qed
qed

lemma has_from_match_end: "has_from str node j \<longleftrightarrow> match_end str node j \<noteq> None"
proof (induction str node j rule: has_from.induct)
  case (1 str node j)
  then show ?case
    by (subst has_from.simps, subst match_end.simps) (auto split: option.splits)
qed

lemma match_rest_Some:
  "match_rest node s = Some k \<longleftrightarrow>
     k < length s \<and> accepts node (take (Suc k) s) \<and> (\<forall>i < k. \<not> accepts node (take (Suc i) s))"
proof (induction s arbitrary: node k)
  case Nil
  then show ?case by simp
next
  case (Cons c cs)
  show ?case
  proof (cases "child node c")
    case None
    then show ?thesis by simp
  next
    case (Some n)
    show ?thesis
    proof (cases "is_end n")
      case True
      have "\<not> (\<forall>i < k. \<not> accepts node (take (Suc i) (c # cs)))" if "k \<noteq> 0"
        using that Some True by (auto intro!: exI [of _ 0])
      with Some True show ?thesis by auto
    next
      case False
      show ?thesis
      proof (cases k)
        case 0
        with Some False show ?thesis by auto
      next
        case (Suc k')
        have "(\<forall>i < k. \<not> accepts node (take (Suc i) (c # cs))) \<longleftrightarrow>
              (\<forall>i < k'. \<not> accepts n (take (Suc i) cs))"
          using Some False Suc by (auto simp: less_Suc_eq_0_disj)
        with Some False Suc Cons.IH [of n k'] show ?thesis by auto
      qed
    qed
  qed
qed

lemma match_rest_None:
  "match_rest node s = None \<longleftrightarrow> (\<forall>i < length s. \<not> accepts node (take (Suc i) s))"
proof (induction s arbitrary: node)
  case Nil
  then show ?case by simp
next
  case (Cons c cs)
  show ?case
  proof (cases "child node c")
    case None
    then show ?thesis by simp
  next
    case (Some n)
    have "(\<forall>i < Suc (length cs). \<not> accepts n (take i cs)) \<longleftrightarrow>
          \<not> is_end n \<and> (\<forall>i < length cs. \<not> accepts n (take (Suc i) cs))"
      by (auto simp: less_Suc_eq_0_disj)
    with Some Cons.IH [of n] show ?thesis by simp
  qed
qed

lemma has_loop_iff:
  "has_loop root str i \<longleftrightarrow> (\<exists>p \<ge> i. p < length str \<and> match_end str root p \<noteq> None)"
proof (induction root str i rule: has_loop.induct)
  case (1 root str i)
  show ?case
  proof (cases "i < length str \<and> \<not> has_from str root i")
    case True
    have "(\<exists>p \<ge> i. p < length str \<and> match_end str root p \<noteq> None) \<longleftrightarrow>
          (\<exists>p \<ge> i + 1. p < length str \<and> match_end str root p \<noteq> None)"
      using True by (metis Suc_eq_plus1 Suc_leD has_from_match_end le_antisym not_less_eq_eq)
    with True 1 show ?thesis by (simp add: has_loop.simps [of root str i])
  next
    case False
    then show ?thesis
      by (auto simp: has_loop.simps [of root str i] has_from_match_end)
  qed
qed

lemma match_end_childless: "children root = [] \<Longrightarrow> match_end str root i = None"
  by (simp add: match_end.simps [of str root i] child_def)

lemma has_sensitive_word_iff:
  "has_sensitive_word root str \<longleftrightarrow> (\<exists>p < length str. match_rest root (drop p str) \<noteq> None)"
  using match_end_childless [of root str]
  by (auto simp: has_sensitive_word_def has_loop_iff match_end_rest)

lemma has_sensitive_word_accepts:
  assumes "\<not> is_end root"
  shows "has_sensitive_word root str \<longleftrightarrow> (\<exists>w. accepts root w \<and> sublist w str)"
proof
  assume "has_sensitive_word root str"
  then obtain p k where "match_rest root (drop p str) = Some k"
    by (auto simp: has_sensitive_word_iff)
  then have "accepts root (take (Suc k) (drop p str))" by (simp add: match_rest_Some)
  moreover have "sublist (take (Suc k) (drop p str)) str"
    by (metis append_take_drop_id sublist_appendI)
  ultimately show "\<exists>w. accepts root w \<and> sublist w str" by blast
next
  assume "\<exists>w. accepts root w \<and> sublist w str"
  then obtain w u v where w: "accepts root w" "str = u @ w @ v" by (auto simp: sublist_def)
  with assms have ne: "w \<noteq> []" by auto
  then have "take (Suc (length w - 1)) (drop (length u) str) = w" using w by (cases w) auto
  moreover have "length w - 1 < length (drop (length u) str)" using w ne by (cases w) auto
  ultimately have "match_rest root (drop (length u) str) \<noteq> None"
    using w(1) by (auto simp: match_rest_None)
  moreover have "length u < length str" using w(2) ne by auto
  ultimately show "has_sensitive_word root str" by (auto simp: has_sensitive_word_iff)
qed

lemma not_is_end_init: "\<not> is_end (filter_of ws)"
  using accepts_filter_of [of ws "[]"] by simp

subsection \<open>The reference for Filter\<close>

text \<open>
  From left to right: where a word starts, the shortest one that starts there is masked
  and the scan goes on after it; a byte where no word starts is kept.
\<close>

definition shortest_match :: "string list \<Rightarrow> string \<Rightarrow> nat option" where
  "shortest_match words s = find (\<lambda>n. take n s \<in> set words) [1..<Suc (length s)]"

lemma shortest_match_Some:
  "shortest_match words s = Some n \<Longrightarrow> 0 < n \<and> n \<le> length s \<and> take n s \<in> set words"
  by (auto simp: shortest_match_def find_Some_iff simp del: upt_Suc)

function mask_words :: "string list \<Rightarrow> string \<Rightarrow> string" where
  "mask_words words [] = []"
| "mask_words words (c # cs) =
     (case shortest_match words (c # cs) of
        Some n \<Rightarrow> replicate n (CHR ''*'') @ mask_words words (drop n (c # cs))
      | None \<Rightarrow> c # mask_words words cs)"
  by pat_completeness auto
termination
  by (relation "measure (\<lambda>(words, s). length s)") (auto dest!: shortest_match_Some)

lemma find_upt_Some:
  "find P [m..<n] = Some k \<longleftrightarrow> m \<le> k \<and> k < n \<and> P k \<and> (\<forall>i. m \<le> i \<and> i < k \<longrightarrow> \<not> P i)"
proof
  assume "find P [m..<n] = Some k"
  then obtain i where i: "i < n - m" "P (m + i)" "k = m + i" "\<forall>j < i. \<not> P (m + j)"
    by (auto simp: find_Some_iff)
  have "\<not> P q" if "m \<le> q" "q < k" for q
    using i(4) [rule_format, of "q - m"] i(3) that by simp
  with i show "m \<le> k \<and> k < n \<and> P k \<and> (\<forall>i. m \<le> i \<and> i < k \<longrightarrow> \<not> P i)" by auto
next
  assume k: "m \<le> k \<and> k < n \<and> P k \<and> (\<forall>i. m \<le> i \<and> i < k \<longrightarrow> \<not> P i)"
  then have "find P [m..<n] \<noteq> None" by (auto simp: find_None_iff)
  then obtain k' where k': "find P [m..<n] = Some k'" by auto
  then obtain i where i: "i < n - m" "P (m + i)" "k' = m + i" "\<forall>j < i. \<not> P (m + j)"
    by (auto simp: find_Some_iff)
  have "k \<le> k'" using k i by (metis le_add1 linorder_not_less)
  moreover have "k' \<le> k"
  proof (rule ccontr)
    assume "\<not> k' \<le> k"
    with i(3) k have "k - m < i" by linarith
    with i(4) k show False by (metis le_add_diff_inverse)
  qed
  ultimately show "find P [m..<n] = Some k" using k' by simp
qed

lemma shortest_match_trie:
  "shortest_match ws s = map_option Suc (match_rest (filter_of ws) s)"
proof (cases "match_rest (filter_of ws) s")
  case None
  have "take n s \<notin> set ws" if "1 \<le> n" "n < Suc (length s)" for n
    using None [unfolded match_rest_None, rule_format, of "n - 1"] that by (cases s) auto
  then show ?thesis
    using None by (auto simp: shortest_match_def find_None_iff simp del: upt_Suc)
next
  case (Some k)
  then have k: "k < length s" "take (Suc k) s \<in> set ws"
    and least: "\<And>i. i < k \<Longrightarrow> take (Suc i) s \<notin> set ws"
    by (force simp: match_rest_Some)+
  have "take i s \<notin> set ws" if "1 \<le> i" "i < Suc k" for i
    using least [of "i - 1"] that by simp
  with k Some show ?thesis
    by (auto simp: shortest_match_def find_upt_Some simp del: upt_Suc)
qed

lemma star_range_eq:
  "i \<le> j + 1 \<Longrightarrow> j < length r \<Longrightarrow>
     star_range i j r = take i r @ replicate (j + 1 - i) (CHR ''*'') @ drop (j + 1) r"
proof (induction i j r rule: star_range.induct)
  case (1 i j r)
  show ?case
  proof (cases "i \<le> j")
    case True
    with 1 have "star_range i j r =
        take (i + 1) (r[i := CHR ''*'']) @ replicate (j - i) (CHR ''*'') @ drop (j + 1) r"
      by (simp add: star_range.simps [of i j r])
    also have "take (i + 1) (r[i := CHR ''*'']) = take i r @ [CHR ''*'']"
      using True 1 by (simp add: take_Suc_conv_app_nth)
    finally show ?thesis using True by (simp add: Suc_diff_le)
  next
    case False
    with 1 have "i = j + 1" by simp
    then show ?thesis by (subst star_range.simps) simp
  qed
qed

lemma filter_loop_mask:
  "length pre = i \<Longrightarrow> i \<le> length str \<Longrightarrow>
     filter_loop (filter_of ws) str i (pre @ drop i str) = pre @ mask_words ws (drop i str)"
proof (induction "length str - i" arbitrary: i pre rule: less_induct)
  case less
  show ?case
  proof (cases "i < length str")
    case False
    with less.prems show ?thesis by (subst filter_loop.simps) simp
  next
    case True
    then obtain c cs where s: "drop i str = c # cs" by (cases "drop i str") auto
    then have cs: "cs = drop (i + 1) str" by (metis drop_Suc drop_tl list.sel(3) Suc_eq_plus1)
    show ?thesis
    proof (cases "match_rest (filter_of ws) (drop i str)")
      case None
      then have "mask_words ws (drop i str) = c # mask_words ws cs"
        by (simp add: s shortest_match_trie)
      moreover have "filter_loop (filter_of ws) str (i + 1) ((pre @ [c]) @ drop (i + 1) str) =
          (pre @ [c]) @ mask_words ws (drop (i + 1) str)"
        by (rule less.hyps) (use True less.prems in auto)
      ultimately show ?thesis
        using True None s cs
        by (simp add: filter_loop.simps [of _ str i] match_end_rest)
    next
      case (Some k)
      then have k: "k < length (drop i str)" by (simp add: match_rest_Some)
      let ?n = "k + 1"
      let ?pre = "pre @ replicate ?n (CHR ''*'')"
      have m: "mask_words ws (drop i str) = replicate ?n (CHR ''*'') @ mask_words ws (drop (i + ?n) str)"
        using Some s cs by (simp add: shortest_match_trie add.commute)
      have "star_range i (i + k) (pre @ drop i str) = ?pre @ drop (i + ?n) str"
        using k less.prems by (subst star_range_eq) (auto simp: add.commute)
      moreover have "filter_loop (filter_of ws) str (i + ?n) (?pre @ drop (i + ?n) str) =
          ?pre @ mask_words ws (drop (i + ?n) str)"
        by (rule less.hyps) (use True k less.prems in auto)
      ultimately show ?thesis
        using True Some m
        by (simp add: filter_loop.simps [of _ str i] match_end_rest add.assoc)
    qed
  qed
qed

lemma filter_loop_childless: "children root = [] \<Longrightarrow> filter_loop root str i r = r"
proof (induction root str i r rule: filter_loop.induct)
  case (1 root str i r)
  then show ?case
    by (subst filter_loop.simps) (simp add: match_end_childless)
qed

lemma filter_text_loop: "filter_text root str = filter_loop root str 0 str"
  by (auto simp: filter_text_def filter_loop_childless filter_loop.simps [of _ "[]"])

lemma filter_text_mask: "filter_text (filter_of ws) str = mask_words ws str"
  using filter_loop_mask [of "[]" 0 str ws] by (simp add: filter_text_loop)

subsection \<open>Facts about masking\<close>

lemma shortest_match_None:
  "shortest_match ws s = None \<longleftrightarrow> (\<forall>w \<in> set ws. w = [] \<or> \<not> prefix w s)"
proof
  assume none: "shortest_match ws s = None"
  have "\<not> prefix w s" if "w \<in> set ws" "w \<noteq> []" for w
  proof
    assume "prefix w s"
    then have w: "take (length w) s = w" "length w \<le> length s"
      by (auto simp: prefix_def)
    moreover have "1 \<le> length w" using that by (simp add: Suc_le_eq)
    ultimately have "length w \<in> set [1..<Suc (length s)]" by (auto simp del: upt_Suc)
    then have "take (length w) s \<notin> set ws"
      using none unfolding shortest_match_def find_None_iff by blast
    with w that show False by simp
  qed
  then show "\<forall>w \<in> set ws. w = [] \<or> \<not> prefix w s" by blast
next
  assume *: "\<forall>w \<in> set ws. w = [] \<or> \<not> prefix w s"
  have "take n s \<notin> set ws" if "1 \<le> n" "n < Suc (length s)" for n
    using * that take_is_prefix [of n s] by (cases s) auto
  then show "shortest_match ws s = None"
    by (auto simp: shortest_match_def find_None_iff simp del: upt_Suc)
qed

lemma length_mask [simp]: "length (mask_words ws s) = length s"
  by (induction ws s rule: mask_words.induct) (auto split: option.splits dest!: shortest_match_Some)

lemma mask_nth: "p < length s \<Longrightarrow> mask_words ws s ! p = s ! p \<or> mask_words ws s ! p = CHR ''*''"
proof (induction ws s arbitrary: p rule: mask_words.induct)
  case (1 ws)
  then show ?case by simp
next
  case (2 ws c cs)
  show ?case
  proof (cases "shortest_match ws (c # cs)")
    case None
    with 2 show ?thesis by (cases p) auto
  next
    case (Some n)
    then have n: "0 < n" "n \<le> length (c # cs)" by (auto dest: shortest_match_Some)
    show ?thesis
    proof (cases "p < n")
      case True
      with Some show ?thesis by (simp add: nth_append)
    next
      case False
      with n 2(2) [OF Some, of "p - n"] "2.prems" Some show ?thesis
        by (simp add: nth_append)
    qed
  qed
qed

text \<open>Where a word starts in the text, the masked text has a star.\<close>

lemma mask_star_at_start:
  "p < length s \<Longrightarrow> shortest_match ws (drop p s) \<noteq> None \<Longrightarrow> mask_words ws s ! p = CHR ''*''"
proof (induction ws s arbitrary: p rule: mask_words.induct)
  case (1 ws)
  then show ?case by simp
next
  case (2 ws c cs)
  show ?case
  proof (cases "shortest_match ws (c # cs)")
    case None
    with 2 show ?thesis by (cases p) auto
  next
    case (Some n)
    then have n: "0 < n" "n \<le> length (c # cs)" by (auto dest: shortest_match_Some)
    show ?thesis
    proof (cases "p < n")
      case True
      with Some show ?thesis by (simp add: nth_append)
    next
      case False
      with n 2(2) [OF Some, of "p - n"] "2.prems" Some show ?thesis
        by (simp add: nth_append)
    qed
  qed
qed

lemma mask_clean:
  assumes w: "w \<in> set ws" "w \<noteq> []" and star: "CHR ''*'' \<notin> set w"
  shows "\<not> sublist w (mask_words ws s)"
proof
  assume "sublist w (mask_words ws s)"
  then obtain u v where uv: "mask_words ws s = u @ w @ v" by (auto simp: sublist_def)
  let ?p = "length u"
  have len: "length s = length u + length w + length v"
    using length_mask [of ws s] uv by simp
  have "s ! (?p + i) = w ! i" if "i < length w" for i
  proof -
    have "mask_words ws s ! (?p + i) = w ! i" using uv that by (simp add: nth_append)
    moreover have "w ! i \<noteq> CHR ''*''" using star that by (metis nth_mem)
    ultimately show ?thesis using mask_nth [of "?p + i" s ws] len that by simp
  qed
  then have "take (length w) (drop ?p s) = w"
    using len by (intro nth_equalityI) auto
  then have "prefix w (drop ?p s)" by (metis take_is_prefix)
  then have "shortest_match ws (drop ?p s) \<noteq> None"
    using w by (auto simp: shortest_match_None)
  then have "mask_words ws s ! ?p = CHR ''*''"
    using len w by (intro mask_star_at_start) auto
  moreover have "mask_words ws s ! ?p = hd w" using uv w by (cases w) (auto simp: nth_append)
  ultimately show False using star w by (metis hd_in_set)
qed

lemma mask_id: "\<forall>w \<in> set ws. w = [] \<or> \<not> sublist w s \<Longrightarrow> mask_words ws s = s"
proof (induction ws s rule: mask_words.induct)
  case (1 ws)
  then show ?case by simp
next
  case (2 ws c cs)
  then have none: "shortest_match ws (c # cs) = None"
    by (auto simp: shortest_match_None dest: prefix_imp_sublist)
  have "\<forall>w \<in> set ws. w = [] \<or> \<not> sublist w cs"
    using "2.prems" by (auto simp: sublist_Cons_right)
  then have "mask_words ws cs = cs" by (rule "2.IH" (1) [OF none])
  with none show ?case by simp
qed

lemma shortest_match_set: "set ws = set ws' \<Longrightarrow> shortest_match ws s = shortest_match ws' s"
  by (simp add: shortest_match_def)

lemma mask_set: "set ws = set ws' \<Longrightarrow> mask_words ws s = mask_words ws' s"
proof (induction ws s rule: mask_words.induct)
  case (2 ws c cs)
  then show ?case
    using shortest_match_set [of ws ws' "c # cs"] by (simp split: option.split)
qed simp

subsection \<open>UTF-8 framing\<close>

text \<open>
  The words and the messages are UTF-8, the filter works on bytes. \<open>framed k s\<close> says
  that \<open>s\<close> is, after \<open>k\<close> pending continuation bytes, a sequence of lead bytes each with
  its number of continuation bytes.
\<close>

definition continuation :: "char \<Rightarrow> bool" where
  "continuation c \<longleftrightarrow> 128 \<le> char_code c \<and> char_code c < 192"

definition lead_count :: "char \<Rightarrow> nat option" where
  "lead_count c =
     (let n = char_code c
      in if n < 128 then Some 0
         else if 194 \<le> n \<and> n < 224 then Some 1
         else if 224 \<le> n \<and> n < 240 then Some 2
         else if 240 \<le> n \<and> n < 245 then Some 3
         else None)"

fun framed :: "nat \<Rightarrow> string \<Rightarrow> bool" where
  "framed k [] \<longleftrightarrow> k = 0"
| "framed 0 (c # cs) \<longleftrightarrow> (case lead_count c of None \<Rightarrow> False | Some n \<Rightarrow> framed n cs)"
| "framed (Suc k) (c # cs) \<longleftrightarrow> continuation c \<and> framed k cs"

lemma lead_not_continuation: "lead_count c = Some n \<Longrightarrow> \<not> continuation c"
  by (auto simp: lead_count_def continuation_def Let_def split: if_splits)

lemma framed_append: "framed k u \<Longrightarrow> framed k (u @ v) \<longleftrightarrow> framed 0 v"
  by (induction k u rule: framed.induct) (auto split: option.splits)

lemma framed_stars: "framed 0 (replicate n (CHR ''*'') @ v) \<longleftrightarrow> framed 0 v"
  by (induction n) (auto simp: lead_count_def char_code_def)

lemma framed_mask:
  "\<forall>w \<in> set ws. framed 0 w \<Longrightarrow> framed k s \<Longrightarrow> framed k (mask_words ws s)"
proof (induction ws s arbitrary: k rule: mask_words.induct)
  case (1 ws)
  then show ?case by simp
next
  case (2 ws c cs)
  show ?case
  proof (cases "shortest_match ws (c # cs)")
    case None
    with 2 show ?thesis by (cases k) (auto split: option.splits)
  next
    case (Some n)
    let ?w = "take n (c # cs)"
    from Some have n: "0 < n" "n \<le> length (c # cs)" "?w \<in> set ws"
      by (auto dest: shortest_match_Some)
    then have w: "framed 0 ?w" using 2 by blast
    then obtain m where "lead_count c = Some m"
      using n by (cases n) (auto split: option.splits)
    then have k: "k = 0" using 2 lead_not_continuation by (cases k) auto
    have "framed 0 (?w @ drop n (c # cs))" using 2 k by simp
    then have "framed 0 (drop n (c # cs))" using framed_append [OF w] by blast
    then have "framed 0 (mask_words ws (drop n (c # cs)))" using 2 Some by blast
    with Some k show ?thesis by (simp add: framed_stars)
  qed
qed

subsection \<open>The interface the chat handlers use\<close>

text \<open>
  \<open>built f\<close>: the filter was made by loading words without a star. Several calls of
  \<open>Init\<close> load the words one after the other.
\<close>

definition built :: "trie_node \<Rightarrow> bool" where
  "built f \<longleftrightarrow> (\<exists>ws. f = filter_of ws \<and> (\<forall>w \<in> set ws. CHR ''*'' \<notin> set w))"

lemma init_words_filter_of: "init_words ws (filter_of vs) = filter_of (vs @ ws)"
  by (simp add: filter_of_def init_words_def)

lemma built_init_words:
  "built f \<Longrightarrow> \<forall>w \<in> set ws. CHR ''*'' \<notin> set w \<Longrightarrow> built (init_words ws f)"
  unfolding built_def by (metis Un_iff init_words_filter_of set_append)

lemma has_filter_of:
  "has_sensitive_word (filter_of ws) s \<longleftrightarrow> (\<exists>w \<in> set ws. w \<noteq> [] \<and> sublist w s)"
  by (auto simp: has_sensitive_word_accepts not_is_end_init)

locale word_filter =
  fixes has :: "'f \<Rightarrow> string \<Rightarrow> bool"
    and filt :: "'f \<Rightarrow> string \<Rightarrow> string"
    and good :: "'f \<Rightarrow> bool"
  assumes filt_clean: "good f \<Longrightarrow> \<not> has f (filt f s)"
    and filt_keep: "good f \<Longrightarrow> \<not> has f s \<Longrightarrow> filt f s = s"
    and filt_length: "good f \<Longrightarrow> length (filt f s) = length s"
begin

lemma guarded_clean: "good f \<Longrightarrow> \<not> has f (if has f s then filt f s else s)"
  by (simp add: filt_clean)

lemma guarded_filt: "good f \<Longrightarrow> (if has f s then filt f s else s) = filt f s"
  by (simp add: filt_keep)

lemma filt_idem: "good f \<Longrightarrow> filt f (filt f s) = filt f s"
  by (simp add: filt_clean filt_keep)

end

interpretation trie_filter: word_filter has_sensitive_word filter_text built
  by unfold_locales (use mask_clean in \<open>auto simp: built_def filter_text_mask has_filter_of intro!: mask_id\<close>)

subsection \<open>Properties\<close>

text \<open>
  C20. \<open>HasSensitiveWord\<close>, after \<open>Init\<close> with a word list, answers whether some nonempty
  word of the list occurs in the text.
\<close>

theorem has_sensitive_word_correct:
  "has_sensitive_word (init_words words new_node) str \<longleftrightarrow>
     (\<exists>w \<in> set words. w \<noteq> [] \<and> sublist w str)"
  by (fold filter_of_def) (rule has_filter_of)

text \<open>
  C19. \<open>Filter\<close>, after \<open>Init\<close> with a word list, computes the reference masking:
  leftmost, shortest match first, matches not overlapping.
\<close>

theorem filter_text_reference:
  "filter_text (init_words words new_node) str = mask_words words str"
  by (fold filter_of_def) (rule filter_text_mask)

text \<open>
  \<open>Filter\<close> keeps the length of the text and each byte is either kept or replaced by
  a star, the start of each occurrence of a word always being replaced.
\<close>

theorem filter_text_bytes:
  "length (filter_text (init_words words new_node) str) = length str \<and>
   (\<forall>p < length str.
      filter_text (init_words words new_node) str ! p \<in> {str ! p, CHR ''*''} \<and>
      ((\<exists>w \<in> set words. w \<noteq> [] \<and> prefix w (drop p str)) \<longrightarrow>
         filter_text (init_words words new_node) str ! p = CHR ''*''))"
  using mask_nth [of _ str words] mask_star_at_start [of _ str words]
  by (auto simp: filter_text_mask shortest_match_None simp flip: filter_of_def)

theorem filter_text_bytes_witness:
  "filter_text (init_words [''ban''] new_node) ''a ban!'' ! 2 = CHR ''*''"
proof -
  have "\<exists>w \<in> set [''ban'']. w \<noteq> [] \<and> prefix w (drop 2 ''a ban!'')" by simp
  then show ?thesis using filter_text_bytes [of "[''ban'']" "''a ban!''"] by simp
qed

text \<open>
  When no word contains a star, no word is left in the text \<open>Filter\<close> returns:
  \<open>HasSensitiveWord\<close> is false on it, and filtering it again changes nothing.
\<close>

theorem filter_text_clean:
  assumes "\<forall>w \<in> set words. CHR ''*'' \<notin> set w"
  shows "\<not> has_sensitive_word (init_words words new_node)
            (filter_text (init_words words new_node) str) \<and>
         filter_text (init_words words new_node)
            (filter_text (init_words words new_node) str) =
         filter_text (init_words words new_node) str"
proof -
  have "built (init_words words new_node)"
    using assms by (auto simp: built_def simp flip: filter_of_def)
  then show ?thesis by (simp add: trie_filter.filt_clean trie_filter.filt_idem)
qed

theorem filter_text_clean_witness:
  "\<not> has_sensitive_word (init_words [''ab'', ''bc''] new_node)
      (filter_text (init_words [''ab'', ''bc''] new_node) ''xabcx'')"
  using filter_text_clean [of "[''ab'', ''bc'']" "''xabcx''"] by simp

text \<open>
  With UTF-8 words, filtering a UTF-8 text gives a UTF-8 text: no character is cut,
  though the match is on bytes.
\<close>

theorem filter_text_utf8:
  assumes "\<forall>w \<in> set words. framed 0 w" and "framed 0 str"
  shows "framed 0 (filter_text (init_words words new_node) str)"
  using framed_mask [OF assms] by (simp add: filter_text_mask flip: filter_of_def)

theorem filter_text_utf8_witness:
  "framed 0 (filter_text (init_words [[CHR 0xE8, CHR 0x89, CHR 0xB2]] new_node)
     [CHR 0xE4, CHR 0xBD, CHR 0xA0, CHR 0xE8, CHR 0x89, CHR 0xB2, CHR ''!''])"
  by (rule filter_text_utf8) (simp_all add: lead_count_def continuation_def char_code_def eval_nat_numeral)

end
