(* ===== verification/Data_Access.thy ===== *)
theory Data_Access
  imports Retry Mysql_Pool
begin

section \<open>Access to MySQL\<close>

text \<open>
  The shape every function of the data access classes has: a lambda that takes a guarded
  connection, prepares and executes statements and reads the result set, run by the retry
  executor with three retries and pauses of 500 ms, inside a \<open>try ... catch (...)\<close>. The
  MySQL connector is a parameter: what preparing, querying and updating do to the world and
  return is the environment's. Vectors and counters of the enclosing function that the
  lambda captures by reference are the second component of the state the lambda runs on.
\<close>

subsection \<open>The connector\<close>

datatype sql_val = SString string | SU64 u64 | SInt int

text \<open>
  The getters of a row throw when the column is missing or cannot be converted;
  \<open>rows_end\<close> is what \<open>next()\<close> throws after the last row, if it throws.
\<close>

record sql_row =
  row_u64 :: "string \<Rightarrow> exn + u64"
  row_string :: "string \<Rightarrow> exn + string"
  row_int :: "string \<Rightarrow> exn + int"

record result_set =
  rows :: "sql_row list"
  rows_end :: "exn option"

record 'w mysql =
  prepare :: "conn \<Rightarrow> string \<Rightarrow> ('w, unit) comp"
  execute_query :: "conn \<Rightarrow> string \<Rightarrow> sql_val list \<Rightarrow> ('w, result_set) comp"
  execute_update :: "conn \<Rightarrow> string \<Rightarrow> sql_val list \<Rightarrow> ('w, unit) comp"
  pause_for :: "int \<Rightarrow> 'w \<Rightarrow> 'w"

definition of_sum :: "exn + 'a \<Rightarrow> ('s, 'a) comp" where
  "of_sum x = (case x of Inl e \<Rightarrow> throw e | Inr a \<Rightarrow> ret a)"

definition sum_bind :: "exn + 'a \<Rightarrow> ('a \<Rightarrow> exn + 'b) \<Rightarrow> exn + 'b" where
  "sum_bind x f = (case x of Inl e \<Rightarrow> Inl e | Inr a \<Rightarrow> f a)"

lemma sum_bind_simps [simp]: "sum_bind (Inl e) f = Inl e" "sum_bind (Inr a) f = f a"
  by (simp_all add: sum_bind_def)

lemma of_sum_simps [simp]: "of_sum (Inl e) = throw e" "of_sum (Inr a) = ret a"
  by (simp_all add: of_sum_def)

text \<open>\<open>std::unique_ptr<sql::PreparedStatement> ...; setX ...; executeQuery()\<close>.\<close>

definition query :: "'w mysql \<Rightarrow> conn \<Rightarrow> string \<Rightarrow> sql_val list \<Rightarrow> ('w, result_set) comp" where
  "query db c stmt args = bind_comp (prepare db c stmt) (\<lambda>_. execute_query db c stmt args)"

definition update :: "'w mysql \<Rightarrow> conn \<Rightarrow> string \<Rightarrow> sql_val list \<Rightarrow> ('w, unit) comp" where
  "update db c stmt args = bind_comp (prepare db c stmt) (\<lambda>_. execute_update db c stmt args)"

text \<open>\<open>if (res->next()) { read } return dflt\<close>.\<close>

definition first_row :: "result_set \<Rightarrow> 'a \<Rightarrow> (sql_row \<Rightarrow> exn + 'a) \<Rightarrow> exn + 'a" where
  "first_row rs dflt read =
     (case rows rs of
        [] \<Rightarrow> (case rows_end rs of Some e \<Rightarrow> Inl e | None \<Rightarrow> Inr dflt)
      | r # _ \<Rightarrow> read r)"

text \<open>
  \<open>while (res->next()) result.push_back(read)\<close> on a vector that outlives the lambda: what
  was pushed before an exception stays.
\<close>

fun push_rows ::
  "('r \<Rightarrow> exn + 'a) \<Rightarrow> 'r list \<Rightarrow> exn option \<Rightarrow> ('w \<times> 'a list, unit) comp" where
  "push_rows read [] (Some e) s = (Exc e, s)"
| "push_rows read [] None s = (Ret (), s)"
| "push_rows read (r # rs) fin (w, acc) =
     (case read r of
        Inl e \<Rightarrow> (Exc e, (w, acc))
      | Inr a \<Rightarrow> push_rows read rs fin (w, acc @ [a]))"

subsection \<open>The retried, guarded lambda\<close>

definition app_pause :: "'w mysql \<Rightarrow> int \<Rightarrow> 'w app \<Rightarrow> 'w app" where
  "app_pause db ms s = s\<lparr>world := pause_for db ms (world s)\<rparr>"

definition with_db :: "'w mysql \<Rightarrow> (conn \<Rightarrow> ('w, 'a) comp) \<Rightarrow> ('w app, 'a) comp" where
  "with_db db body = execute_with_retry (app_pause db) 3 500 (guarded body)"

definition with_db_void :: "'w mysql \<Rightarrow> (conn \<Rightarrow> ('w, unit) comp) \<Rightarrow> ('w app, unit) comp" where
  "with_db_void db body = execute_with_retry_void (app_pause db) 3 500 (guarded body)"

lemma with_db_void_eq: "with_db_void db body = with_db db body"
  by (simp add: with_db_void_def with_db_def execute_with_retry_void_eq)

text \<open>Variables of the enclosing function captured by reference.\<close>

definition lift_world :: "('w, 'a) comp \<Rightarrow> ('w \<times> 'l, 'a) comp" where
  "lift_world m = (\<lambda>(w, l). case m w of (r, w') \<Rightarrow> (r, (w', l)))"

definition lift_mysql :: "'w mysql \<Rightarrow> ('w \<times> 'l) mysql" where
  "lift_mysql db =
     \<lparr>prepare = (\<lambda>c t. lift_world (prepare db c t)),
      execute_query = (\<lambda>c t v. lift_world (execute_query db c t v)),
      execute_update = (\<lambda>c t v. lift_world (execute_update db c t v)),
      pause_for = (\<lambda>ms (w, l). (pause_for db ms w, l))\<rparr>"

definition with_local :: "'l \<Rightarrow> (('w \<times> 'l) app, 'a) comp \<Rightarrow> ('w app, 'a \<times> 'l) comp" where
  "with_local l m s =
     (case m \<lparr>pool = pool s, world = (world s, l)\<rparr> of
        (Ret a, t) \<Rightarrow> (Ret (a, snd (world t)), \<lparr>pool = pool t, world = fst (world t)\<rparr>)
      | (Exc e, t) \<Rightarrow> (Exc e, \<lparr>pool = pool t, world = fst (world t)\<rparr>)
      | (Hang, t) \<Rightarrow> (Hang, \<lparr>pool = pool t, world = fst (world t)\<rparr>))"

subsection \<open>No access leaks a connection\<close>

lemma holds_conns_pause: "holds_conns M s \<Longrightarrow> holds_conns M (app_pause db ms s)"
  by (simp add: holds_conns_def app_pause_def)

interpretation db_access: retried "guarded body" "app_pause db" "holds_conns M"
  for body :: "conn \<Rightarrow> ('w, 'a) comp" and db :: "'w mysql" and M
  by unfold_locales (auto intro: guarded_keeps holds_conns_pause)

lemma with_db_keeps [intro, keeps_intros]: "keeps (holds_conns M) (with_db db body)"
  unfolding with_db_def by (rule db_access.retry_keeps)

lemma with_db_void_keeps [intro, keeps_intros]: "keeps (holds_conns M) (with_db_void db body)"
  unfolding with_db_void_eq by (rule with_db_keeps)

lemma with_local_keeps [intro, keeps_intros]:
  assumes "keeps (holds_conns M) m"
  shows "keeps (holds_conns M) (with_local l m)"
proof (rule keepsI)
  fix s r s'
  assume s: "holds_conns M s" "with_local l m s = (r, s')" "r \<noteq> Hang"
  obtain q t where q: "m \<lparr>pool = pool s, world = (world s, l)\<rparr> = (q, t)" by fastforce
  have "holds_conns M t" if "q \<noteq> Hang"
    using keepsD [OF assms _ q that] s(1) by (simp add: holds_conns_def)
  with s q show "holds_conns M s'"
    by (cases q) (auto simp: with_local_def holds_conns_def)
qed

lemmas keeps_on_world_conns [intro, keeps_intros] = keeps_on_world

subsection \<open>What a database call does to a part of the world\<close>

text \<open>
  \<open>world_rel R m\<close>: whatever the outcome, \<open>m\<close> takes a world to an \<open>R\<close>-related one.
  The executor and the guard keep a transitive relation that the pauses respect.
\<close>

definition world_rel :: "('w \<Rightarrow> 'w \<Rightarrow> bool) \<Rightarrow> ('w, 'a) comp \<Rightarrow> bool" where
  "world_rel R m \<longleftrightarrow> (\<forall>w r w'. m w = (r, w') \<longrightarrow> R w w')"

lemma world_relD: "world_rel R m \<Longrightarrow> m w = (r, w') \<Longrightarrow> R w w'"
  by (auto simp: world_rel_def)

lemma world_rel_bind:
  assumes "world_rel R m" "\<And>a. world_rel R (f a)" "transp R"
  shows "world_rel R (bind_comp m f)"
  using assms unfolding world_rel_def bind_comp_def transp_def
  by (fastforce split: prod.splits outcome.splits)

lemma world_rel_of_sum: "reflp R \<Longrightarrow> world_rel R (of_sum x)"
  by (auto simp: world_rel_def of_sum_def throw_def ret_def reflp_def split: sum.splits)

lemma world_rel_guarded:
  assumes "\<And>c. world_rel R (body c)" "reflp R" "guarded body s = (r, s')"
  shows "R (world s) (world s')"
  using assms
  by (auto simp: guarded_cases world_rel_def reflp_def split: prod.splits outcome.splits
      option.splits)

lemma world_rel_failing:
  assumes "\<And>c. world_rel R (body c)" "reflp R" "transp R"
    and "\<And>w. R w (pause_for db d w)"
  shows "failing (guarded body) (app_pause db d) n s t \<Longrightarrow> R (world s) (world t)"
proof (induction n arbitrary: s)
  case 0
  then show ?case using assms(2) by (simp add: reflp_def)
next
  case (Suc n)
  then obtain e s1 where s1: "guarded body s = (Exc e, s1)"
    "failing (guarded body) (app_pause db d) n (app_pause db d s1) t"
    by (auto split: prod.splits outcome.splits)
  have "R (world s) (world s1)" by (rule world_rel_guarded [OF assms(1,2) s1(1)])
  moreover have "R (world s1) (world (app_pause db d s1))"
    using assms(4) by (simp add: app_pause_def)
  moreover have "R (world (app_pause db d s1)) (world t)" by (rule Suc.IH [OF s1(2)])
  ultimately show ?case using assms(3) by (blast dest: transpD)
qed

lemma with_db_result:
  "with_db db body s = (r, t) \<longleftrightarrow>
     (\<exists>n u. n \<le> 3 \<and> failing (guarded body) (app_pause db 500) n s u \<and>
        guarded body u = (r, t) \<and> ((\<exists>e. r = Exc e) \<longrightarrow> n = 3))"
  by (simp add: with_db_def execute_with_retry_def retry_loop_result)

lemma with_db_world_rel:
  assumes "\<And>c. world_rel R (body c)" "reflp R" "transp R"
    and "\<And>w. R w (pause_for db 500 w)" "with_db db body s = (r, t)"
  shows "R (world s) (world t)"
proof -
  obtain n u where "failing (guarded body) (app_pause db 500) n s u" "guarded body u = (r, t)"
    using assms(5) by (auto simp: with_db_result)
  then have "R (world s) (world u)" "R (world u) (world t)"
    using world_rel_failing [where body = body, OF assms(1-4)]
      world_rel_guarded [where body = body, OF assms(1,2)] by blast+
  then show ?thesis using assms(3) by (blast dest: transpD)
qed

text \<open>A call that returns has run its lambda on some connection, in its last attempt.\<close>

lemma with_db_Ret:
  assumes "with_db db body s = (Ret a, t)"
  obtains n u c w where "n \<le> 3" "failing (guarded body) (app_pause db 500) n s u"
    "body c (world u) = (Ret a, w)" "world t = w"
proof -
  obtain n u where nu: "n \<le> 3" "failing (guarded body) (app_pause db 500) n s u"
    "guarded body u = (Ret a, t)"
    using assms by (auto simp: with_db_result)
  then obtain c where "body c (world u) = (Ret a, world t)"
    by (auto simp: guarded_cases split: prod.splits outcome.splits option.splits)
  with nu that show thesis by blast
qed

lemma with_db_Ret_rel:
  assumes "\<And>c. world_rel R (body c)" "reflp R" "transp R"
    and "\<And>w. R w (pause_for db 500 w)" "with_db db body s = (Ret a, t)"
  obtains c w where "R (world s) w" "body c w = (Ret a, world t)"
proof -
  obtain n u c w where *: "failing (guarded body) (app_pause db 500) n s u"
    "body c (world u) = (Ret a, w)" "world t = w"
    using with_db_Ret [OF assms(5)] by metis
  have "R (world s) (world u)"
    using world_rel_failing [where body = body, OF assms(1-4) *(1)] .
  with * that show thesis by blast
qed

text \<open>
  The same for a call inside \<open>try ... catch (...)\<close> that returns \<open>dflt\<close>: whatever happens,
  the world has moved along \<open>R\<close>, and another result comes from the lambda.
\<close>

lemma caught_with_db_rel:
  assumes "\<And>c. world_rel R (body c)" "reflp R" "transp R"
    and "\<And>w. R w (pause_for db 500 w)"
    and "catch_all (with_db db body) (ret dflt) s = (r, t)"
  shows "R (world s) (world t) \<and> (\<forall>e. r \<noteq> Exc e)"
proof -
  obtain q u where q: "with_db db body s = (q, u)" by fastforce
  from with_db_world_rel [where body = body, OF assms(1-4) q] assms(5) q show ?thesis
    by (cases q) (auto simp: catch_all_def ret_def)
qed

lemma caught_with_db_Ret:
  assumes "\<And>c. world_rel R (body c)" "reflp R" "transp R"
    and "\<And>w. R w (pause_for db 500 w)"
    and "catch_all (with_db db body) (ret dflt) s = (Ret a, t)" "a \<noteq> dflt"
  obtains c w where "R (world s) w" "body c w = (Ret a, world t)"
proof -
  have "with_db db body s = (Ret a, t)"
    using assms(5,6) by (auto simp: catch_all_def ret_def split: prod.splits outcome.splits)
  from with_db_Ret_rel [where body = body, OF assms(1-4) this] that show thesis by blast
qed

text \<open>With an idle connection and a lambda that succeeds, the first attempt is the last.\<close>

lemma with_db_run:
  assumes "idle (pool s) = c # cs" "\<not> is_shutdown (pool s)" "body c (world s) = (Ret a, w)"
  shows "with_db db body s = (Ret a, s\<lparr>pool := (pool s)\<lparr>idle := cs @ [c]\<rparr>, world := w\<rparr>)"
  unfolding with_db_def
  by (rule execute_with_retry_Ret_first)
    (rule guarded_run [where body = body, OF assms outcome.distinct(3)])

text \<open>A shut down pool: every attempt throws, the caller sees the exception after the pauses.\<close>

lemma with_db_shutdown:
  assumes "is_shutdown (pool s)"
  shows "\<exists>t. with_db db body s = (Exc (StdException ''Failed to get DB connection''), t) \<and>
             pool t = pool s"
proof -
  have g: "guarded body u = (Exc (StdException ''Failed to get DB connection''), u)"
    if "is_shutdown (pool u)" for u
    using that by (simp add: guarded_cases acquire_connection_def)
  have f: "failing (guarded body) (app_pause db 500) n u ((app_pause db 500 ^^ n) u)"
    if "is_shutdown (pool u)" for n u
    using that
  proof (induction n arbitrary: u)
    case (Suc n)
    have "is_shutdown (pool (app_pause db 500 u))" using Suc.prems by (simp add: app_pause_def)
    from Suc.IH [OF this] show ?case using g [OF Suc.prems] by (simp add: funpow_swap1)
  qed simp
  have p: "pool ((app_pause db 500 ^^ n) u) = pool u" for n u
    by (induction n) (simp_all add: app_pause_def)
  have "with_db db body s = (Exc (StdException ''Failed to get DB connection''),
      (app_pause db 500 ^^ 3) s)"
    unfolding with_db_result using f [OF assms, of 3] g [of "(app_pause db 500 ^^ 3) s"] assms p
    by (intro exI [of _ 3] exI [of _ "(app_pause db 500 ^^ 3) s"]) simp
  with p show ?thesis by blast
qed

end
