(* ===== verification/Clock.thy ===== *)
theory Clock
  imports Prelude "HOL-Library.Signed_Division"
begin

section \<open>Clocks and the text of a time\<close>

text \<open>
  \<open>TimeUtils\<close> of \<open>common/src/utils/time_utils.cpp\<close>. The system clock is a number of
  nanoseconds since 1970; \<open>duration_cast\<close> drops the rest towards zero. \<open>std::localtime\<close> is
  the Gregorian calendar at an offset from UTC that depends on the time zone and on the time
  (\<open>off\<close>, seconds); \<open>std::put_time\<close> writes its fields.
\<close>

subsection \<open>The operations\<close>

definition timestamp_ms :: "int \<Rightarrow> int" where
  "timestamp_ms now_ns = now_ns sdiv 1000000"

definition timestamp_sec :: "int \<Rightarrow> int" where
  "timestamp_sec now_ns = now_ns sdiv 1000000000"

definition leap :: "int \<Rightarrow> bool" where
  "leap y \<longleftrightarrow> 4 dvd y \<and> (\<not> 100 dvd y \<or> 400 dvd y)"

definition year_length :: "int \<Rightarrow> int" where
  "year_length y = (if leap y then 366 else 365)"

definition month_length :: "int \<Rightarrow> int \<Rightarrow> int" where
  "month_length y m =
     (if m = 2 then if leap y then 29 else 28 else if m \<in> {4, 6, 9, 11} then 30 else 31)"

lemma year_length_pos: "0 < year_length y" "365 \<le> year_length y" "year_length y \<le> 366"
  by (simp_all add: year_length_def)

text \<open>The year of a day counted from the first of \<open>y\<close>, and the month of a day of the year.\<close>

function split_year :: "int \<Rightarrow> int \<Rightarrow> int \<times> int" where
  "split_year y d =
     (if d < 0 then split_year (y - 1) (d + year_length (y - 1))
      else if d < year_length y then (y, d)
      else split_year (y + 1) (d - year_length y))"
  by pat_completeness auto
termination
proof (relation "measure (\<lambda>(y, d). if d < 0 then nat (- d) + 1 else if d < year_length y then 0 else nat d)")
  fix y d :: int
  assume "d < 0"
  then show "((y - 1, d + year_length (y - 1)), (y, d)) \<in>
      measure (\<lambda>(y, d). if d < 0 then nat (- d) + 1 else if d < year_length y then 0 else nat d)"
    using year_length_pos [of "y - 1"] by auto
next
  fix y d :: int
  assume "\<not> d < 0" "\<not> d < year_length y"
  then show "((y + 1, d - year_length y), (y, d)) \<in>
      measure (\<lambda>(y, d). if d < 0 then nat (- d) + 1 else if d < year_length y then 0 else nat d)"
    using year_length_pos [of y] by auto
qed simp

function split_month :: "int \<Rightarrow> int \<Rightarrow> int \<Rightarrow> int \<times> int" where
  "split_month y m d =
     (if m \<ge> 12 \<or> d < month_length y m then (m, d + 1)
      else split_month y (m + 1) (d - month_length y m))"
  by pat_completeness auto
termination
  by (relation "measure (\<lambda>(y, m, d). nat (12 - m))") auto

declare split_year.simps [simp del] split_month.simps [simp del]

text \<open>The fields of \<open>struct tm\<close> that are written: years since 1900, months since January.\<close>

record broken_time =
  tm_year :: int
  tm_mon :: int
  tm_mday :: int
  tm_hour :: int
  tm_min :: int
  tm_sec :: int

definition localtime :: "(int \<Rightarrow> int) \<Rightarrow> int \<Rightarrow> broken_time" where
  "localtime off t =
     (let s = t + off t;
          (y, yday) = split_year 1970 (s div 86400);
          (m, mday) = split_month y 1 yday;
          r = s mod 86400
      in \<lparr>tm_year = y - 1900, tm_mon = m - 1, tm_mday = mday,
          tm_hour = r div 3600, tm_min = r mod 3600 div 60, tm_sec = r mod 60\<rparr>)"

definition two_digits :: "int \<Rightarrow> string" where
  "two_digits n = (if n < 10 then CHR ''0'' # to_string_int n else to_string_int n)"

text \<open>The format \<open>%Y-%m-%d %H:%M:%S\<close>.\<close>

definition put_time :: "broken_time \<Rightarrow> string" where
  "put_time t = to_string_int (tm_year t + 1900) @ ''-'' @ two_digits (tm_mon t + 1) @ ''-'' @
     two_digits (tm_mday t) @ '' '' @ two_digits (tm_hour t) @ '':'' @ two_digits (tm_min t) @ '':'' @
     two_digits (tm_sec t)"

definition time_string :: "(int \<Rightarrow> int) \<Rightarrow> int \<Rightarrow> string" where
  "time_string off now_ns = put_time (localtime off (timestamp_sec now_ns))"

subsection \<open>The calendar\<close>

text \<open>The days before a year (from 1970) in closed form, and before a month of a year.\<close>

definition days_to_year :: "int \<Rightarrow> int" where
  "days_to_year y = 365 * (y - 1970) + (y - 1) div 4 - (y - 1) div 100 + (y - 1) div 400 - 477"

definition days_to_month :: "int \<Rightarrow> int \<Rightarrow> int" where
  "days_to_month y m = sum_list (map (month_length y) [1..m - 1])"

lemma div_step:
  assumes "0 < (k::int)"
  shows "y div k = (y - 1) div k + of_bool (k dvd y)"
proof (cases "k dvd y")
  case True
  then obtain q where y: "y = k * q" by blast
  have "(y - 1) div k = q - 1"
    using assms y by (intro div_pos_pos_trivial int_div_pos_eq [of _ _ _ "k - 1"]) (auto simp: algebra_simps)
  then show ?thesis using y assms by simp
next
  case False
  then have r: "0 < y mod k" "y mod k < k"
    using assms pos_mod_sign [OF assms, of y] pos_mod_bound [OF assms, of y]
    by (auto simp: dvd_eq_mod_eq_0 order_less_le)
  have "(y - 1) div k = y div k"
    by (rule int_div_pos_eq [of _ _ _ "y mod k - 1"]) (use r in auto)
  then show ?thesis using False by simp
qed

lemma sum_step:
  "a = a' + p \<Longrightarrow> b = b' + q \<Longrightarrow> c = c' + r \<Longrightarrow>
     365 * (y + 1 - 1970) + a - b + c - 477 =
     365 * (y - 1970) + a' - b' + c' - 477 + 365 + p - q + (r :: int)"
  by simp

lemma days_to_next_year: "days_to_year (y + 1) = days_to_year y + year_length y"
proof -
  have dvds: "100 dvd y \<longrightarrow> 4 dvd y" "400 dvd y \<longrightarrow> 100 dvd y"
    using dvd_trans [of 4 100 y] dvd_trans [of 100 400 y] by simp_all
  have "y div 4 = (y - 1) div 4 + of_bool (4 dvd y)"
    "y div 100 = (y - 1) div 100 + of_bool (100 dvd y)"
    "y div 400 = (y - 1) div 400 + of_bool (400 dvd y)"
    by (rule div_step, simp)+
  then have "days_to_year (y + 1) = days_to_year y + 365 + of_bool (4 dvd y) - of_bool (100 dvd y) +
      of_bool (400 dvd y)"
    unfolding days_to_year_def add_diff_cancel_right' by (rule sum_step)
  moreover have "year_length y = 365 + of_bool (4 dvd y) - of_bool (100 dvd y) + of_bool (400 dvd y)"
    using dvds by (cases "400 dvd y"; cases "100 dvd y"; cases "4 dvd y")
      (simp_all add: year_length_def leap_def)
  ultimately show ?thesis by linarith
qed

lemma split_year_correct:
  "split_year y d = (y', d') \<Longrightarrow>
     0 \<le> d' \<and> d' < year_length y' \<and> days_to_year y' + d' = days_to_year y + d"
proof (induction y d rule: split_year.induct)
  case (1 y d)
  consider "d < 0" | "0 \<le> d" "d < year_length y" | "0 \<le> d" "year_length y \<le> d" by linarith
  then show ?case
  proof cases
    case 1
    with "1.IH"(1) "1.prems" days_to_next_year [of "y - 1"] show ?thesis
      by (simp add: split_year.simps [of y d])
  next
    case 2
    with "1.prems" show ?thesis by (simp add: split_year.simps [of y d])
  next
    case 3
    with "1.IH"(2) "1.prems" days_to_next_year [of y] show ?thesis
      by (simp add: split_year.simps [of y d])
  qed
qed

lemma days_to_next_month: "1 \<le> m \<Longrightarrow> days_to_month y (m + 1) = days_to_month y m + month_length y m"
  by (simp add: days_to_month_def upto_rec2)

lemma months_of_year: "days_to_month y 12 + month_length y 12 = year_length y"
proof -
  have "[1..11] = [1, 2, 3, 4, 5, 6, 7, 8, 9, 10, 11 :: int]" by (simp add: upto.simps)
  then show ?thesis by (simp add: days_to_month_def month_length_def year_length_def)
qed

lemma split_month_correct:
  "1 \<le> m \<Longrightarrow> m \<le> 12 \<Longrightarrow> 0 \<le> d \<Longrightarrow> days_to_month y m + d < year_length y \<Longrightarrow>
     split_month y m d = (m', d') \<Longrightarrow>
     1 \<le> m' \<and> m' \<le> 12 \<and> 1 \<le> d' \<and> d' \<le> month_length y m' \<and>
       days_to_month y m' + d' = days_to_month y m + d + 1"
proof (induction y m d rule: split_month.induct)
  case (1 y m d)
  show ?case
  proof (cases "m \<ge> 12 \<or> d < month_length y m")
    case True
    then have "m' = m" "d' = d + 1" using "1.prems"(5) by (simp_all add: split_month.simps [of y m d])
    moreover have "d < month_length y m" using True "1.prems"(2,4) months_of_year [of y] by auto
    ultimately show ?thesis using "1.prems" by simp
  next
    case False
    then have "split_month y (m + 1) (d - month_length y m) = (m', d')"
      using "1.prems"(5) by (simp add: split_month.simps [of y m d])
    from "1.IH" [OF False _ _ _ _ this] days_to_next_month [OF "1.prems"(1), of y] "1.prems"(1-4) False
    show ?thesis by simp
  qed
qed

subsection \<open>Reading the text back\<close>

text \<open>The second, on the local clock, that a text of the format names.\<close>

definition read_time :: "string \<Rightarrow> int" where
  "read_time s =
     (let n = (\<lambda>i k. int (digits_val (take k (drop i s))))
      in (((days_to_year (n 0 4) + days_to_month (n 0 4) (n 5 2) + n 8 2 - 1) * 24 +
            n 11 2) * 60 + n 14 2) * 60 + n 17 2)"

lemma length_dec_small: "k < 100 \<Longrightarrow> length (dec k) = (if k < 10 then 1 else 2)"
  by (simp add: dec.simps [of k] dec.simps [of "k div 10"] div_less_iff_less_mult)

lemma two_digits:
  assumes "0 \<le> n" "n < 100"
  shows "length (two_digits n) = 2" "digits_val (two_digits n) = nat n"
proof -
  have "length (dec (nat n)) = (if n < 10 then 1 else 2)"
    using assms length_dec_small [of "nat n"] by (simp add: nat_less_iff)
  then show "length (two_digits n) = 2"
    using assms by (auto simp: two_digits_def to_string_int_def split: if_splits)
  have "digits_val (CHR ''0'' # s) = digits_val s" for s
    by (simp add: digits_val_def char_code_def)
  then show "digits_val (two_digits n) = nat n"
    using assms by (simp add: two_digits_def to_string_int_def)
qed

lemma year_digits:
  assumes "1000 \<le> n" "n < 10000"
  shows "length (to_string_int n) = 4" "digits_val (to_string_int n) = nat n"
proof -
  define k where "k = nat n"
  have k: "1000 \<le> k" "k < 10000" using assms by (simp_all add: k_def)
  then have "10 \<le> k" "10 \<le> k div 10" "10 \<le> k div 10 div 10" "k div 10 div 10 div 10 < 10" by simp_all
  then have "length (dec k) = 4"
    by (simp add: dec.simps [of k] dec.simps [of "k div 10"] dec.simps [of "k div 10 div 10"]
        dec.simps [of "k div 10 div 10 div 10"] del: div_mult2_eq)
  then show "length (to_string_int n) = 4" "digits_val (to_string_int n) = nat n"
    using assms by (simp_all add: to_string_int_def k_def)
qed

lemma cut_fields:
  assumes "length a = 4" "length b = 2" "length c = 2" "length d = 2" "length e = 2" "length f = 2"
    and "s = a @ [x1] @ b @ [x2] @ c @ [x3] @ d @ [x4] @ e @ [x5] @ f"
  shows "take 4 (drop 0 s) = a" "take 2 (drop 5 s) = b" "take 2 (drop 8 s) = c"
    "take 2 (drop 11 s) = d" "take 2 (drop 14 s) = e" "take 2 (drop 17 s) = f" "length s = 19"
  using assms by (simp_all add: drop_Cons')

lemma join_fields:
  "r = 3600 * h + (60 * m + s) \<Longrightarrow> t = 86400 * d + r \<Longrightarrow>
     ((d * 24 + h) * 60 + m) * 60 + s = (t :: int)"
  by simp

text \<open>
  C37. Round trip: for every time from the year 1000 to 9999 on the local clock
  \<open>GetCurrentTimeString\<close> writes 19 characters that name the second: the calendar date and
  the time of day read back, by the closed formula of the Gregorian calendar, as the second
  of the clock with the offset of the time zone in force at that second.
\<close>

theorem time_string_round_trip:
  assumes "t = timestamp_sec now_ns"
    and "days_to_year 1000 * 86400 \<le> t + off t" "t + off t < days_to_year 10000 * 86400"
  shows "length (time_string off now_ns) = 19 \<and> read_time (time_string off now_ns) = t + off t"
proof -
  define s where "s = t + off t"
  obtain y yday where y: "split_year 1970 (s div 86400) = (y, yday)" by fastforce
  obtain m d where m: "split_month y 1 yday = (m, d)" by fastforce
  have yd: "0 \<le> yday" "yday < year_length y" "days_to_year y + yday = s div 86400"
    using split_year_correct [OF y] by (simp_all add: days_to_year_def)
  have md: "1 \<le> m" "m \<le> 12" "1 \<le> d" "d \<le> month_length y m" "days_to_month y m + d = yday + 1"
    using split_month_correct [OF _ _ yd(1) _ m] yd(2) by (simp_all add: days_to_month_def)
  have mono: "days_to_year a \<le> days_to_year b" if "a \<le> b" for a b :: int
    using that
  proof (induction b rule: int_ge_induct)
    case (step b)
    then show ?case using days_to_next_year [of b] year_length_pos [of b] by simp
  qed simp
  have "days_to_year 1000 \<le> s div 86400" "s div 86400 < days_to_year 10000"
    using assms(2,3) mult_div_mod_eq [of 86400 s] pos_mod_bound [of 86400 s] pos_mod_sign [of 86400 s]
    unfolding s_def [symmetric] by linarith+
  then have yr: "1000 \<le> y" "y < 10000"
    using mono [of 10000 y] mono [of "y + 1" 1000] yd days_to_next_year [of y] by linarith+
  have dm: "d < 100" using md(4) by (auto simp: month_length_def split: if_splits)
  define r where "r = s mod 86400"
  have r: "0 \<le> r" "r < 86400" by (simp_all add: r_def)
  then have clock: "0 \<le> r div 3600" "r div 3600 < 100" "0 \<le> r mod 3600 div 60" "r mod 3600 div 60 < 100"
    "0 \<le> r mod 60" "r mod 60 < 100"
    by (auto simp: pos_imp_zdiv_nonneg_iff div_less_iff_less_mult intro: order_less_trans [OF pos_mod_bound])
  have written: "time_string off now_ns = to_string_int y @ ''-'' @ two_digits m @ ''-'' @ two_digits d @
      '' '' @ two_digits (r div 3600) @ '':'' @ two_digits (r mod 3600 div 60) @ '':'' @ two_digits (r mod 60)"
    using y m
    by (simp add: time_string_def put_time_def localtime_def Let_def r_def s_def flip: assms(1))
  have bounds: "0 \<le> m" "m < 100" "0 \<le> d" using md(1-3) by simp_all
  have fields: "length (to_string_int y) = 4" "digits_val (to_string_int y) = nat y"
    "length (two_digits m) = 2" "digits_val (two_digits m) = nat m"
    "length (two_digits d) = 2" "digits_val (two_digits d) = nat d"
    "length (two_digits (r div 3600)) = 2" "digits_val (two_digits (r div 3600)) = nat (r div 3600)"
    "length (two_digits (r mod 3600 div 60)) = 2"
    "digits_val (two_digits (r mod 3600 div 60)) = nat (r mod 3600 div 60)"
    "length (two_digits (r mod 60)) = 2" "digits_val (two_digits (r mod 60)) = nat (r mod 60)"
    by (rule year_digits [OF yr] two_digits [OF bounds(1,2)] two_digits [OF bounds(3) dm]
          two_digits [OF clock(1,2)] two_digits [OF clock(3,4)] two_digits [OF clock(5,6)])+
  note cut = cut_fields [OF fields(1,3,5,7,9,11) written]
  have "read_time (time_string off now_ns) =
      (((days_to_year y + days_to_month y m + d - 1) * 24 + r div 3600) * 60 + r mod 3600 div 60) * 60 +
      r mod 60"
    unfolding read_time_def Let_def cut(1-6) fields
    using yr(1) bounds clock(1,3,5) by (simp only: int_nat_eq if_True) simp
  also have "days_to_year y + days_to_month y m + d - 1 = s div 86400" using yd md by simp
  also have "((s div 86400 * 24 + r div 3600) * 60 + r mod 3600 div 60) * 60 + r mod 60 = s"
  proof -
    have "r mod 3600 mod 60 = r mod 60" by (rule mod_mod_cancel) simp
    then have "r = 3600 * (r div 3600) + (60 * (r mod 3600 div 60) + r mod 60)"
      using mult_div_mod_eq [of 3600 r] mult_div_mod_eq [of 60 "r mod 3600"] by simp
    moreover have "s = 86400 * (s div 86400) + r" by (simp add: r_def)
    ultimately show ?thesis by (rule join_fields)
  qed
  finally show ?thesis using cut(7) by (simp add: s_def)
qed

theorem time_string_round_trip_witness:
  "time_string (\<lambda>t. 28800) 1709164800123456789 = ''2024-02-29 08:00:00'' \<and>
   read_time ''2024-02-29 08:00:00'' = 1709164800 + 28800"
proof -
  have t: "1709164800 = timestamp_sec 1709164800123456789" by (simp add: timestamp_sec_def signed_divide_int_def)
  have y: "split_year 1970 19782 = (2024, 59)"
    by (simp add: split_year.simps year_length_def leap_def)
  have m: "split_month 2024 1 59 = (2, 29)"
    by (simp add: split_month.simps month_length_def leap_def)
  have d: "digit 0 = CHR ''0''" "digit 2 = CHR ''2''" "digit 4 = CHR ''4''" "digit 8 = CHR ''8''"
    "digit 9 = CHR ''9''"
    by code_simp+
  have "time_string (\<lambda>t. 28800) 1709164800123456789 = ''2024-02-29 08:00:00''"
    by (simp add: time_string_def put_time_def localtime_def y m two_digits_def to_string_int_def
        dec.simps d flip: t)
  moreover have "length (time_string (\<lambda>t. 28800) 1709164800123456789) = 19 \<and>
      read_time (time_string (\<lambda>t. 28800) 1709164800123456789) = 1709164800 + 28800"
    using time_string_round_trip [OF t, of "\<lambda>t. 28800"] by (simp add: days_to_year_def)
  ultimately show ?thesis by simp
qed

end
