(* ===== verification/Tokens.thy ===== *)
theory Tokens
  imports Prelude
begin

section \<open>Redis and login tokens\<close>

text \<open>
  \<open>RedisClient\<close> of \<open>common/src/redis\<close>, a wrapper that turns the exceptions of the
  redis++ library into results, and \<open>TokenManager\<close> of the user service on top of it.
  The library is a parameter; a call gives a value or a \<open>sw::redis::Error\<close>
  (\<open>Inl\<close>). The client object is the one \<open>Connect\<close> made: the services end when it fails.
\<close>

subsection \<open>The client\<close>

record 'w redis_api =
  api_ping :: "string \<Rightarrow> int \<Rightarrow> string \<Rightarrow> int \<Rightarrow> int \<Rightarrow> 'w \<Rightarrow> (string + string) \<times> 'w"
  api_set :: "string \<Rightarrow> string \<Rightarrow> int option \<Rightarrow> 'w \<Rightarrow> (string + unit) \<times> 'w"
  api_get :: "string \<Rightarrow> 'w \<Rightarrow> (string + string option) \<times> 'w"
  api_del :: "string \<Rightarrow> 'w \<Rightarrow> (string + int) \<times> 'w"

text \<open>Connecting: options, a pool of ten connections, one ping.\<close>

definition redis_connect ::
  "'w redis_api \<Rightarrow> string \<Rightarrow> int \<Rightarrow> string \<Rightarrow> int \<Rightarrow> ('w, bool) comp" where
  "redis_connect api host port password db w =
     (case api_ping api host port password db 10 w of
        (Inr _, w') \<Rightarrow> (Ret True, w')
      | (Inl _, w') \<Rightarrow> (Ret False, w'))"

definition redis_set :: "'w redis_api \<Rightarrow> string \<Rightarrow> string \<Rightarrow> int \<Rightarrow> ('w, bool) comp" where
  "redis_set api key val expire_seconds w =
     (case api_set api key val (if expire_seconds > 0 then Some expire_seconds else None) w of
        (Inr _, w') \<Rightarrow> (Ret True, w')
      | (Inl _, w') \<Rightarrow> (Ret False, w'))"

definition redis_get :: "'w redis_api \<Rightarrow> string \<Rightarrow> ('w, string) comp" where
  "redis_get api key w =
     (case api_get api key w of
        (Inr (Some val), w') \<Rightarrow> (Ret val, w')
      | (Inr None, w') \<Rightarrow> (Ret [], w')
      | (Inl _, w') \<Rightarrow> (Ret [], w'))"

definition redis_delete :: "'w redis_api \<Rightarrow> string \<Rightarrow> ('w, bool) comp" where
  "redis_delete api key w =
     (case api_del api key w of
        (Inr n, w') \<Rightarrow> (Ret (n > 0), w')
      | (Inl _, w') \<Rightarrow> (Ret False, w'))"

text \<open>
  What Redis documents: the store maps keys to values with a time to live. A command that
  answers has been carried out, one that fails may have been; deleting counts the keys
  removed.
\<close>

type_synonym store = "string \<Rightarrow> (string \<times> int option) option"

definition redis_store :: "('w \<Rightarrow> store) \<Rightarrow> 'w redis_api \<Rightarrow> bool" where
  "redis_store kv api \<longleftrightarrow>
     (\<forall>k v t w r w'. api_set api k v t w = (r, w') \<longrightarrow>
        (r = Inr () \<longrightarrow> kv w' = (kv w)(k \<mapsto> (v, t))) \<and>
        (kv w' = kv w \<or> kv w' = (kv w)(k \<mapsto> (v, t)))) \<and>
     (\<forall>k w r w'. api_get api k w = (r, w') \<longrightarrow>
        kv w' = kv w \<and> (\<forall>x. r = Inr x \<longrightarrow> x = map_option fst (kv w k))) \<and>
     (\<forall>k w r w'. api_del api k w = (r, w') \<longrightarrow>
        (\<forall>n. r = Inr n \<longrightarrow> kv w' = (kv w)(k := None) \<and> n = (if kv w k = None then 0 else 1)) \<and>
        (kv w' = kv w \<or> kv w' = (kv w)(k := None)))"

lemma store_set:
  "redis_store kv api \<Longrightarrow> api_set api k v t w = (r, w') \<Longrightarrow>
     (r = Inr () \<longrightarrow> kv w' = (kv w)(k \<mapsto> (v, t))) \<and>
     (kv w' = kv w \<or> kv w' = (kv w)(k \<mapsto> (v, t)))"
  unfolding redis_store_def by (elim conjE) metis

lemma store_del:
  "redis_store kv api \<Longrightarrow> api_del api k w = (Inr n, w') \<Longrightarrow>
     kv w' = (kv w)(k := None) \<and> n = (if kv w k = None then 0 else 1)"
  unfolding redis_store_def by (elim conjE) metis

lemma redis_set_True:
  assumes "redis_store kv api" "redis_set api k v t w = (Ret True, w')"
  shows "kv w' = (kv w)(k \<mapsto> (v, if t > 0 then Some t else None))"
  using assms unfolding redis_store_def redis_set_def
  by (auto split: prod.splits sum.splits if_splits)

lemma redis_delete_Ret:
  assumes "redis_store kv api" "redis_delete api k w = (Ret b, w')"
  shows "(b \<longrightarrow> kv w k \<noteq> None \<and> kv w' = (kv w)(k := None)) \<and>
         (\<not> b \<longrightarrow> kv w' k = kv w k \<or> kv w' k = None)"
proof -
  obtain q v where q: "api_del api k w = (q, v)" by fastforce
  have law: "\<forall>n. q = Inr n \<longrightarrow> kv v = (kv w)(k := None) \<and> n = (if kv w k = None then 0 else 1)"
    "kv v = kv w \<or> kv v = (kv w)(k := None)"
    using assms(1) q unfolding redis_store_def by blast+
  show ?thesis
  proof (cases q)
    case (Inl e)
    then show ?thesis using law(2) assms(2) q by (auto simp: redis_delete_def)
  next
    case (Inr n)
    with law(1) have "kv v = (kv w)(k := None)" "n = (if kv w k = None then 0 else 1)" by blast+
    with Inr assms(2) q show ?thesis by (auto simp: redis_delete_def split: if_splits)
  qed
qed

subsection \<open>The token manager\<close>

definition token_expire_seconds :: int where
  "token_expire_seconds = 7 * 24 * 3600"

definition redis_key :: "u64 \<Rightarrow> string" where
  "redis_key uid = ''user:token:'' @ to_string_u64 uid"

definition token_text :: "u64 \<Rightarrow> int \<Rightarrow> int \<Rightarrow> int \<Rightarrow> string" where
  "token_text uid client_type ts rnd =
     ''TK_'' @ to_string_u64 uid @ ''_'' @ to_string_int client_type @ ''_'' @
     to_string_int ts @ ''_'' @ to_string_int rnd"

text \<open>The clock and the random generator of the standard library.\<close>

record 'w token_env =
  token_redis :: "'w redis_api"
  clock_ms :: "('w, int) comp"
  random_between :: "int \<Rightarrow> int \<Rightarrow> ('w, int) comp"

definition token_init :: "'w token_env \<Rightarrow> string \<Rightarrow> int \<Rightarrow> ('w, bool) comp" where
  "token_init env host port = redis_connect (token_redis env) host port [] 0"

definition generate_and_save_token :: "'w token_env \<Rightarrow> u64 \<Rightarrow> int \<Rightarrow> ('w, string) comp" where
  "generate_and_save_token env uid client_type =
     bind_comp (clock_ms env) (\<lambda>ts.
     bind_comp (random_between env 1000 9999) (\<lambda>rnd.
       (let token = token_text uid client_type ts rnd
        in bind_comp (redis_set (token_redis env) (redis_key uid) token token_expire_seconds)
             (\<lambda>ok. if \<not> ok then ret [] else ret token))))"

text \<open>The saved token is not read: the line that would is commented out in the source.\<close>

definition verify_token :: "'w token_env \<Rightarrow> u64 \<Rightarrow> string \<Rightarrow> ('w, bool) comp" where
  "verify_token env uid token =
     (let saved_token = token
      in if saved_token = [] then ret False
         else if saved_token \<noteq> token then ret False
         else bind_comp
                (redis_set (token_redis env) (redis_key uid) saved_token token_expire_seconds)
                (\<lambda>_. ret True))"

definition delete_token :: "'w token_env \<Rightarrow> u64 \<Rightarrow> ('w, bool) comp" where
  "delete_token env uid = redis_delete (token_redis env) (redis_key uid)"

subsection \<open>Token texts\<close>

lemma redis_key_inject [simp]: "redis_key u = redis_key v \<longleftrightarrow> u = v"
  by (simp add: redis_key_def)

lemma sep_inject:
  "c \<notin> set a \<Longrightarrow> c \<notin> set b \<Longrightarrow> a @ c # x = b @ c # y \<Longrightarrow> a = b \<and> x = y"
proof (induction a arbitrary: b)
  case Nil
  then show ?case by (cases b) auto
next
  case (Cons d a)
  then show ?case by (cases b) auto
qed

lemma token_text_nonempty [simp]: "token_text u ct ts r \<noteq> []"
  by (simp add: token_text_def)

lemma no_underscore:
  "CHR ''_'' \<notin> set (to_string_u64 u)" "CHR ''_'' \<notin> set (to_string_int i)"
  by (auto simp: to_string_u64_def to_string_int_def is_digit_def char_code_def
      dest!: dec_digits)

lemma u64_sep:
  "to_string_u64 u @ CHR ''_'' # x = to_string_u64 v @ CHR ''_'' # y \<longleftrightarrow> u = v \<and> x = y"
  using sep_inject [OF no_underscore(1) [of u] no_underscore(1) [of v], of x y] by auto

lemma int_sep:
  "to_string_int i @ CHR ''_'' # x = to_string_int j @ CHR ''_'' # y \<longleftrightarrow> i = j \<and> x = y"
  using sep_inject [OF no_underscore(2) [of i] no_underscore(2) [of j], of x y] by auto

text \<open>
  Tokens and the Redis keys they are stored under identify what they were made from:
  two tokens are equal only if user, client type, time and random number are, and two
  users never share a key.
\<close>

theorem tokens_distinct:
  "(token_text u ct ts r = token_text u' ct' ts' r' \<longleftrightarrow>
      u = u' \<and> ct = ct' \<and> ts = ts' \<and> r = r') \<and>
   (redis_key u = redis_key u' \<longleftrightarrow> u = u')"
  by (simp add: token_text_def u64_sep int_sep)

subsection \<open>What verification does\<close>

lemma verify_token_result:
  "verify_token env uid token w =
     (if token = [] then (Ret False, w)
      else (Ret True,
            snd (redis_set (token_redis env) (redis_key uid) token token_expire_seconds w)))"
  by (auto simp: verify_token_def bind_comp_def ret_def redis_set_def
      split: prod.splits outcome.splits sum.splits)

lemma redis_set_Ret: "\<exists>b. fst (redis_set api k v t w) = Ret b"
  by (auto simp: redis_set_def split: prod.splits sum.splits)

text \<open>
  Verification accepts any text but the empty one as the token of any user, whatever
  Redis holds, and when Redis obeys, the forged text replaces the token of the user.
\<close>

theorem verify_accepts_any_token:
  assumes "redis_store kv (token_redis env)" "token \<noteq> []"
    and "verify_token env uid token w = (r, w')"
  shows "r = Ret True \<and>
         (kv w' = kv w \<or> kv w' = (kv w)(redis_key uid \<mapsto> (token, Some 604800)))"
proof -
  have w': "r = Ret True" "w' = snd (redis_set (token_redis env) (redis_key uid) token 604800 w)"
    using assms(2,3) by (simp_all add: verify_token_result token_expire_seconds_def)
  obtain q v where q: "api_set (token_redis env) (redis_key uid) token (Some 604800) w = (q, v)"
    by fastforce
  then have "w' = v" using w'(2) by (auto simp: redis_set_def split: sum.splits)
  moreover have "kv v = kv w \<or> kv v = (kv w)(redis_key uid \<mapsto> (token, Some 604800))"
    using assms(1) q unfolding redis_store_def by blast
  ultimately show ?thesis using w'(1) by simp
qed

text \<open>A Redis server in memory that always answers.\<close>

definition mem_redis :: "('w \<Rightarrow> store) \<Rightarrow> ((store \<Rightarrow> store) \<Rightarrow> 'w \<Rightarrow> 'w) \<Rightarrow> 'w redis_api" where
  "mem_redis kv upd =
     \<lparr>api_ping = (\<lambda>h p pw d n w. (Inr ''PONG'', w)),
      api_set = (\<lambda>k v t w. (Inr (), upd (\<lambda>m. m(k \<mapsto> (v, t))) w)),
      api_get = (\<lambda>k w. (Inr (map_option fst (kv w k)), w)),
      api_del = (\<lambda>k w. (Inr (if kv w k = None then 0 else 1), upd (\<lambda>m. m(k := None)) w))\<rparr>"

lemma mem_redis_store:
  assumes "\<And>f w. kv (upd f w) = f (kv w)"
  shows "redis_store kv (mem_redis kv upd)"
  unfolding redis_store_def mem_redis_def using assms by (auto split: if_splits)

definition mem_token_env :: "store token_env" where
  "mem_token_env = \<lparr>token_redis = mem_redis id id, clock_ms = ret 1700000000000,
     random_between = (\<lambda>a b. ret a)\<rparr>"

lemma mem_token_env_store: "redis_store id (token_redis mem_token_env)"
  by (simp add: mem_token_env_def mem_redis_store)

theorem verify_accepts_any_token_witness:
  "fst (verify_token mem_token_env 7 ''forged''
     [redis_key 7 \<mapsto> (''TK_7_1_1700000000000_1000'', Some 604800)]) = Ret True"
proof -
  let ?w = "[redis_key 7 \<mapsto> (''TK_7_1_1700000000000_1000'', Some 604800)]"
  obtain r w' where "verify_token mem_token_env 7 ''forged'' ?w = (r, w')" by fastforce
  from verify_accepts_any_token [OF mem_token_env_store _ this] this show ?thesis by simp
qed

end
