(* ===== verification/User_Dao.thy ===== *)
theory User_Dao
  imports Data_Access
begin

section \<open>Users and friends in MySQL\<close>

text \<open>
  \<open>UserDao\<close> and \<open>FriendDao\<close> of \<open>user/src/dao\<close>. Every function is a guarded, retried
  lambda inside a \<open>try ... catch (...)\<close> that turns a failure into an empty result. The
  predicates at the end state what MySQL documents of the statements used here, on the
  tables of \<open>deploy/docker-compose/config/init_db.sql\<close>.
\<close>

subsection \<open>Data\<close>

record user =
  user_id :: u64
  username :: string
  password_hash :: string
  nickname :: string
  avatar_url :: string
  user_status :: int
  created_at :: int
  updated_at :: int

definition default_user :: user where
  "default_user = \<lparr>user_id = 0, username = [], password_hash = [], nickname = [],
     avatar_url = [], user_status = 0, created_at = 0, updated_at = 0\<rparr>"

record user_friend =
  link_id :: u64
  link_user :: u64
  link_friend :: u64
  link_status :: int
  link_created_at :: int

definition default_link :: user_friend where
  "default_link = \<lparr>link_id = 0, link_user = 0, link_friend = 0, link_status = 1,
     link_created_at = 0\<rparr>"

subsection \<open>Users\<close>

definition find_by_username_sql :: string where
  "find_by_username_sql = ''SELECT user_id, username, password_hash, nickname, avatar_url, status FROM users WHERE username = ?''"

definition find_by_id_sql :: string where
  "find_by_id_sql = ''SELECT user_id, username, password_hash, nickname, avatar_url, status FROM users WHERE user_id = ?''"

definition insert_user_sql :: string where
  "insert_user_sql = ''INSERT INTO users (username, password_hash, nickname, avatar_url) VALUES (?, ?, ?, ?)''"

definition last_id_sql :: string where
  "last_id_sql = ''SELECT LAST_INSERT_ID() AS id''"

definition update_user_sql :: string where
  "update_user_sql = ''UPDATE users SET nickname = ?, avatar_url = ?, status = ? WHERE user_id = ?''"

definition delete_user_sql :: string where
  "delete_user_sql = ''DELETE FROM users WHERE user_id = ?''"

definition read_user :: "sql_row \<Rightarrow> exn + user option" where
  "read_user r =
     sum_bind (row_u64 r ''user_id'') (\<lambda>i.
     sum_bind (row_string r ''username'') (\<lambda>n.
     sum_bind (row_string r ''password_hash'') (\<lambda>h.
     sum_bind (row_string r ''nickname'') (\<lambda>k.
     sum_bind (row_string r ''avatar_url'') (\<lambda>a.
     sum_bind (row_int r ''status'') (\<lambda>st.
       Inr (Some (default_user\<lparr>user_id := i, username := n, password_hash := h,
                    nickname := k, avatar_url := a, user_status := st\<rparr>))))))))"

definition find_by_username_body ::
  "'w mysql \<Rightarrow> string \<Rightarrow> conn \<Rightarrow> ('w, user option) comp" where
  "find_by_username_body db name c =
     bind_comp (query db c find_by_username_sql [SString name])
       (\<lambda>res. of_sum (first_row res None read_user))"

definition find_by_username :: "'w mysql \<Rightarrow> string \<Rightarrow> ('w app, user option) comp" where
  "find_by_username db name =
     catch_all (with_db db (find_by_username_body db name)) (ret None)"

definition find_by_id_body :: "'w mysql \<Rightarrow> u64 \<Rightarrow> conn \<Rightarrow> ('w, user option) comp" where
  "find_by_id_body db uid c =
     bind_comp (query db c find_by_id_sql [SU64 uid])
       (\<lambda>res. of_sum (first_row res None read_user))"

definition find_by_id :: "'w mysql \<Rightarrow> u64 \<Rightarrow> ('w app, user option) comp" where
  "find_by_id db uid = catch_all (with_db db (find_by_id_body db uid)) (ret None)"

definition insert_user_body :: "'w mysql \<Rightarrow> user \<Rightarrow> conn \<Rightarrow> ('w, u64) comp" where
  "insert_user_body db u c =
     bind_comp
       (update db c insert_user_sql
          [SString (username u), SString (password_hash u), SString (nickname u),
           SString (avatar_url u)])
       (\<lambda>_. bind_comp (query db c last_id_sql [])
          (\<lambda>res. of_sum (first_row res 0 (\<lambda>r. row_u64 r ''id''))))"

text \<open>The result of \<open>Insert\<close> and its output parameter.\<close>

definition insert_user :: "'w mysql \<Rightarrow> user \<Rightarrow> ('w app, bool \<times> u64) comp" where
  "insert_user db u =
     catch_all
       (bind_comp (with_db db (insert_user_body db u)) (\<lambda>i. ret (i \<noteq> 0, i)))
       (ret (False, 0))"

definition update_user :: "'w mysql \<Rightarrow> user \<Rightarrow> ('w app, bool) comp" where
  "update_user db u =
     catch_all
       (bind_comp
          (with_db_void db (\<lambda>c.
             update db c update_user_sql
               [SString (nickname u), SString (avatar_url u), SInt (user_status u),
                SU64 (user_id u)]))
          (\<lambda>_. ret True))
       (ret False)"

definition delete_user :: "'w mysql \<Rightarrow> u64 \<Rightarrow> ('w app, bool) comp" where
  "delete_user db uid =
     catch_all
       (bind_comp (with_db_void db (\<lambda>c. update db c delete_user_sql [SU64 uid]))
          (\<lambda>_. ret True))
       (ret False)"

subsection \<open>Friends\<close>

definition is_friend_sql :: string where
  "is_friend_sql = ''SELECT COUNT(1) AS cnt FROM user_friends WHERE user_id = ? AND friend_id = ? AND status = 1''"

definition add_friend_sql :: string where
  "add_friend_sql = ''INSERT INTO user_friends (user_id, friend_id, status) VALUES (?, ?, 1) ON DUPLICATE KEY UPDATE status = 1''"

definition remove_friend_sql :: string where
  "remove_friend_sql = ''DELETE FROM user_friends WHERE user_id = ? AND friend_id = ?''"

definition count_friends_sql :: string where
  "count_friends_sql = ''SELECT COUNT(1) AS cnt FROM user_friends WHERE user_id = ? AND status = 1''"

definition list_friends_sql :: string where
  "list_friends_sql = ''SELECT id, user_id, friend_id, status, created_at FROM user_friends WHERE user_id = ? AND status = 1 LIMIT ? OFFSET ?''"

definition is_friend_body :: "'w mysql \<Rightarrow> u64 \<Rightarrow> u64 \<Rightarrow> conn \<Rightarrow> ('w, bool) comp" where
  "is_friend_body db uid fid c =
     bind_comp (query db c is_friend_sql [SU64 uid, SU64 fid])
       (\<lambda>res. of_sum (first_row res False
          (\<lambda>r. sum_bind (row_int r ''cnt'') (\<lambda>n. Inr (n > 0)))))"

definition is_friend :: "'w mysql \<Rightarrow> u64 \<Rightarrow> u64 \<Rightarrow> ('w app, bool) comp" where
  "is_friend db uid fid = catch_all (with_db db (is_friend_body db uid fid)) (ret False)"

definition add_friend_body :: "'w mysql \<Rightarrow> u64 \<Rightarrow> u64 \<Rightarrow> conn \<Rightarrow> ('w, unit) comp" where
  "add_friend_body db uid fid c = update db c add_friend_sql [SU64 uid, SU64 fid]"

definition dao_add_friend :: "'w mysql \<Rightarrow> u64 \<Rightarrow> u64 \<Rightarrow> string \<Rightarrow> ('w app, bool) comp" where
  "dao_add_friend db uid fid verify_msg =
     catch_all
       (bind_comp (with_db_void db (add_friend_body db uid fid)) (\<lambda>_. ret True))
       (ret False)"

definition remove_friend :: "'w mysql \<Rightarrow> u64 \<Rightarrow> u64 \<Rightarrow> ('w app, bool) comp" where
  "remove_friend db uid fid =
     catch_all
       (bind_comp
          (with_db_void db (\<lambda>c. update db c remove_friend_sql [SU64 uid, SU64 fid]))
          (\<lambda>_. ret True))
       (ret False)"

text \<open>
  Products and differences of \<open>int\<close> on the two's complement machine the program is built
  for (the language leaves an overflow undefined).
\<close>

definition wrap32 :: "int \<Rightarrow> int" where
  "wrap32 i = sint (word_of_int i :: 32 word)"

definition page_offset :: "int \<Rightarrow> int \<Rightarrow> int" where
  "page_offset page page_size = wrap32 (wrap32 (page - 1) * page_size)"

definition read_link :: "sql_row \<Rightarrow> exn + user_friend" where
  "read_link r =
     sum_bind (row_u64 r ''id'') (\<lambda>i.
     sum_bind (row_u64 r ''user_id'') (\<lambda>u.
     sum_bind (row_u64 r ''friend_id'') (\<lambda>f.
     sum_bind (row_int r ''status'') (\<lambda>st.
       Inr (default_link\<lparr>link_id := i, link_user := u, link_friend := f, link_status := st\<rparr>)))))"

text \<open>
  \<open>total_count\<close> is the caller's variable, written when the count was read; the result
  vector is a local of the function. Both are captured by reference.
\<close>

definition set_total :: "int option \<Rightarrow> (('w \<times> int) \<times> 'l, unit) comp" where
  "set_total n = (\<lambda>((w, t), l). (Ret (), ((w, case n of None \<Rightarrow> t | Some n \<Rightarrow> n), l)))"

definition friend_list_body ::
  "'w mysql \<Rightarrow> u64 \<Rightarrow> int \<Rightarrow> int \<Rightarrow> conn \<Rightarrow> (('w \<times> int) \<times> user_friend list, unit) comp" where
  "friend_list_body db uid page page_size c =
     (let db' = lift_mysql (lift_mysql db)
      in bind_comp (query db' c count_friends_sql [SU64 uid]) (\<lambda>count_res.
         bind_comp (of_sum (first_row count_res None
            (\<lambda>r. sum_bind (row_int r ''cnt'') (\<lambda>n. Inr (Some n))))) (\<lambda>n.
         bind_comp (set_total n) (\<lambda>_.
         bind_comp (query db' c list_friends_sql
            [SU64 uid, SInt page_size, SInt (page_offset page page_size)]) (\<lambda>res.
           push_rows read_link (rows res) (rows_end res))))))"

text \<open>The result list and the value left in \<open>total_count\<close>, whose initial value is \<open>count0\<close>.\<close>

definition dao_friend_list ::
  "'w mysql \<Rightarrow> u64 \<Rightarrow> int \<Rightarrow> int \<Rightarrow> int \<Rightarrow> ('w app, user_friend list \<times> int) comp" where
  "dao_friend_list db uid page page_size count0 =
     bind_comp
       (with_local count0 (with_local []
          (catch_all
             (with_db_void (lift_mysql (lift_mysql db)) (friend_list_body db uid page page_size))
             (ret ()))))
       (\<lambda>((_, result), n). ret (result, n))"

subsection \<open>No call leaks a connection\<close>

lemma find_by_username_keeps [intro, keeps_intros]: "keeps (holds_conns M) (find_by_username db name)"
  unfolding find_by_username_def by blast

lemma find_by_id_keeps [intro, keeps_intros]: "keeps (holds_conns M) (find_by_id db uid)"
  unfolding find_by_id_def by blast

lemma insert_user_keeps [intro, keeps_intros]: "keeps (holds_conns M) (insert_user db u)"
  unfolding insert_user_def by blast

lemma is_friend_keeps [intro, keeps_intros]: "keeps (holds_conns M) (is_friend db uid fid)"
  unfolding is_friend_def by blast

lemma dao_add_friend_keeps [intro, keeps_intros]: "keeps (holds_conns M) (dao_add_friend db uid fid v)"
  unfolding dao_add_friend_def by blast

lemma update_user_keeps [intro, keeps_intros]: "keeps (holds_conns M) (update_user db u)"
  unfolding update_user_def by blast

lemma delete_user_keeps [intro, keeps_intros]: "keeps (holds_conns M) (delete_user db uid)"
  unfolding delete_user_def by blast

lemma remove_friend_keeps [intro, keeps_intros]: "keeps (holds_conns M) (remove_friend db uid fid)"
  unfolding remove_friend_def by blast

lemma dao_friend_list_keeps [intro, keeps_intros]:
  "keeps (holds_conns M) (dao_friend_list db uid page page_size count0)"
  unfolding dao_friend_list_def
  by (rule keeps_bind) (blast, auto split: prod.splits)

subsection \<open>What MySQL promises of the users table\<close>

text \<open>
  \<open>tbl w\<close> is the table \<open>users\<close> in world \<open>w\<close> and \<open>lid w c\<close> what
  \<open>LAST_INSERT_ID()\<close> is on connection \<open>c\<close>. Other threads and processes may add users before,
  during and after every call; \<open>between tbl w t w'\<close>: the table was \<open>t\<close> at a moment of a call that
  began in \<open>w\<close> and ended in \<open>w'\<close>. Names are compared by the collation of the
  column, \<open>coll\<close>. A query that returns gives the row that matches at such a moment, with the
  columns it was asked for; an insertion that returns found no row with the name (the unique
  key) and has added one under a new identifier at such a moment; one that throws has added
  the row or not. The connection is the thread's own while it works on it, so nobody else
  changes its \<open>LAST_INSERT_ID()\<close>.
\<close>

definition grown :: "('w \<Rightarrow> 'r list) \<Rightarrow> 'w \<Rightarrow> 'w \<Rightarrow> bool" where
  "grown tbl w w' \<longleftrightarrow> (\<exists>ys. tbl w' = tbl w @ ys)"

definition between :: "('w \<Rightarrow> 'r list) \<Rightarrow> 'w \<Rightarrow> 'r list \<Rightarrow> 'w \<Rightarrow> bool" where
  "between tbl w t w' \<longleftrightarrow> prefix (tbl w) t \<and> prefix t (tbl w')"

definition by_name :: "(string \<Rightarrow> string) \<Rightarrow> user list \<Rightarrow> string \<Rightarrow> user option" where
  "by_name coll t name = List.find (\<lambda>u. coll (username u) = coll name) t"

definition by_id :: "user list \<Rightarrow> u64 \<Rightarrow> user option" where
  "by_id t uid = List.find (\<lambda>u. user_id u = uid) t"

definition new_row :: "u64 \<Rightarrow> string \<Rightarrow> string \<Rightarrow> string \<Rightarrow> string \<Rightarrow> user" where
  "new_row i n h k a = default_user\<lparr>user_id := i, username := n, password_hash := h,
     nickname := k, avatar_url := a\<rparr>"

definition shows_user :: "sql_row \<Rightarrow> user \<Rightarrow> bool" where
  "shows_user r u \<longleftrightarrow>
     row_u64 r ''user_id'' = Inr (user_id u) \<and> row_string r ''username'' = Inr (username u) \<and>
     row_string r ''password_hash'' = Inr (password_hash u) \<and>
     row_string r ''nickname'' = Inr (nickname u) \<and>
     row_string r ''avatar_url'' = Inr (avatar_url u) \<and>
     row_int r ''status'' = Inr (user_status u)"

definition answers :: "result_set \<Rightarrow> user option \<Rightarrow> bool" where
  "answers rs u \<longleftrightarrow>
     (case u of
        None \<Rightarrow> rows rs = [] \<and> rows_end rs = None
      | Some u \<Rightarrow> (\<exists>r rest. rows rs = r # rest \<and> shows_user r u))"

definition adds_row ::
  "(string \<Rightarrow> string) \<Rightarrow> ('w \<Rightarrow> user list) \<Rightarrow> ('w \<Rightarrow> conn \<Rightarrow> u64) \<Rightarrow> conn \<Rightarrow>
   string \<Rightarrow> string \<Rightarrow> string \<Rightarrow> string \<Rightarrow> 'w \<Rightarrow> 'w \<Rightarrow> bool" where
  "adds_row coll tbl lid c n h k a w w' \<longleftrightarrow>
     (\<exists>t i. prefix (tbl w) t \<and> by_name coll t n = None \<and> i \<noteq> 0 \<and> by_id t i = None \<and>
        prefix (t @ [new_row i n h k a]) (tbl w') \<and> lid w' c = i)"

definition users_table ::
  "(string \<Rightarrow> string) \<Rightarrow> ('w \<Rightarrow> user list) \<Rightarrow> ('w \<Rightarrow> conn \<Rightarrow> u64) \<Rightarrow> 'w mysql \<Rightarrow> bool" where
  "users_table coll tbl lid db \<longleftrightarrow>
     (\<forall>c stmt w r w'. prepare db c stmt w = (r, w') \<longrightarrow> grown tbl w w' \<and> lid w' c = lid w c) \<and>
     (\<forall>c stmt args w r w'. execute_query db c stmt args w = (r, w') \<longrightarrow>
        grown tbl w w' \<and> lid w' c = lid w c) \<and>
     (\<forall>c n w rs w'. execute_query db c find_by_username_sql [SString n] w = (Ret rs, w') \<longrightarrow>
        (\<exists>t. between tbl w t w' \<and> answers rs (by_name coll t n))) \<and>
     (\<forall>c i w rs w'. execute_query db c find_by_id_sql [SU64 i] w = (Ret rs, w') \<longrightarrow>
        (\<exists>t. between tbl w t w' \<and> answers rs (by_id t i))) \<and>
     (\<forall>c w rs w'. execute_query db c last_id_sql [] w = (Ret rs, w') \<longrightarrow>
        (\<exists>r rest. rows rs = r # rest \<and> row_u64 r ''id'' = Inr (lid w c))) \<and>
     (\<forall>c n h k a w r w'.
        execute_update db c insert_user_sql [SString n, SString h, SString k, SString a] w = (r, w') \<longrightarrow>
        (r = Ret () \<longrightarrow> adds_row coll tbl lid c n h k a w w') \<and> grown tbl w w') \<and>
     (\<forall>ms w. grown tbl w (pause_for db ms w))"

lemma grown_prefix: "grown tbl w w' \<longleftrightarrow> prefix (tbl w) (tbl w')"
  by (auto simp: grown_def prefix_def)

lemma between_widen:
  "between tbl v t v' \<Longrightarrow> grown tbl w v \<Longrightarrow> grown tbl v' w' \<Longrightarrow> between tbl w t w'"
  by (auto simp: between_def grown_prefix intro: prefix_order.order_trans)

lemma grown_refl [simp]: "reflp (grown tbl)"
  by (simp add: reflp_def grown_def)

lemma grown_trans [simp]: "transp (grown tbl)"
  by (auto simp: transp_def grown_def)

lemma by_name_prefix:
  "prefix t t' \<Longrightarrow> by_name coll t n = Some u \<Longrightarrow> by_name coll t' n = Some u"
proof -
  have "List.find P xs = Some u \<Longrightarrow> List.find P (xs @ ys) = Some u" for P and xs ys :: "user list"
    by (induction xs) (auto split: if_splits)
  then show "prefix t t' \<Longrightarrow> by_name coll t n = Some u \<Longrightarrow> by_name coll t' n = Some u"
    by (auto simp: prefix_def by_name_def)
qed

lemma grown_by_name:
  "grown tbl w w' \<Longrightarrow> by_name coll (tbl w) n = Some u \<Longrightarrow> by_name coll (tbl w') n = Some u"
  unfolding grown_prefix by (rule by_name_prefix)

lemma by_name_new:
  assumes "by_name coll t n = None" "coll (username u) = coll n"
  shows "by_name coll (t @ [u]) n = Some u"
proof -
  have "List.find P xs = None \<Longrightarrow> P u \<Longrightarrow> List.find P (xs @ [u]) = Some u" for P xs
    by (induction xs) (auto split: if_splits)
  with assms show ?thesis by (simp add: by_name_def)
qed

text \<open>What a row read back is: the timestamps are not selected.\<close>

definition selected :: "user \<Rightarrow> user" where
  "selected u = u\<lparr>created_at := 0, updated_at := 0\<rparr>"

lemma read_user_shows: "shows_user r u \<Longrightarrow> read_user r = Inr (Some (selected u))"
  by (simp add: shows_user_def read_user_def default_user_def selected_def)

lemma first_row_shows: "answers rs u \<Longrightarrow> first_row rs None read_user = Inr (map_option selected u)"
  by (auto simp: answers_def first_row_def read_user_shows split: option.splits)

lemma users_prepare:
  "users_table coll tbl lid db \<Longrightarrow> prepare db c stmt w = (r, w') \<Longrightarrow>
     grown tbl w w' \<and> lid w' c = lid w c"
  unfolding users_table_def by (elim conjE) metis

lemma users_query:
  "users_table coll tbl lid db \<Longrightarrow> execute_query db c stmt args w = (r, w') \<Longrightarrow>
     grown tbl w w' \<and> lid w' c = lid w c"
  unfolding users_table_def by (elim conjE) metis

lemma users_insert:
  "users_table coll tbl lid db \<Longrightarrow>
   execute_update db c insert_user_sql [SString n, SString h, SString k, SString a] w = (r, w') \<Longrightarrow>
     (r = Ret () \<longrightarrow> adds_row coll tbl lid c n h k a w w') \<and> grown tbl w w'"
  unfolding users_table_def by (elim conjE) metis

lemma users_find:
  assumes "users_table coll tbl lid db"
  shows "execute_query db c find_by_username_sql [SString n] w = (Ret rs, w') \<Longrightarrow>
      \<exists>t. between tbl w t w' \<and> answers rs (by_name coll t n)"
    "execute_query db c find_by_id_sql [SU64 i] w = (Ret rs, w') \<Longrightarrow>
      \<exists>t. between tbl w t w' \<and> answers rs (by_id t i)"
  using assms unfolding users_table_def by (elim conjE; metis)+

lemma find_by_username_body_Ret:
  assumes "users_table coll tbl lid db" "find_by_username_body db n c w = (Ret x, w')"
  shows "\<exists>t. between tbl w t w' \<and> x = map_option selected (by_name coll t n)"
proof -
  obtain rs w1 w2 where "prepare db c find_by_username_sql w = (Ret (), w1)"
    "execute_query db c find_by_username_sql [SString n] w1 = (Ret rs, w2)"
    "of_sum (first_row rs None read_user) w2 = (Ret x, w')"
    using assms(2) by (auto simp: find_by_username_body_def query_def bind_comp_Ret)
  moreover from this obtain t where "between tbl w1 t w2" "answers rs (by_name coll t n)"
    using users_find(1) [OF assms(1)] by blast
  ultimately show ?thesis
    using users_prepare [OF assms(1)]
    by (intro exI [of _ t]) (auto simp: first_row_shows ret_def grown_def intro: between_widen)
qed

lemma find_by_id_body_Ret:
  assumes "users_table coll tbl lid db" "find_by_id_body db i c w = (Ret x, w')"
  shows "\<exists>t. between tbl w t w' \<and> x = map_option selected (by_id t i)"
proof -
  obtain rs w1 w2 where "prepare db c find_by_id_sql w = (Ret (), w1)"
    "execute_query db c find_by_id_sql [SU64 i] w1 = (Ret rs, w2)"
    "of_sum (first_row rs None read_user) w2 = (Ret x, w')"
    using assms(2) by (auto simp: find_by_id_body_def query_def bind_comp_Ret)
  moreover from this obtain t where "between tbl w1 t w2" "answers rs (by_id t i)"
    using users_find(2) [OF assms(1)] by blast
  ultimately show ?thesis
    using users_prepare [OF assms(1)]
    by (intro exI [of _ t]) (auto simp: first_row_shows ret_def grown_def intro: between_widen)
qed

lemma prepare_grown: "users_table coll tbl lid db \<Longrightarrow> world_rel (grown tbl) (prepare db c stmt)"
  unfolding world_rel_def by (intro allI impI) (drule (1) users_prepare, elim conjE)

lemma query_grown: "users_table coll tbl lid db \<Longrightarrow> world_rel (grown tbl) (query db c stmt args)"
  unfolding query_def
proof (rule world_rel_bind [OF prepare_grown])
  assume "users_table coll tbl lid db"
  from users_query [OF this] show "world_rel (grown tbl) (execute_query db c stmt args)"
    unfolding world_rel_def by blast
qed simp_all

lemma insert_grown:
  assumes "users_table coll tbl lid db"
  shows "world_rel (grown tbl)
           (update db c insert_user_sql [SString n, SString h, SString k, SString a])"
  unfolding update_def
proof (rule world_rel_bind [OF prepare_grown [OF assms]])
  show "world_rel (grown tbl)
      (execute_update db c insert_user_sql [SString n, SString h, SString k, SString a])"
    unfolding world_rel_def using users_insert [OF assms] by blast
qed simp

lemma find_by_username_grown:
  "users_table coll tbl lid db \<Longrightarrow> world_rel (grown tbl) (find_by_username_body db n c)"
  unfolding find_by_username_body_def
  by (intro world_rel_bind query_grown world_rel_of_sum) simp_all

lemma find_by_id_grown:
  "users_table coll tbl lid db \<Longrightarrow> world_rel (grown tbl) (find_by_id_body db i c)"
  unfolding find_by_id_body_def
  by (intro world_rel_bind query_grown world_rel_of_sum) simp_all

lemma insert_user_body_grown:
  "users_table coll tbl lid db \<Longrightarrow> world_rel (grown tbl) (insert_user_body db u c)"
  unfolding insert_user_body_def
  by (intro world_rel_bind insert_grown query_grown world_rel_of_sum) simp_all

lemma pause_grown: "users_table coll tbl lid db \<Longrightarrow> grown tbl w (pause_for db ms w)"
  by (simp add: users_table_def)

lemma insert_user_body_Ret:
  assumes "users_table coll tbl lid db" "insert_user_body db u c w = (Ret i, w')"
  shows "i \<noteq> 0 \<and> (\<exists>t. prefix (tbl w) t \<and> by_name coll t (username u) = None \<and>
           prefix (t @ [new_row i (username u) (password_hash u) (nickname u) (avatar_url u)])
             (tbl w'))"
proof -
  let ?args = "[SString (username u), SString (password_hash u), SString (nickname u),
      SString (avatar_url u)]"
  obtain w1 w2 w3 rs w4 where p: "prepare db c insert_user_sql w = (Ret (), w1)"
    and x: "execute_update db c insert_user_sql ?args w1 = (Ret (), w2)"
    and q: "prepare db c last_id_sql w2 = (Ret (), w3)"
    and l: "execute_query db c last_id_sql [] w3 = (Ret rs, w4)"
    and r: "of_sum (first_row rs 0 (\<lambda>r. row_u64 r ''id'')) w4 = (Ret i, w')"
    using assms(2) by (auto simp: insert_user_body_def query_def update_def bind_comp_Ret)
  obtain row rest where row: "rows rs = row # rest" "row_u64 row ''id'' = Inr (lid w3 c)"
    using assms(1) l unfolding users_table_def by metis
  have i: "i = lid w2 c" "w' = w4"
    using r row users_prepare [OF assms(1) q] by (simp_all add: first_row_def ret_def)
  have "adds_row coll tbl lid c (username u) (password_hash u) (nickname u) (avatar_url u) w1 w2"
    using users_insert [OF assms(1) x] by simp
  moreover have "prefix (tbl w) (tbl w1)" "prefix (tbl w2) (tbl w')"
    using users_prepare [OF assms(1) p] users_prepare [OF assms(1) q] users_query [OF assms(1) l] i(2)
    by (auto simp: grown_prefix intro: prefix_order.order_trans)
  ultimately show ?thesis
    unfolding adds_row_def i(1) by (metis prefix_order.order_trans)
qed

subsection \<open>What MySQL promises of the friends table\<close>

text \<open>
  \<open>links w\<close> holds the pairs with an active row in \<open>user_friends\<close>. Counting a pair gives
  one or zero (the key is unique); the insertion makes the pair active. Nobody else
  changes the table while a thread pauses.
\<close>

definition friends_table :: "('w \<Rightarrow> (u64 \<times> u64) set) \<Rightarrow> 'w mysql \<Rightarrow> bool" where
  "friends_table links db \<longleftrightarrow>
     (\<forall>c stmt w r w'. prepare db c stmt w = (r, w') \<longrightarrow> links w' = links w) \<and>
     (\<forall>c stmt args w r w'. execute_query db c stmt args w = (r, w') \<longrightarrow> links w' = links w) \<and>
     (\<forall>c u f w rs w'. execute_query db c is_friend_sql [SU64 u, SU64 f] w = (Ret rs, w') \<longrightarrow>
        (\<exists>r rest. rows rs = r # rest \<and>
           row_int r ''cnt'' = Inr (if (u, f) \<in> links w then 1 else 0))) \<and>
     (\<forall>c u f w r w'. execute_update db c add_friend_sql [SU64 u, SU64 f] w = (r, w') \<longrightarrow>
        (r = Ret () \<longrightarrow> links w' = insert (u, f) (links w)) \<and>
        (links w' = links w \<or> links w' = insert (u, f) (links w))) \<and>
     (\<forall>ms w. links (pause_for db ms w) = links w)"

definition linked :: "('w \<Rightarrow> (u64 \<times> u64) set) \<Rightarrow> u64 \<times> u64 \<Rightarrow> 'w \<Rightarrow> 'w \<Rightarrow> bool" where
  "linked links p w w' \<longleftrightarrow> links w' = links w \<or> links w' = insert p (links w)"

lemma linked_refl [simp]: "reflp (linked links p)"
  by (simp add: reflp_def linked_def)

lemma linked_trans [simp]: "transp (linked links p)"
  by (auto simp: transp_def linked_def)

lemma friends_query:
  assumes "friends_table links db" "query db c stmt args w = (r, w')"
  shows "links w' = links w"
proof -
  have p: "links v = links u" if "prepare db c stmt u = (q, v)" for u q v
    using assms(1) that unfolding friends_table_def by (elim conjE) metis
  have e: "links v = links u" if "execute_query db c stmt args u = (q, v)" for u q v
    using assms(1) that unfolding friends_table_def by (elim conjE) metis
  show ?thesis
    using assms(2) p e by (auto simp: query_def bind_comp_def split: prod.splits outcome.splits)
qed

lemma friends_update:
  assumes "friends_table links db" "add_friend_body db u f c w = (r, w')"
  shows "(r = Ret () \<longrightarrow> links w' = insert (u, f) (links w)) \<and> linked links (u, f) w w'"
proof -
  have p: "links y = links x" if "prepare db c stmt x = (q, y)" for stmt x q y
    using assms(1) that unfolding friends_table_def by (elim conjE) metis
  have e: "(q = Ret () \<longrightarrow> links y = insert (u, f) (links x)) \<and>
      (links y = links x \<or> links y = insert (u, f) (links x))"
    if "execute_update db c add_friend_sql [SU64 u, SU64 f] x = (q, y)" for x q y
    using assms(1) that unfolding friends_table_def by (elim conjE) metis
  obtain q y where q: "prepare db c add_friend_sql w = (q, y)" by fastforce
  show ?thesis
    using assms(2) q p [OF q] e [of y]
    by (cases q) (auto simp: add_friend_body_def update_def bind_comp_def linked_def)
qed

subsection \<open>The tables in memory\<close>

text \<open>
  An instance of the two contracts: the tables in lists, a server that always answers. It
  shows that the contracts can be met.
\<close>

record mem =
  mem_users :: "user list"
  mem_last :: "u64"
  mem_links :: "(u64 \<times> u64) list"
  mem_kv :: "string \<Rightarrow> (string \<times> int option) option"

definition column :: "(string \<times> 'a) list \<Rightarrow> string \<Rightarrow> exn + 'a" where
  "column kvs k = (case map_of kvs k of None \<Rightarrow> Inl (StdException ''column'') | Some v \<Rightarrow> Inr v)"

definition user_row :: "user \<Rightarrow> sql_row" where
  "user_row u =
     \<lparr>row_u64 = column [(''user_id'', user_id u)],
      row_string = column [(''username'', username u), (''password_hash'', password_hash u),
        (''nickname'', nickname u), (''avatar_url'', avatar_url u)],
      row_int = column [(''status'', user_status u)]\<rparr>"

definition number_row :: "string \<Rightarrow> u64 \<Rightarrow> int \<Rightarrow> sql_row" where
  "number_row k x n = \<lparr>row_u64 = column [(k, x)], row_string = column [], row_int = column [(k, n)]\<rparr>"

definition user_rows :: "user option \<Rightarrow> result_set" where
  "user_rows u =
     (case u of
        None \<Rightarrow> \<lparr>rows = [], rows_end = None\<rparr>
      | Some u \<Rightarrow> \<lparr>rows = [user_row u], rows_end = None\<rparr>)"

definition number_rows :: "string \<Rightarrow> u64 \<Rightarrow> int \<Rightarrow> result_set" where
  "number_rows k x n = \<lparr>rows = [number_row k x n], rows_end = None\<rparr>"

fun mem_answer :: "string \<Rightarrow> sql_val list \<Rightarrow> mem \<Rightarrow> result_set" where
  "mem_answer stmt [] m = number_rows ''id'' (mem_last m) 0"
| "mem_answer stmt [SString n] m = user_rows (by_name id (mem_users m) n)"
| "mem_answer stmt [SU64 i] m = user_rows (by_id (mem_users m) i)"
| "mem_answer stmt [SU64 u, SU64 f] m =
     number_rows ''cnt'' 0 (if (u, f) \<in> set (mem_links m) then 1 else 0)"
| "mem_answer stmt args m = \<lparr>rows = [], rows_end = None\<rparr>"

fun mem_insert :: "sql_val list \<Rightarrow> (mem, unit) comp" where
  "mem_insert [SString n, SString h, SString k, SString a] m =
     (let i = word_of_nat (Suc (length (mem_users m)))
      in if by_name id (mem_users m) n \<noteq> None \<or> i = 0 \<or> by_id (mem_users m) i \<noteq> None
         then (Exc (StdException ''Duplicate entry''), m)
         else (Ret (), m\<lparr>mem_users := mem_users m @ [new_row i n h k a], mem_last := i\<rparr>))"
| "mem_insert [SU64 u, SU64 f] m = (Ret (), m\<lparr>mem_links := (u, f) # mem_links m\<rparr>)"
| "mem_insert args m = (Ret (), m)"

definition mem_db :: "mem mysql" where
  "mem_db =
     \<lparr>prepare = (\<lambda>c stmt. ret ()),
      execute_query = (\<lambda>c stmt args m. (Ret (mem_answer stmt args m), m)),
      execute_update = (\<lambda>c stmt args. mem_insert args),
      pause_for = (\<lambda>ms m. m)\<rparr>"

lemma answers_user_rows [simp]: "answers (user_rows u) u"
  by (auto simp: answers_def user_rows_def user_row_def shows_user_def column_def split: option.splits)

text \<open>A server like it whose \<open>LAST_INSERT_ID\<close> query always fails.\<close>

definition half_db :: "mem mysql" where
  "half_db = mem_db\<lparr>execute_query := (\<lambda>c stmt args m.
     if args = [] then (Exc (StdException ''Lost connection''), m)
     else (Ret (mem_answer stmt args m), m))\<rparr>"

lemma mem_insert_adds:
  assumes "mem_insert [SString n, SString h, SString k, SString a] w = (r, w')"
  shows "(r = Ret () \<longrightarrow> adds_row id mem_users (\<lambda>m c. mem_last m) c n h k a w w') \<and>
         grown mem_users w w'"
  using assms by (auto simp: Let_def adds_row_def grown_def split: if_splits)

lemma between_same [simp]: "between tbl w t w \<longleftrightarrow> t = tbl w"
  by (auto simp: between_def prefix_order.eq_iff)

lemma between_const: "between tbl w t w' \<Longrightarrow> tbl w' = tbl w \<Longrightarrow> t = tbl w"
  by (auto simp: between_def prefix_order.eq_iff)

lemma grown_same [simp]: "grown tbl w w"
  by (simp add: grown_def)

lemma mem_db_users: "users_table id mem_users (\<lambda>m c. mem_last m) mem_db"
  using mem_insert_adds
  by (simp add: users_table_def mem_db_def ret_def number_rows_def number_row_def column_def
      del: mem_insert.simps)

lemma half_db_users: "users_table id mem_users (\<lambda>m c. mem_last m) half_db"
  using mem_insert_adds
  by (simp add: users_table_def half_db_def mem_db_def ret_def del: mem_insert.simps split: if_splits)

text \<open>A busy server: whenever a statement is prepared somebody else adds a user.\<close>

definition add_guest :: "mem \<Rightarrow> mem" where
  "add_guest m =
     (let n = length (mem_users m)
      in m\<lparr>mem_users := mem_users m @
            [new_row (word_of_nat (Suc n)) (''guest'' @ dec n) ''-'' ''Guest'' []]\<rparr>)"

definition busy_db :: "mem mysql" where
  "busy_db = mem_db\<lparr>prepare := (\<lambda>c stmt m. (Ret (), add_guest m))\<rparr>"

lemma busy_db_users: "users_table id mem_users (\<lambda>m c. mem_last m) busy_db"
  using mem_insert_adds
  by (simp add: users_table_def busy_db_def mem_db_def ret_def number_rows_def number_row_def column_def
      add_guest_def Let_def grown_def del: mem_insert.simps)

lemma mem_db_friends: "friends_table (\<lambda>m. set (mem_links m)) mem_db"
  by (simp add: friends_table_def mem_db_def ret_def number_rows_def number_row_def column_def)

end
