(* ===== verification/User_Service.thy ===== *)
theory User_Service
  imports User_Dao Tokens Config
begin

section \<open>Accounts and friends\<close>

text \<open>
  \<open>AuthService\<close> and \<open>FriendService\<close> of \<open>user/src/service\<close>, with the facades
  \<open>AuthManager\<close> and \<open>FriendManager\<close>. The bcrypt and JSON libraries, the clock and the
  random generator are parameters.
\<close>

subsection \<open>The services\<close>

datatype json = JUInt u64 | JString string | JInt int | JObject "(string \<times> json) list"

record 'w user_env =
  user_db :: "'w mysql"
  user_tokens :: "'w token_env"
  bcrypt_hash :: "string \<Rightarrow> int \<Rightarrow> ('w, string) comp"
  bcrypt_validate :: "string \<Rightarrow> string \<Rightarrow> bool"
  write_json :: "json \<Rightarrow> string"

text \<open>The pool's settings, as both services that own one read them.\<close>

definition init_mysql_pool :: "'w mysql_driver \<Rightarrow> config_map \<Rightarrow> ('w app, bool) comp" where
  "init_mysql_pool drv cfg =
     pool_initialize drv
       (get_string cfg ''dependencies.mysql.host'' ''127.0.0.1'')
       (get_int cfg ''dependencies.mysql.port'' 3306)
       (get_string cfg ''dependencies.mysql.user'' ''root'')
       (get_string cfg ''dependencies.mysql.password'' [])
       (get_string cfg ''dependencies.mysql.database'' ''chat_db'')
       (get_int cfg ''dependencies.mysql.pool_size'' 10)"

definition auth_init :: "'w mysql_driver \<Rightarrow> config_map \<Rightarrow> ('w app, bool) comp" where
  "auth_init drv cfg =
     bind_comp (init_mysql_pool drv cfg) (\<lambda>ok. if \<not> ok then ret False else ret True)"

definition hash_password :: "'w user_env \<Rightarrow> string \<Rightarrow> ('w, string) comp" where
  "hash_password env plain_text = bcrypt_hash env plain_text 12"

definition validate_password :: "'w user_env \<Rightarrow> string \<Rightarrow> string \<Rightarrow> bool" where
  "validate_password env plain_text hash_pass = bcrypt_validate env plain_text hash_pass"

definition register ::
  "'w user_env \<Rightarrow> string \<Rightarrow> string \<Rightarrow> string \<Rightarrow> ('w app, bool \<times> string \<times> u64) comp" where
  "register env name password nick =
     bind_comp (find_by_username (user_db env) name) (\<lambda>existing.
       if existing \<noteq> None then ret (False, ''USER_ALREADY_EXISTS'', 0)
       else
         bind_comp (on_world (hash_password env password)) (\<lambda>hashed_pw.
         bind_comp
           (insert_user (user_db env)
              (default_user\<lparr>username := name, password_hash := hashed_pw, nickname := nick,
                 avatar_url := ''http://mock/avatar.jpg''\<rparr>)) (\<lambda>(ok, new_user_id).
           if \<not> ok \<or> new_user_id = 0 then ret (False, ''SERVER_INTERNAL_ERROR'', 0)
           else ret (True, ''SUCCESS'', new_user_id))))"

definition user_info :: "user \<Rightarrow> json" where
  "user_info u =
     JObject [(''user_id'', JUInt (user_id u)), (''username'', JString (username u)),
       (''nickname'', JString (nickname u)), (''avatar_url'', JString (avatar_url u)),
       (''status'', JInt (user_status u))]"

definition login ::
  "'w user_env \<Rightarrow> string \<Rightarrow> string \<Rightarrow> int \<Rightarrow> ('w app, bool \<times> string \<times> string \<times> string) comp" where
  "login env name password client_type =
     bind_comp (find_by_username (user_db env) name) (\<lambda>user_opt.
       case user_opt of
         None \<Rightarrow> ret (False, ''USER_NOT_FOUND'', [], [])
       | Some u \<Rightarrow>
           (if \<not> validate_password env password (password_hash u) then
              ret (False, ''PASSWORD_ERROR'', [], [])
            else
              bind_comp (on_world (generate_and_save_token (user_tokens env) (user_id u) client_type))
                (\<lambda>new_token.
                   if new_token = [] then ret (False, ''SERVER_INTERNAL_ERROR'', [], [])
                   else ret (True, ''SUCCESS'', new_token, write_json env (user_info u)))))"

definition logout :: "'w user_env \<Rightarrow> u64 \<Rightarrow> string \<Rightarrow> ('w app, bool) comp" where
  "logout env uid token =
     bind_comp (on_world (verify_token (user_tokens env) uid token)) (\<lambda>valid.
       if \<not> valid then ret False
       else bind_comp (on_world (delete_token (user_tokens env) uid)) (\<lambda>gone.
              if \<not> gone then ret False else ret True))"

record friend_info =
  info_id :: u64
  info_nickname :: string
  info_avatar :: string
  info_status :: int

definition info_of :: "user \<Rightarrow> friend_info" where
  "info_of u = \<lparr>info_id = user_id u, info_nickname = nickname u, info_avatar = avatar_url u,
     info_status = user_status u\<rparr>"

definition add_friend :: "'w user_env \<Rightarrow> u64 \<Rightarrow> u64 \<Rightarrow> string \<Rightarrow> ('w app, bool) comp" where
  "add_friend env uid target verify_msg =
     (if uid = target then ret False
      else
        bind_comp (find_by_id (user_db env) target) (\<lambda>t.
          if t = None then ret False
          else
            bind_comp (is_friend (user_db env) uid target) (\<lambda>already.
              if already then ret False
              else
                bind_comp (dao_add_friend (user_db env) uid target verify_msg) (\<lambda>ok.
                  if \<not> ok then ret False else ret True))))"

fun friend_infos ::
  "'w user_env \<Rightarrow> user_friend list \<Rightarrow> friend_info list \<Rightarrow> ('w app, friend_info list) comp" where
  "friend_infos env [] result = ret result"
| "friend_infos env (uf # ufs) result =
     bind_comp (find_by_id (user_db env) (link_friend uf)) (\<lambda>friend_opt.
       case friend_opt of
         None \<Rightarrow> friend_infos env ufs result
       | Some u \<Rightarrow> friend_infos env ufs (result @ [info_of u]))"

definition friend_list ::
  "'w user_env \<Rightarrow> u64 \<Rightarrow> int \<Rightarrow> int \<Rightarrow> int \<Rightarrow> ('w app, friend_info list \<times> int) comp" where
  "friend_list env uid page page_size count0 =
     bind_comp (dao_friend_list (user_db env) uid page page_size count0) (\<lambda>(links, n).
     bind_comp (friend_infos env links []) (\<lambda>result. ret (result, n)))"

definition service_is_friend :: "'w user_env \<Rightarrow> u64 \<Rightarrow> u64 \<Rightarrow> ('w app, bool) comp" where
  "service_is_friend env uid fid = is_friend (user_db env) uid fid"

text \<open>The facades.\<close>

definition manager_register ::
  "'w user_env \<Rightarrow> string \<Rightarrow> string \<Rightarrow> string \<Rightarrow> ('w app, bool \<times> string \<times> u64) comp" where
  "manager_register env name password nick = register env name password nick"

definition manager_login ::
  "'w user_env \<Rightarrow> string \<Rightarrow> string \<Rightarrow> int \<Rightarrow> ('w app, bool \<times> string \<times> string \<times> string) comp" where
  "manager_login env name password client_type = login env name password client_type"

definition manager_logout :: "'w user_env \<Rightarrow> u64 \<Rightarrow> string \<Rightarrow> ('w app, bool) comp" where
  "manager_logout env uid token = logout env uid token"

definition manager_init :: "'w mysql_driver \<Rightarrow> config_map \<Rightarrow> ('w app, bool) comp" where
  "manager_init drv cfg = auth_init drv cfg"

definition manager_add_friend :: "'w user_env \<Rightarrow> u64 \<Rightarrow> u64 \<Rightarrow> string \<Rightarrow> ('w app, bool) comp" where
  "manager_add_friend env uid target verify_msg = add_friend env uid target verify_msg"

definition manager_friend_list ::
  "'w user_env \<Rightarrow> u64 \<Rightarrow> int \<Rightarrow> int \<Rightarrow> int \<Rightarrow> ('w app, friend_info list \<times> int) comp" where
  "manager_friend_list env uid page page_size count0 =
     bind_comp (friend_list env uid page page_size count0)
       (\<lambda>(friends, n). ret (map (\<lambda>f. \<lparr>info_id = info_id f, info_nickname = info_nickname f,
          info_avatar = info_avatar f, info_status = info_status f\<rparr>) friends, n))"

subsection \<open>No operation leaks a connection\<close>

lemma register_keeps [intro, keeps_intros]: "keeps (holds_conns M) (register env name password nick)"
  unfolding register_def
  by (intro keeps_intros)

lemma login_keeps [intro, keeps_intros]: "keeps (holds_conns M) (login env name password ct)"
  unfolding login_def
  by (intro keeps_intros)

lemma logout_keeps [intro, keeps_intros]: "keeps (holds_conns M) (logout env uid token)"
  unfolding logout_def by (intro keeps_intros)

lemma add_friend_keeps [intro, keeps_intros]: "keeps (holds_conns M) (add_friend env uid target v)"
  unfolding add_friend_def by (intro keeps_intros)

lemma friend_infos_keeps [keeps_intros]: "keeps (holds_conns M) (friend_infos env ufs result)"
  by (induction env ufs result rule: friend_infos.induct) (auto intro!: keeps_option)

lemma friend_list_keeps [intro, keeps_intros]: "keeps (holds_conns M) (friend_list env uid page n count0)"
  unfolding friend_list_def
  by (intro keeps_intros)

subsection \<open>Registration\<close>

text \<open>Hashing, tokens and the clock do not touch the users; others may add some meanwhile.\<close>

definition keeps_users :: "('w \<Rightarrow> user list) \<Rightarrow> ('w, 'a) comp \<Rightarrow> bool" where
  "keeps_users tbl m \<longleftrightarrow> (\<forall>w r w'. m w = (r, w') \<longrightarrow> grown tbl w w')"

lemma keeps_users_grown: "keeps_users tbl m \<Longrightarrow> on_world m s = (r, t) \<Longrightarrow> grown tbl (world s) (world t)"
  by (auto simp: keeps_users_def on_world_def split: prod.splits)

lemma find_by_username_rel:
  assumes "users_table coll tbl lid db" "find_by_username db n s = (r, t)"
  shows "grown tbl (world s) (world t) \<and> (\<forall>e. r \<noteq> Exc e)"
  by (rule caught_with_db_rel [OF find_by_username_grown [OF assms(1)] grown_refl grown_trans
        pause_grown [OF assms(1)] assms(2) [unfolded find_by_username_def]])

lemma find_by_username_Some:
  assumes "users_table coll tbl lid db" "find_by_username db n s = (Ret (Some u), t)"
  shows "\<exists>v. by_name coll (tbl (world t)) n = Some v \<and> u = selected v"
proof -
  obtain c w where "find_by_username_body db n c w = (Ret (Some u), world t)"
    using caught_with_db_Ret [OF find_by_username_grown [OF assms(1)] grown_refl grown_trans
        pause_grown [OF assms(1)] assms(2) [unfolded find_by_username_def]] by blast
  from find_by_username_body_Ret [OF assms(1) this] obtain t0 v where
    "prefix t0 (tbl (world t))" "by_name coll t0 n = Some v" "u = selected v"
    by (auto simp: between_def dest!: sym [of "Some u"])
  then show ?thesis by (blast intro: by_name_prefix)
qed

lemma insert_user_True:
  assumes "users_table coll tbl lid db" "insert_user db u s = (Ret (True, i), t)"
  obtains c w where "grown tbl (world s) w" "insert_user_body db u c w = (Ret i, world t)"
proof -
  have "with_db db (insert_user_body db u) s = (Ret i, t)"
    using assms(2)
    by (auto simp: insert_user_def catch_all_def bind_comp_def ret_def split: prod.splits outcome.splits)
  from with_db_Ret_rel [OF insert_user_body_grown [OF assms(1)] grown_refl grown_trans
      pause_grown [OF assms(1)] this] that show thesis by blast
qed

lemma insert_user_rel:
  assumes "users_table coll tbl lid db" "insert_user db u s = (r, t)"
  shows "grown tbl (world s) (world t)"
proof -
  obtain q v where q: "with_db db (insert_user_body db u) s = (q, v)" by fastforce
  have "grown tbl (world s) (world v)"
    by (rule with_db_world_rel [OF insert_user_body_grown [OF assms(1)] grown_refl grown_trans
          pause_grown [OF assms(1)] q])
  then show ?thesis
    using assms(2) q by (cases q) (auto simp: insert_user_def catch_all_def bind_comp_def ret_def)
qed

text \<open>
  A registration that reports success: the row it has added, the name free until then.
\<close>

lemma register_inserts:
  assumes "users_table coll tbl lid (user_db env)" "keeps_users tbl (hash_password env password)"
    and "register env name password nick s = (Ret (True, msg, uid), s')"
  shows "msg = ''SUCCESS'' \<and> uid \<noteq> 0 \<and>
         (\<exists>h v v' t. bcrypt_hash env password 12 v = (Ret h, v') \<and> prefix (tbl (world s)) t \<and>
            by_name coll t name = None \<and>
            prefix (t @ [new_row uid name h nick ''http://mock/avatar.jpg'']) (tbl (world s')))"
proof -
  let ?u = "\<lambda>h. default_user\<lparr>username := name, password_hash := h, nickname := nick,
      avatar_url := ''http://mock/avatar.jpg''\<rparr>"
  obtain s1 where f: "find_by_username (user_db env) name s = (Ret None, s1)"
    and rest: "bind_comp (on_world (hash_password env password)) (\<lambda>h.
        bind_comp (insert_user (user_db env) (?u h)) (\<lambda>(ok, i).
          if \<not> ok \<or> i = 0 then ret (False, ''SERVER_INTERNAL_ERROR'', 0)
          else ret (True, ''SUCCESS'', i))) s1 = (Ret (True, msg, uid), s')"
    using assms(3) unfolding register_def bind_comp_Ret [of "find_by_username (user_db env) name"]
    by (auto simp: ret_def [of "(False, _)"] split: if_splits)
  obtain h s2 x s3 where h: "on_world (hash_password env password) s1 = (Ret h, s2)"
    and x: "insert_user (user_db env) (?u h) s2 = (Ret x, s3)"
      "(case x of (ok, i) \<Rightarrow> if \<not> ok \<or> i = 0 then ret (False, ''SERVER_INTERNAL_ERROR'', 0)
          else ret (True, ''SUCCESS'', i)) s3 = (Ret (True, msg, uid), s')"
    using rest unfolding bind_comp_Ret by blast
  then have i: "insert_user (user_db env) (?u h) s2 = (Ret (True, uid), s')"
    and res: "msg = ''SUCCESS''" "uid \<noteq> 0"
    by (auto simp: ret_def split: prod.splits if_splits)
  obtain c w where w: "grown tbl (world s2) w"
    "insert_user_body (user_db env) (?u h) c w = (Ret uid, world s')"
    using insert_user_True [OF assms(1) i] by blast
  have "grown tbl (world s) (world s2)"
    using find_by_username_rel [OF assms(1) f] keeps_users_grown [OF assms(2) h]
    by (blast dest: transpD [OF grown_trans])
  then have "grown tbl (world s) w" using w(1) by (rule transpD [OF grown_trans])
  moreover have "bcrypt_hash env password 12 (world s1) = (Ret h, world s2)"
    using h by (auto simp: on_world_def hash_password_def split: prod.splits)
  moreover obtain t where "prefix (tbl w) t" "by_name coll t name = None"
    "prefix (t @ [new_row uid name h nick ''http://mock/avatar.jpg'']) (tbl (world s'))"
    using insert_user_body_Ret [OF assms(1) w(2)] by auto
  ultimately show ?thesis using res unfolding grown_prefix by (blast intro: prefix_order.order_trans)
qed

lemma register_True:
  assumes "users_table coll tbl lid (user_db env)" "keeps_users tbl (hash_password env password)"
    and "register env name password nick s = (Ret (True, msg, uid), s')"
  shows "msg = ''SUCCESS'' \<and> uid \<noteq> 0 \<and> by_name coll (tbl (world s)) name = None \<and>
         (\<exists>h w w'. bcrypt_hash env password 12 w = (Ret h, w') \<and>
            by_name coll (tbl (world s')) name =
              Some (new_row uid name h nick ''http://mock/avatar.jpg''))"
proof -
  from register_inserts [OF assms] obtain h v v' t where
    w: "msg = ''SUCCESS''" "uid \<noteq> 0" "bcrypt_hash env password 12 v = (Ret h, v')"
      "prefix (tbl (world s)) t" "by_name coll t name = None"
      "prefix (t @ [new_row uid name h nick ''http://mock/avatar.jpg'']) (tbl (world s'))"
    by blast
  have "by_name coll (tbl (world s)) name = None"
    using by_name_prefix [OF w(4)] w(5) by (cases "by_name coll (tbl (world s)) name") auto
  moreover have "by_name coll (tbl (world s')) name =
      Some (new_row uid name h nick ''http://mock/avatar.jpg'')"
    by (rule by_name_prefix [OF w(6) by_name_new [OF w(5)]]) (simp add: new_row_def)
  ultimately show ?thesis using w(1-3) by blast
qed

text \<open>
  A registration that reports success has put a new user into the table under the
  identifier it returns, with the name, the nickname and the bcrypt hash of the password;
  the name was free when the call began. This holds whatever attempts failed on the way.
\<close>

theorem register_success:
  assumes "users_table coll tbl lid (user_db env)" "keeps_users tbl (hash_password env password)"
    and "register env name password nick s = (Ret (True, msg, uid), s')"
  shows "msg = ''SUCCESS'' \<and> uid \<noteq> 0 \<and> by_name coll (tbl (world s)) name = None \<and>
         (\<exists>h w w'. bcrypt_hash env password 12 w = (Ret h, w') \<and>
            by_name coll (tbl (world s')) name =
              Some (new_row uid name h nick ''http://mock/avatar.jpg''))"
  by (rule register_True [OF assms])

text \<open>
  Registering a name that is taken never succeeds and never touches the account: under
  every failure of the database the row of the name stays as it was.
\<close>

theorem register_taken_name:
  assumes "users_table coll tbl lid (user_db env)" "keeps_users tbl (hash_password env password)"
    and "by_name coll (tbl (world s)) name = Some u"
    and "register env name password nick s = (r, s')"
  shows "by_name coll (tbl (world s')) name = Some u \<and> r \<noteq> Ret (True, msg, uid)"
proof -
  let ?u = "\<lambda>h. default_user\<lparr>username := name, password_hash := h, nickname := nick,
      avatar_url := ''http://mock/avatar.jpg''\<rparr>"
  obtain f s1 where f: "find_by_username (user_db env) name s = (f, s1)" by fastforce
  have s1: "by_name coll (tbl (world s1)) name = Some u"
    by (rule grown_by_name [OF conjunct1 [OF find_by_username_rel [OF assms(1) f]] assms(3)])
  obtain h s2 where h: "on_world (hash_password env password) s1 = (h, s2)" by fastforce
  have s2: "by_name coll (tbl (world s2)) name = Some u"
    by (rule grown_by_name [OF keeps_users_grown [OF assms(2) h] s1])
  have ins: "by_name coll (tbl (world t)) name = Some u"
    if "insert_user (user_db env) (?u x) s2 = (q, t)" for q t x
    by (rule grown_by_name [OF insert_user_rel [OF assms(1) that] s2])
  have failed: "\<not> ok" if "insert_user (user_db env) (?u x) s2 = (Ret (ok, i), t)" for x ok i t
  proof
    assume ok
    with that obtain c w where w: "grown tbl (world s2) w"
        "insert_user_body (user_db env) (?u x) c w = (Ret i, world t)"
      using insert_user_True [OF assms(1)] by (metis (full_types))
    have "by_name coll (tbl w) name = Some u" by (rule grown_by_name [OF w(1) s2])
    with insert_user_body_Ret [OF assms(1) w(2)] show False by (auto dest: by_name_prefix)
  qed
  show ?thesis
  proof (cases "f = Ret None")
    case False
    then have "s' = s1 \<and> r \<noteq> Ret (True, msg, uid)"
      using assms(4) f
      by (auto simp: register_def bind_comp_def ret_def split: prod.splits outcome.splits if_splits)
    with s1 show ?thesis by simp
  next
    case True
    then have reg: "bind_comp (on_world (hash_password env password)) (\<lambda>h.
        bind_comp (insert_user (user_db env) (?u h)) (\<lambda>(ok, i).
          if \<not> ok \<or> i = 0 then ret (False, ''SERVER_INTERNAL_ERROR'', 0)
          else ret (True, ''SUCCESS'', i))) s1 = (r, s')"
      using assms(4) f by (simp add: register_def bind_comp_def [of "find_by_username _ _"])
    show ?thesis
    proof (cases h)
      case (Ret x)
      obtain q t where q: "insert_user (user_db env) (?u x) s2 = (q, t)" by fastforce
      then have "s' = t \<and> r \<noteq> Ret (True, msg, uid)"
        using reg h Ret failed [of x _ _ t]
        by (auto simp: bind_comp_def ret_def split: outcome.splits if_splits)
      with ins [OF q] show ?thesis by simp
    qed (use reg h s2 in \<open>auto simp: bind_comp_def\<close>)
  qed
qed

subsection \<open>The services on the tables in memory\<close>

definition mem_env :: "mem user_env" where
  "mem_env =
     \<lparr>user_db = mem_db,
      user_tokens =
        \<lparr>token_redis = mem_redis mem_kv (\<lambda>f m. m\<lparr>mem_kv := f (mem_kv m)\<rparr>),
         clock_ms = ret 1700000000000, random_between = (\<lambda>a b. ret a)\<rparr>,
      bcrypt_hash = (\<lambda>p n. ret (''$2a$12$'' @ p)),
      bcrypt_validate = (\<lambda>p h. h = ''$2a$12$'' @ p),
      write_json = (\<lambda>j. ''{}'')\<rparr>"

definition mem_start :: "mem app" where
  "mem_start =
     \<lparr>pool = new_pool\<lparr>idle := [0]\<rparr>,
      world = \<lparr>mem_users = [], mem_last = 0, mem_links = [], mem_kv = Map.empty\<rparr>\<rparr>"

lemma mem_env_simps [simp]: "user_db mem_env = mem_db"
  by (simp add: mem_env_def)

lemma mem_env_keeps_users: "keeps_users mem_users (hash_password mem_env p)"
  by (simp add: keeps_users_def hash_password_def mem_env_def ret_def)

definition with_bob :: "mem app" where
  "with_bob = snd (register mem_env ''bob'' ''secret'' ''Bob'' mem_start)"

lemma register_bob:
  "register mem_env ''bob'' ''secret'' ''Bob'' mem_start = (Ret (True, ''SUCCESS'', 1), with_bob)"
proof -
  have "fst (register mem_env ''bob'' ''secret'' ''Bob'' mem_start) = Ret (True, ''SUCCESS'', 1)"
    by code_simp
  then show ?thesis by (simp add: with_bob_def prod_eq_iff)
qed

definition bob :: user where
  "bob = new_row 1 ''bob'' ''$2a$12$secret'' ''Bob'' ''http://mock/avatar.jpg''"

lemma bob_row: "by_name id (mem_users (world with_bob)) ''bob'' = Some bob"
  by code_simp

theorem register_success_witness:
  "\<exists>h. by_name id (mem_users (world with_bob)) ''bob'' =
     Some (new_row 1 ''bob'' h ''Bob'' ''http://mock/avatar.jpg'')"
  using register_success [of id mem_users "\<lambda>m c. mem_last m" mem_env, OF _ mem_env_keeps_users register_bob]
  by (auto simp: mem_db_users)

theorem register_taken_name_witness:
  "\<exists>u. by_name id (mem_users (world (snd (register mem_env ''bob'' ''x'' ''y'' with_bob)))) ''bob'' = Some u"
proof -
  obtain r s' where r: "register mem_env ''bob'' ''x'' ''y'' with_bob = (r, s')" by fastforce
  from register_taken_name [of id mem_users "\<lambda>m c. mem_last m" mem_env, OF _ mem_env_keeps_users bob_row r]
  show ?thesis by (auto simp: mem_db_users r)
qed

subsection \<open>Login and logout\<close>

definition login_ready :: "'w user_env \<Rightarrow> bool" where
  "login_ready env \<longleftrightarrow>
     (\<forall>w. \<exists>t w'. clock_ms (user_tokens env) w = (Ret t, w')) \<and>
     (\<forall>w. \<exists>x w'. random_between (user_tokens env) 1000 9999 w = (Ret x, w')) \<and>
     (\<forall>k v t w. \<exists>w'. api_set (token_redis (user_tokens env)) k v t w = (Inr (), w'))"

lemma generate_token_result:
  assumes "redis_store kv (token_redis env)"
    and "generate_and_save_token env uid ct w = (Ret token, w')" "token \<noteq> []"
  shows "\<exists>ts rnd. token = token_text uid ct ts rnd \<and>
           kv w' (redis_key uid) = Some (token, Some 604800)"
proof -
  obtain ts w1 rnd w2 ok where
    set: "redis_set (token_redis env) (redis_key uid) (token_text uid ct ts rnd) 604800 w2 = (Ret ok, w')"
    and tok: "token = (if ok then token_text uid ct ts rnd else [])"
    using assms(2)
    by (auto simp: generate_and_save_token_def bind_comp_Ret ret_def Let_def
        token_expire_seconds_def split: if_splits)
  with assms(3) have "ok" by (auto split: if_splits)
  with redis_set_True [OF assms(1)] set tok show ?thesis by fastforce
qed

lemma generate_token_ready:
  assumes "login_ready env"
  obtains ts rnd w' where
    "generate_and_save_token (user_tokens env) uid ct w = (Ret (token_text uid ct ts rnd), w')"
proof -
  obtain ts w1 where 1: "clock_ms (user_tokens env) w = (Ret ts, w1)"
    using assms unfolding login_ready_def by metis
  obtain rnd w2 where 2: "random_between (user_tokens env) 1000 9999 w1 = (Ret rnd, w2)"
    using assms unfolding login_ready_def by metis
  obtain w3 where 3: "api_set (token_redis (user_tokens env)) (redis_key uid)
      (token_text uid ct ts rnd) (Some 604800) w2 = (Inr (), w3)"
    using assms unfolding login_ready_def by metis
  have "generate_and_save_token (user_tokens env) uid ct w = (Ret (token_text uid ct ts rnd), w3)"
    by (simp add: generate_and_save_token_def bind_comp_def 1 2 3 redis_set_def ret_def
        token_expire_seconds_def Let_def)
  with that show thesis .
qed

text \<open>
  A login that reports success found the user in the table and the password matches its
  hash; the token it returns is made from the user's identifier and is what Redis holds
  under the user's key, for seven days.
\<close>

theorem login_success:
  assumes "users_table coll tbl lid (user_db env)"
    and "redis_store kv (token_redis (user_tokens env))"
    and "\<And>i. keeps_users tbl (generate_and_save_token (user_tokens env) i client_type)"
    and "login env name password client_type s = (Ret (True, msg, token, info), s')"
  shows "\<exists>u ts rnd. by_name coll (tbl (world s')) name = Some u \<and>
           bcrypt_validate env password (password_hash u) \<and>
           token = token_text (user_id u) client_type ts rnd \<and>
           kv (world s') (redis_key (user_id u)) = Some (token, Some 604800) \<and>
           info = write_json env (user_info (selected u))"
proof -
  obtain f s1 where f: "find_by_username (user_db env) name s = (Ret f, s1)"
    "(case f of
         None \<Rightarrow> ret (False, ''USER_NOT_FOUND'', [], [])
       | Some u \<Rightarrow>
           (if \<not> validate_password env password (password_hash u) then
              ret (False, ''PASSWORD_ERROR'', [], [])
            else
              bind_comp (on_world (generate_and_save_token (user_tokens env) (user_id u) client_type))
                (\<lambda>new_token.
                   if new_token = [] then ret (False, ''SERVER_INTERNAL_ERROR'', [], [])
                   else ret (True, ''SUCCESS'', new_token, write_json env (user_info u))))) s1 =
      (Ret (True, msg, token, info), s')"
    using assms(4) unfolding login_def bind_comp_Ret [of "find_by_username (user_db env) name"]
    by blast
  then obtain u where u: "f = Some u" "bcrypt_validate env password (password_hash u)"
    and g: "on_world (generate_and_save_token (user_tokens env) (user_id u) client_type) s1 =
        (Ret token, s')" "token \<noteq> []" "info = write_json env (user_info u)"
    by (auto simp: ret_def bind_comp_Ret validate_password_def split: option.splits if_splits)
  obtain v where v: "by_name coll (tbl (world s1)) name = Some v" "u = selected v"
    using find_by_username_Some [OF assms(1)] f(1) u(1) by blast
  have gw: "generate_and_save_token (user_tokens env) (user_id u) client_type (world s1) =
      (Ret token, world s')"
    using g(1) by (auto simp: on_world_def split: prod.splits)
  have "by_name coll (tbl (world s')) name = Some v"
    by (rule grown_by_name [OF keeps_users_grown [OF assms(3) g(1)] v(1)])
  with generate_token_result [OF assms(2) gw g(2)] u(2) v(2) g(3) show ?thesis
    by (auto simp: selected_def)
qed

lemma mem_find_bob:
  obtains s2 where "find_by_username mem_db ''bob'' with_bob = (Ret (Some bob), s2)"
proof -
  have "fst (find_by_username mem_db ''bob'' with_bob) = Ret (Some bob)" by code_simp
  with that show thesis by (metis prod.collapse)
qed

lemma mem_token:
  "generate_and_save_token (user_tokens mem_env) uid ct w =
     (Ret (token_text uid ct 1700000000000 1000),
      w\<lparr>mem_kv := (mem_kv w)(redis_key uid \<mapsto>
         (token_text uid ct 1700000000000 1000, Some 604800))\<rparr>)"
  by (simp add: generate_and_save_token_def mem_env_def bind_comp_def ret_def redis_set_def
      mem_redis_def Let_def token_expire_seconds_def)

lemma login_bob:
  obtains s' where "login mem_env ''bob'' ''secret'' 1 with_bob =
     (Ret (True, ''SUCCESS'', token_text 1 1 1700000000000 1000, ''{}''), s')"
proof -
  obtain s2 where f: "find_by_username mem_db ''bob'' with_bob = (Ret (Some bob), s2)"
    by (rule mem_find_bob)
  have b: "password_hash bob = ''$2a$12$secret''" "user_id bob = 1"
    by (simp_all add: bob_def new_row_def)
  have "fst (login mem_env ''bob'' ''secret'' 1 with_bob) =
      Ret (True, ''SUCCESS'', token_text 1 1 1700000000000 1000, ''{}'')"
    using f b by (simp add: login_def bind_comp_def validate_password_def on_world_def mem_token ret_def)
      (simp add: mem_env_def)
  with that show thesis by (metis prod.collapse)
qed

lemma mem_env_store: "redis_store mem_kv (token_redis (user_tokens mem_env))"
  by (simp add: mem_env_def mem_redis_store)

lemma mem_env_token_keeps: "keeps_users mem_users (generate_and_save_token (user_tokens mem_env) i ct)"
  by (simp add: keeps_users_def mem_token grown_def)

theorem login_success_witness:
  "\<exists>u. by_name id (mem_users (world (snd (login mem_env ''bob'' ''secret'' 1 with_bob)))) ''bob'' = Some u \<and>
       password_hash u = ''$2a$12$secret''"
proof -
  obtain s' where l: "login mem_env ''bob'' ''secret'' 1 with_bob =
      (Ret (True, ''SUCCESS'', token_text 1 1 1700000000000 1000, ''{}''), s')"
    by (rule login_bob)
  from login_success [of id mem_users "\<lambda>m c. mem_last m" mem_env mem_kv,
      OF _ mem_env_store mem_env_token_keeps l]
  obtain u where "by_name id (mem_users (world s')) ''bob'' = Some u"
    "bcrypt_validate mem_env ''secret'' (password_hash u)"
    by (auto simp: mem_db_users)
  with l show ?thesis by (simp add: mem_env_def)
qed

text \<open>
  C2. Round trip: after a successful registration the same name and password log in, with a
  token for the identifier the registration returned, when the database answers the query
  and the clock, the random generator and Redis do their part. The bcrypt library is only
  required to validate a password against a hash it made of it.
\<close>

theorem register_then_login:
  assumes "users_table coll tbl lid (user_db env)" "keeps_users tbl (hash_password env password)"
    and "\<And>n h w w'. bcrypt_hash env password n w = (Ret h, w') \<Longrightarrow> bcrypt_validate env password h"
    and "login_ready env"
    and "register env name password nick s = (Ret (True, msg, uid), s1)"
    and "with_db (user_db env) (find_by_username_body (user_db env) name) s1 = (Ret found, s2)"
  shows "\<exists>ts rnd s3. login env name password client_type s1 =
           (Ret (True, ''SUCCESS'', token_text uid client_type ts rnd,
              write_json env (JObject [(''user_id'', JUInt uid), (''username'', JString name),
                (''nickname'', JString nick), (''avatar_url'', JString ''http://mock/avatar.jpg''),
                (''status'', JInt 0)])), s3)"
proof -
  obtain h w w' where h: "bcrypt_hash env password 12 w = (Ret h, w')"
    and row: "by_name coll (tbl (world s1)) name =
        Some (new_row uid name h nick ''http://mock/avatar.jpg'')"
    using register_True [OF assms(1,2,5)] by blast
  let ?u = "new_row uid name h nick ''http://mock/avatar.jpg''"
  obtain c w1 where w1: "grown tbl (world s1) w1"
    "find_by_username_body (user_db env) name c w1 = (Ret found, world s2)"
    by (rule with_db_Ret_rel [OF find_by_username_grown [OF assms(1)] grown_refl grown_trans
          pause_grown [OF assms(1)] assms(6)])
  have "found = Some (selected ?u)"
    using find_by_username_body_Ret [OF assms(1) w1(2)] grown_by_name [OF w1(1) row]
    by (auto simp: between_def dest: by_name_prefix)
  then have f: "find_by_username (user_db env) name s1 = (Ret (Some (selected ?u)), s2)"
    using assms(6) by (simp add: find_by_username_def catch_all_def)
  obtain ts rnd v where g: "generate_and_save_token (user_tokens env) uid client_type (world s2) =
      (Ret (token_text uid client_type ts rnd), v)"
    by (rule generate_token_ready [OF assms(4)])
  have sel: "selected ?u = ?u" "user_id ?u = uid" "password_hash ?u = h" "username ?u = name"
    "nickname ?u = nick" "avatar_url ?u = ''http://mock/avatar.jpg''" "user_status ?u = 0"
    by (simp_all add: selected_def new_row_def default_user_def)
  have "login env name password client_type s1 =
      (Ret (True, ''SUCCESS'', token_text uid client_type ts rnd, write_json env (user_info ?u)),
       s2\<lparr>world := v\<rparr>)"
    using assms(3) [OF h]
    by (simp add: login_def bind_comp_def [of "find_by_username _ _"] f sel validate_password_def
        bind_comp_def on_world_def g ret_def)
  then show ?thesis unfolding user_info_def sel by blast
qed

theorem register_then_login_witness:
  "\<exists>ts rnd. fst (login mem_env ''bob'' ''secret'' 2 with_bob) =
     Ret (True, ''SUCCESS'', token_text 1 2 ts rnd, ''{}'')"
proof -
  have f: "fst (with_db mem_db (find_by_username_body mem_db ''bob'') with_bob) = Ret (Some bob)"
    by code_simp
  obtain s2 where s2: "with_db mem_db (find_by_username_body mem_db ''bob'') with_bob = (Ret (Some bob), s2)"
    using f by (metis prod.collapse)
  have ready: "login_ready mem_env"
    by (simp add: login_ready_def mem_env_def mem_redis_def ret_def)
  have hash: "bcrypt_hash mem_env ''secret'' n w = (Ret h, w') \<Longrightarrow>
      bcrypt_validate mem_env ''secret'' h" for n h w w'
    by (simp add: mem_env_def ret_def)
  have "\<exists>ts rnd s3. login mem_env ''bob'' ''secret'' 2 with_bob =
      (Ret (True, ''SUCCESS'', token_text 1 2 ts rnd, write_json mem_env
         (JObject [(''user_id'', JUInt 1), (''username'', JString ''bob''),
           (''nickname'', JString ''Bob''), (''avatar_url'', JString ''http://mock/avatar.jpg''),
           (''status'', JInt 0)])), s3)"
    by (rule register_then_login [of id mem_users "\<lambda>m c. mem_last m" mem_env,
          OF _ mem_env_keeps_users hash ready register_bob])
       (simp_all add: mem_db_users s2)
  moreover have "write_json mem_env j = ''{}''" for j by (simp add: mem_env_def)
  ultimately show ?thesis by (metis fst_conv)
qed

text \<open>
  Any text but the empty one logs any user out: when Redis carries out its commands,
  \<open>Logout\<close> with a forged token returns true and the user's real token is gone.
\<close>

theorem logout_any_token:
  assumes "redis_store kv (token_redis (user_tokens env))"
    and "\<And>k v t w. \<exists>w'. api_set (token_redis (user_tokens env)) k v t w = (Inr (), w')"
    and "\<And>k w. \<exists>n w'. api_del (token_redis (user_tokens env)) k w = (Inr n, w')"
    and "token \<noteq> []"
  shows "\<exists>s'. logout env uid token s = (Ret True, s') \<and> kv (world s') (redis_key uid) = None"
proof -
  let ?api = "token_redis (user_tokens env)" and ?k = "redis_key uid"
  obtain w1 where w1: "api_set ?api ?k token (Some 604800) (world s) = (Inr (), w1)"
    using assms(2) by blast
  obtain n w2 where w2: "api_del ?api ?k w1 = (Inr n, w2)" using assms(3) by blast
  have "kv w1 = (kv (world s))(?k \<mapsto> (token, Some 604800))"
    using store_set [OF assms(1) w1] by simp
  moreover have "kv w2 = (kv w1)(?k := None)" "n = (if kv w1 ?k = None then 0 else 1)"
    using store_del [OF assms(1) w2] by simp_all
  ultimately have kv: "n = 1" "kv w2 ?k = None" by simp_all
  have "verify_token (user_tokens env) uid token (world s) = (Ret True, w1)"
    using assms(4) w1 by (simp add: verify_token_result redis_set_def token_expire_seconds_def)
  moreover have "delete_token (user_tokens env) uid w1 = (Ret True, w2)"
    using w2 kv(1) by (simp add: delete_token_def redis_delete_def)
  ultimately have "logout env uid token s = (Ret True, s\<lparr>world := w2\<rparr>)"
    by (simp add: logout_def bind_comp_def on_world_def ret_def)
  with kv(2) show ?thesis by simp
qed

theorem logout_any_token_witness:
  "\<exists>s'. logout mem_env 1 ''forged'' with_bob = (Ret True, s') \<and>
        mem_kv (world s') (redis_key 1) = None"
  by (rule logout_any_token [OF mem_env_store]) (simp_all add: mem_env_def mem_redis_def)

text \<open>
  When the database cannot be reached a login reports that the user does not exist, and
  a registration goes on as if the name were free, to fail at the insertion.
\<close>

theorem database_down_reported_as_not_found:
  assumes "is_shutdown (pool s)"
  shows "fst (login env name password client_type s) = Ret (False, ''USER_NOT_FOUND'', [], []) \<and>
         (\<forall>h w. (\<forall>w. hash_password env password w = (Ret h, w)) \<longrightarrow>
            fst (register env name password nick s) = Ret (False, ''SERVER_INTERNAL_ERROR'', 0))"
proof (intro conjI allI impI)
  obtain t where t: "with_db (user_db env) (find_by_username_body (user_db env) name) s =
      (Exc (StdException ''Failed to get DB connection''), t)" "pool t = pool s"
    using with_db_shutdown [OF assms] by blast
  then have f: "find_by_username (user_db env) name s = (Ret None, t)"
    by (simp add: find_by_username_def catch_all_def ret_def)
  then show "fst (login env name password client_type s) = Ret (False, ''USER_NOT_FOUND'', [], [])"
    by (simp add: login_def bind_comp_def ret_def)
  fix h w
  assume h: "\<forall>w. hash_password env password w = (Ret h, w)"
  have "is_shutdown (pool (t\<lparr>world := world t\<rparr>))" using assms t(2) by simp
  then have ins: "\<exists>v. insert_user (user_db env) u (t\<lparr>world := world t\<rparr>) = (Ret (False, 0), v)" for u
    using with_db_shutdown [of "t\<lparr>world := world t\<rparr>" "user_db env" "insert_user_body (user_db env) u"]
    by (auto simp: insert_user_def catch_all_def bind_comp_def ret_def)
  obtain v where "insert_user (user_db env) (default_user\<lparr>username := name, password_hash := h,
      nickname := nick, avatar_url := ''http://mock/avatar.jpg''\<rparr>) (t\<lparr>world := world t\<rparr>) =
      (Ret (False, 0), v)"
    using ins by blast
  with f h show "fst (register env name password nick s) = Ret (False, ''SERVER_INTERNAL_ERROR'', 0)"
    by (simp add: register_def bind_comp_def on_world_def ret_def)
qed

theorem database_down_reported_as_not_found_witness:
  "fst (login mem_env ''bob'' ''secret'' 1 (with_bob\<lparr>pool := snd (pool_shutdown (pool with_bob))\<rparr>)) =
     Ret (False, ''USER_NOT_FOUND'', [], [])"
proof -
  have "is_shutdown (pool (with_bob\<lparr>pool := snd (pool_shutdown (pool with_bob))\<rparr>))"
    by (simp add: pool_shutdown_def)
  from database_down_reported_as_not_found [OF this] show ?thesis by blast
qed

text \<open>
  An insertion whose first attempt wrote the row and then threw (the connection was lost
  before the identifier was read) is reported as a failure: every later attempt violates the
  unique key. The caller is told the account was not created, and it exists.
\<close>

theorem insert_reports_failure_after_writing:
  assumes "users_table coll tbl lid db"
    and "guarded (insert_user_body db u) s = (Exc e, s1)"
    and "by_name coll (tbl (world s1)) (username u) = Some row"
    and "insert_user db u s = (r, s')" "r \<noteq> Hang"
  shows "r = Ret (False, 0) \<and> by_name coll (tbl (world s')) (username u) = Some row"
proof -
  obtain q t where q: "with_db db (insert_user_body db u) s = (q, t)" by fastforce
  then obtain n v where n: "n \<le> 3" "failing (guarded (insert_user_body db u)) (app_pause db 500) n s v"
    "guarded (insert_user_body db u) v = (q, t)" "(\<exists>e. q = Exc e) \<longrightarrow> n = 3"
    by (auto simp: with_db_result)
  have taken: "by_name coll (tbl (world t)) (username u) = Some row \<and> (\<forall>i. q \<noteq> Ret i)"
  proof (cases n)
    case 0
    with n(2-4) assms(2) show ?thesis by auto
  next
    case (Suc k)
    with n(2) assms(2)
    have k: "failing (guarded (insert_user_body db u)) (app_pause db 500) k (app_pause db 500 s1) v"
      by simp
    have rel: "grown tbl (world s1) (world (app_pause db 500 s1))"
      using pause_grown [OF assms(1)] by (simp add: app_pause_def)
    have "grown tbl (world (app_pause db 500 s1)) (world v)"
      by (rule world_rel_failing [OF insert_user_body_grown [OF assms(1)] grown_refl grown_trans
            pause_grown [OF assms(1)] k])
    then have v: "by_name coll (tbl (world v)) (username u) = Some row"
      by (rule grown_by_name) (rule grown_by_name [OF rel assms(3)])
    have "grown tbl (world v) (world t)"
      by (rule world_rel_guarded [OF insert_user_body_grown [OF assms(1)] grown_refl n(3)])
    moreover have "q \<noteq> Ret i" for i
    proof
      assume "q = Ret i"
      then obtain c where "insert_user_body db u c (world v) = (Ret i, world t)"
        using n(3) by (auto simp: guarded_cases split: prod.splits outcome.splits option.splits)
      from insert_user_body_Ret [OF assms(1) this] v show False by (auto dest: by_name_prefix)
    qed
    ultimately show ?thesis using grown_by_name [of tbl "world v" "world t", OF _ v] by blast
  qed
  with assms(4,5) q show ?thesis
    by (cases q) (auto simp: insert_user_def catch_all_def bind_comp_def ret_def)
qed

theorem insert_reports_failure_after_writing_witness:
  "fst (insert_user half_db bob mem_start) = Ret (False, 0) \<and>
   (\<exists>row. by_name id (mem_users (world (snd (insert_user half_db bob mem_start)))) ''bob'' = Some row)"
proof -
  let ?s1 = "snd (guarded (insert_user_body half_db bob) mem_start)"
  have g: "fst (guarded (insert_user_body half_db bob) mem_start) = Exc (StdException ''Lost connection'')"
    "by_name id (mem_users (world ?s1)) (username bob) = Some bob"
    "fst (insert_user half_db bob mem_start) = Ret (False, 0)" "username bob = ''bob''"
    by code_simp+
  have s1: "guarded (insert_user_body half_db bob) mem_start =
      (Exc (StdException ''Lost connection''), ?s1)"
    using g(1) by (metis prod.collapse)
  have ins: "insert_user half_db bob mem_start =
      (fst (insert_user half_db bob mem_start), snd (insert_user half_db bob mem_start))"
    by simp
  from insert_reports_failure_after_writing [OF half_db_users s1 g(2) ins] g(3,4)
  show ?thesis by (auto simp: id_def)
qed

subsection \<open>Friends\<close>

lemma caught_links_same:
  assumes "friends_table links db"
    and "\<And>c w r w'. body c w = (r, w') \<Longrightarrow> links w' = links w"
    and "catch_all (with_db db body) (ret dflt) s = (r, t)"
  shows "links (world t) = links (world s)"
proof -
  let ?R = "\<lambda>w w'. links w' = links w"
  have R: "world_rel ?R (body c)" for c using assms(2) by (auto simp: world_rel_def)
  have p: "?R w (pause_for db 500 w)" for w using assms(1) by (simp add: friends_table_def)
  show ?thesis
    using caught_with_db_rel [where R = ?R and body = body, OF R _ _ p assms(3)]
    by (simp add: reflp_def transp_def)
qed

lemma of_sum_same: "of_sum x w = (r, w') \<Longrightarrow> w' = w"
  by (auto simp: of_sum_def throw_def ret_def split: sum.splits)

lemma read_links:
  assumes "friends_table links db"
    and "bind_comp (query db c stmt args) (\<lambda>rs. of_sum (g rs)) w = (r, w')"
  shows "links w' = links w"
proof -
  obtain q v where q: "query db c stmt args w = (q, v)" by fastforce
  then have "links v = links w" by (rule friends_query [OF assms(1)])
  with assms(2) q show ?thesis by (cases q) (auto simp: bind_comp_def dest: of_sum_same)
qed

lemma find_by_id_links:
  assumes "friends_table links db" "find_by_id db i s = (r, t)"
  shows "links (world t) = links (world s)"
proof (rule caught_links_same [OF assms(1) _ assms(2) [unfolded find_by_id_def]])
  fix c w r w'
  assume "find_by_id_body db i c w = (r, w')"
  then show "links w' = links w"
    unfolding find_by_id_body_def by (rule read_links [OF assms(1)])
qed

lemma is_friend_links:
  assumes "friends_table links db" "is_friend db u f s = (r, t)"
  shows "links (world t) = links (world s)"
proof (rule caught_links_same [OF assms(1) _ assms(2) [unfolded is_friend_def]])
  fix c w r w'
  assume "is_friend_body db u f c w = (r, w')"
  then show "links w' = links w"
    unfolding is_friend_body_def by (rule read_links [OF assms(1)])
qed

lemma dao_add_friend_links:
  assumes "friends_table links db" "dao_add_friend db u f v s = (r, t)"
  shows "linked links (u, f) (world s) (world t) \<and>
         (r = Ret True \<longrightarrow> links (world t) = insert (u, f) (links (world s)))"
proof -
  let ?R = "linked links (u, f)"
  have R: "world_rel ?R (add_friend_body db u f c)" for c
    using friends_update [OF assms(1)] by (auto simp: world_rel_def)
  have p: "?R w (pause_for db 500 w)" for w
    using assms(1) by (simp add: friends_table_def linked_def)
  obtain q x where q: "with_db db (add_friend_body db u f) s = (q, x)" by fastforce
  have step: "?R (world s) (world x)"
    by (rule with_db_world_rel [where R = ?R, OF R linked_refl linked_trans p q])
  have "links (world x) = insert (u, f) (links (world s))" if "q = Ret ()"
  proof -
    have q': "with_db db (add_friend_body db u f) s = (Ret (), x)" using q that by simp
    obtain c w where w: "?R (world s) w" "add_friend_body db u f c w = (Ret (), world x)"
      by (rule with_db_Ret_rel [where R = ?R, OF R linked_refl linked_trans p q'])
    have "links (world x) = insert (u, f) (links w)" using friends_update [OF assms(1) w(2)] by simp
    with w(1) show ?thesis by (auto simp: linked_def)
  qed
  with step assms(2) q show ?thesis
    by (cases q) (auto simp: dao_add_friend_def with_db_void_eq catch_all_def bind_comp_def ret_def)
qed

text \<open>
  Adding a friend changes one pair of the friends table at most, the pair from the
  caller to the target, and has added it when it reports success; it never reports success
  for oneself. The opposite pair is not written: the friendship has one direction.
\<close>

theorem add_friend_one_direction:
  assumes "friends_table links (user_db env)" "add_friend env uid target v s = (r, s')"
  shows "linked links (uid, target) (world s) (world s') \<and>
         (r = Ret True \<longrightarrow>
            uid \<noteq> target \<and> (uid, target) \<in> links (world s') \<and>
            ((target, uid) \<in> links (world s') \<longleftrightarrow> (target, uid) \<in> links (world s)))"
proof (cases "uid = target")
  case True
  with assms(2) show ?thesis by (auto simp: add_friend_def ret_def linked_def)
next
  case False
  obtain f s1 where f: "find_by_id (user_db env) target s = (f, s1)" by fastforce
  obtain i s2 where i: "is_friend (user_db env) uid target s1 = (i, s2)" by fastforce
  obtain a s3 where a: "dao_add_friend (user_db env) uid target v s2 = (a, s3)" by fastforce
  have 1: "links (world s1) = links (world s)" by (rule find_by_id_links [OF assms(1) f])
  have 2: "links (world s2) = links (world s1)" by (rule is_friend_links [OF assms(1) i])
  have 3: "linked links (uid, target) (world s2) (world s3)"
      "a = Ret True \<longrightarrow> links (world s3) = insert (uid, target) (links (world s2))"
    using dao_add_friend_links [OF assms(1) a] by simp_all
  from assms(2) False f i a have "s' = s1 \<and> r \<noteq> Ret True \<or> s' = s2 \<and> r \<noteq> Ret True \<or>
      s' = s3 \<and> (r = Ret True \<longrightarrow> a = Ret True)"
    by (auto simp: add_friend_def bind_comp_def ret_def split: outcome.splits if_splits)
  with 1 2 3 False show ?thesis by (auto simp: linked_def)
qed

definition with_ann :: "mem app" where
  "with_ann = snd (register mem_env ''ann'' ''pw'' ''Ann'' with_bob)"

theorem add_friend_one_direction_witness:
  "(1, 2) \<in> set (mem_links (world (snd (add_friend mem_env 1 2 ''hi'' with_ann)))) \<and>
   ((2, 1) \<in> set (mem_links (world (snd (add_friend mem_env 1 2 ''hi'' with_ann)))) \<longleftrightarrow>
    (2, 1) \<in> set (mem_links (world with_ann)))"
proof -
  have "fst (add_friend mem_env 1 2 ''hi'' with_ann) = Ret True" by code_simp
  then obtain s' where s': "add_friend mem_env 1 2 ''hi'' with_ann = (Ret True, s')"
    by (metis prod.collapse)
  from add_friend_one_direction [of "\<lambda>m. set (mem_links m)" mem_env, OF _ s'] s'
  show ?thesis by (simp add: mem_db_friends)
qed

end
