(* ===== verification/Account_Book.thy ===== *)
theory Account_Book
  imports User_Service
begin

section \<open>The accounts as an abstract book\<close>

text \<open>
  What the account service promises over any sequence of calls, however the database fails
  on the way and whatever other processes do meanwhile: an abstract book of accounts, a step
  relation on it, and the refinement of it by \<open>AuthService\<close>.
\<close>

subsection \<open>Runs of a specification\<close>

text \<open>
  A history is a list of calls with their answers. Between two calls, and on both sides of
  the moment a call takes effect, the abstract state may drift (other processes).
\<close>

inductive spec_run ::
  "('b \<Rightarrow> 'c \<Rightarrow> 'a \<Rightarrow> 'b \<Rightarrow> bool) \<Rightarrow> ('b \<Rightarrow> 'b \<Rightarrow> bool) \<Rightarrow> 'b \<Rightarrow> ('c \<times> 'a) list \<Rightarrow> 'b \<Rightarrow> bool"
  for spec drift where
  run_nil: "drift b b' \<Longrightarrow> spec_run spec drift b [] b'"
| run_call: "drift b b1 \<Longrightarrow> spec b1 c a b2 \<Longrightarrow> drift b2 b3 \<Longrightarrow> spec_run spec drift b3 h b' \<Longrightarrow>
     spec_run spec drift b ((c, a) # h) b'"

inductive_cases spec_run_NilE: "spec_run spec drift b [] b'"
inductive_cases spec_run_ConsE: "spec_run spec drift b ((c, a) # h) b'"

text \<open>The same for the calls of a component, given as a relation.\<close>

fun call_run :: "('c \<Rightarrow> 's \<Rightarrow> 'a \<Rightarrow> 's \<Rightarrow> bool) \<Rightarrow> 's \<Rightarrow> ('c \<times> 'a) list \<Rightarrow> 's \<Rightarrow> bool" where
  "call_run call s [] t \<longleftrightarrow> t = s"
| "call_run call s ((c, a) # h) t \<longleftrightarrow> (\<exists>u. call c s a u \<and> call_run call u h t)"

text \<open>
  The contract of a simulation: every call has a moment at which it takes effect as the
  specification says.
\<close>

locale simulated =
  fixes call :: "'c \<Rightarrow> 's \<Rightarrow> 'a \<Rightarrow> 's \<Rightarrow> bool"
    and spec :: "'b \<Rightarrow> 'c \<Rightarrow> 'a \<Rightarrow> 'b \<Rightarrow> bool"
    and drift :: "'b \<Rightarrow> 'b \<Rightarrow> bool"
    and abs_of :: "'s \<Rightarrow> 'b"
  assumes drift_refl: "drift b b"
    and call_simulates: "call c s a t \<Longrightarrow>
      \<exists>b b'. drift (abs_of s) b \<and> spec b c a b' \<and> drift b' (abs_of t)"
begin

lemma run_simulates: "call_run call s h t \<Longrightarrow> spec_run spec drift (abs_of s) h (abs_of t)"
proof (induction h arbitrary: s)
  case Nil
  then show ?case by (auto intro: run_nil drift_refl)
next
  case (Cons ca h)
  obtain c a where ca: "ca = (c, a)" by fastforce
  with Cons.prems obtain u where u: "call c s a u" "call_run call u h t" by auto
  obtain b b' where "drift (abs_of s) b" "spec b c a b'" "drift b' (abs_of u)"
    using call_simulates [OF u(1)] by blast
  then show ?case unfolding ca using Cons.IH [OF u(2)] by (rule run_call)
qed

end

subsection \<open>The book\<close>

text \<open>
  The accounts by their collated name. \<open>Refused\<close> registrations may have made the account
  all the same; a login of an unknown name and one during a failure of the database look
  alike, and say nothing about the book.
\<close>

type_synonym book = "string \<Rightarrow> user option"

datatype account_call =
  Register string string string
| Login string string int
| Logout u64 string

datatype account_answer =
  Registration bool string u64
| Session bool string string string
| Farewell bool

inductive book_step ::
  "(string \<Rightarrow> string) \<Rightarrow> 'w user_env \<Rightarrow> book \<Rightarrow> account_call \<Rightarrow> account_answer \<Rightarrow> book \<Rightarrow> bool"
  for coll env where
  registered: "b (coll n) = None \<Longrightarrow> i \<noteq> 0 \<Longrightarrow> bcrypt_hash env p 12 v = (Ret h, v') \<Longrightarrow>
     book_step coll env b (Register n p k) (Registration True ''SUCCESS'' i)
       (b(coll n \<mapsto> new_row i n h k ''http://mock/avatar.jpg''))"
| taken: "b (coll n) \<noteq> None \<Longrightarrow>
     book_step coll env b (Register n p k) (Registration False ''USER_ALREADY_EXISTS'' 0) b"
| refused: "b \<subseteq>\<^sub>m b' \<Longrightarrow>
     book_step coll env b (Register n p k) (Registration False ''SERVER_INTERNAL_ERROR'' 0) b'"
| session_opened: "b (coll n) = Some u \<Longrightarrow> bcrypt_validate env p (password_hash u) \<Longrightarrow> token \<noteq> [] \<Longrightarrow>
     book_step coll env b (Login n p t)
       (Session True ''SUCCESS'' token (write_json env (user_info u))) b"
| wrong_password: "b (coll n) = Some u \<Longrightarrow> \<not> bcrypt_validate env p (password_hash u) \<Longrightarrow>
     book_step coll env b (Login n p t) (Session False ''PASSWORD_ERROR'' [] []) b"
| no_token: "b (coll n) = Some u \<Longrightarrow> bcrypt_validate env p (password_hash u) \<Longrightarrow>
     book_step coll env b (Login n p t) (Session False ''SERVER_INTERNAL_ERROR'' [] []) b"
| not_found: "book_step coll env b (Login n p t) (Session False ''USER_NOT_FOUND'' [] []) b"
| farewell: "book_step coll env b (Logout i token) (Farewell ok) b"

inductive_cases book_register_TrueE:
  "book_step coll env b (Register n p k) (Registration True m i) b'"
inductive_cases book_login_TrueE: "book_step coll env b (Login n p t) (Session True m token info) b'"
inductive_cases book_login_wrongE:
  "book_step coll env b (Login n p t) (Session False ''PASSWORD_ERROR'' token info) b'"

abbreviation book_run ::
  "(string \<Rightarrow> string) \<Rightarrow> 'w user_env \<Rightarrow> book \<Rightarrow> (account_call \<times> account_answer) list \<Rightarrow> book \<Rightarrow> bool" where
  "book_run coll env \<equiv> spec_run (book_step coll env) (\<subseteq>\<^sub>m)"

subsection \<open>What the specification implies\<close>

lemma book_step_le: "book_step coll env b c a b' \<Longrightarrow> b \<subseteq>\<^sub>m b'"
  by (induction rule: book_step.induct) (auto simp: map_le_def)

lemma book_run_le: "book_run coll env b h b' \<Longrightarrow> b \<subseteq>\<^sub>m b'"
proof (induction rule: spec_run.induct)
  case (run_call b b1 c a b2 b3 h b')
  then show ?case by (meson book_step_le map_le_trans)
qed

lemma book_run_drift:
  assumes "book_run coll env b h b'" "a \<subseteq>\<^sub>m b"
  shows "book_run coll env a h b'"
  using assms by (cases rule: spec_run.cases) (auto intro: spec_run.intros map_le_trans)

lemma map_leD: "b \<subseteq>\<^sub>m b' \<Longrightarrow> b x = Some y \<Longrightarrow> b' x = Some y"
  by (metis domI map_le_def)

text \<open>The calls of a run after the first one start from a larger book.\<close>

lemma book_run_nth:
  "book_run coll env b h b' \<Longrightarrow> j < length h \<Longrightarrow>
     \<exists>b1 b2. b \<subseteq>\<^sub>m b1 \<and> book_step coll env b1 (fst (h ! j)) (snd (h ! j)) b2 \<and>
       book_run coll env b2 (drop (Suc j) h) b'"
proof (induction arbitrary: j rule: spec_run.induct)
  case (run_nil b b')
  then show ?case by simp
next
  case (run_call b b1 c a b2 b3 h b')
  show ?case
  proof (cases j)
    case 0
    have "book_run coll env b2 h b'"
      using run_call(4,3) by (rule book_run_drift)
    with 0 run_call(1,2) show ?thesis by auto
  next
    case (Suc k)
    with run_call.prems obtain c1 c2 where "b3 \<subseteq>\<^sub>m c1"
      "book_step coll env c1 (fst (h ! k)) (snd (h ! k)) c2" "book_run coll env c2 (drop (Suc k) h) b'"
      using run_call.IH [of k] by auto
    moreover have "b \<subseteq>\<^sub>m b3" using run_call(1,2,3) by (meson book_step_le map_le_trans)
    ultimately show ?thesis using Suc by (auto intro: map_le_trans)
  qed
qed

text \<open>
  After a registration that succeeded, no other of the name succeeds, and a login is
  answered by whether the password validates against the hash that was made for it.
\<close>

lemma book_registered:
  assumes run: "book_run coll env b h b'" and ij: "i < j" "j < length h"
    and reg: "h ! i = (Register n p k, Registration True m uid)"
  shows "\<exists>v hash v'. bcrypt_hash env p 12 v = (Ret hash, v') \<and>
           (\<forall>n2 p2 k2 m2 uid2. h ! j = (Register n2 p2 k2, Registration True m2 uid2) \<longrightarrow>
              coll n2 \<noteq> coll n) \<and>
           (\<forall>n2 p2 t m2 token info. h ! j = (Login n2 p2 t, Session True m2 token info) \<longrightarrow>
              coll n2 = coll n \<longrightarrow> bcrypt_validate env p2 hash) \<and>
           (\<forall>n2 p2 t token info. h ! j = (Login n2 p2 t, Session False ''PASSWORD_ERROR'' token info) \<longrightarrow>
              coll n2 = coll n \<longrightarrow> \<not> bcrypt_validate env p2 hash)"
proof -
  obtain b1 b2 where b2: "book_step coll env b1 (Register n p k) (Registration True m uid) b2"
    "book_run coll env b2 (drop (Suc i) h) b'"
    using book_run_nth [OF run, of i] ij reg by auto
  then obtain v hash v' where h: "bcrypt_hash env p 12 v = (Ret hash, v')"
    "b2 (coll n) = Some (new_row uid n hash k ''http://mock/avatar.jpg'')"
    by (auto elim!: book_register_TrueE)
  have "j - Suc i < length (drop (Suc i) h)" "drop (Suc i) h ! (j - Suc i) = h ! j"
    using ij by auto
  then obtain b3 b4 where b3: "b2 \<subseteq>\<^sub>m b3" "book_step coll env b3 (fst (h ! j)) (snd (h ! j)) b4"
    using book_run_nth [OF b2(2), of "j - Suc i"] by auto
  have u: "b3 (coll n) = Some (new_row uid n hash k ''http://mock/avatar.jpg'')"
    using map_leD [OF b3(1) h(2)] .
  have hash: "password_hash (new_row uid n hash k a) = hash" for a by (simp add: new_row_def)
  show ?thesis
    using h(1) b3(2) u hash
    by (intro exI [of _ v] exI [of _ hash] exI [of _ v'])
       (auto elim!: book_register_TrueE book_login_TrueE book_login_wrongE)
qed

subsection \<open>The service refines the book\<close>

definition serve_call :: "'w user_env \<Rightarrow> account_call \<Rightarrow> ('w app, account_answer) comp" where
  "serve_call env c =
     (case c of
        Register n p k \<Rightarrow> bind_comp (register env n p k) (\<lambda>(ok, m, i). ret (Registration ok m i))
      | Login n p t \<Rightarrow> bind_comp (login env n p t) (\<lambda>(ok, m, token, info). ret (Session ok m token info))
      | Logout i token \<Rightarrow> bind_comp (logout env i token) (\<lambda>ok. ret (Farewell ok)))"

primrec serve_calls :: "'w user_env \<Rightarrow> account_call list \<Rightarrow> ('w app, account_answer list) comp" where
  "serve_calls env [] = ret []"
| "serve_calls env (c # cs) =
     bind_comp (serve_call env c) (\<lambda>a. bind_comp (serve_calls env cs) (\<lambda>as. ret (a # as)))"

text \<open>Hashing and tokens leave the table to the others.\<close>

definition leaves_users :: "('w \<Rightarrow> user list) \<Rightarrow> 'w user_env \<Rightarrow> bool" where
  "leaves_users tbl env \<longleftrightarrow>
     (\<forall>p. keeps_users tbl (hash_password env p)) \<and>
     (\<forall>i t. keeps_users tbl (generate_and_save_token (user_tokens env) i t)) \<and>
     (\<forall>i t. keeps_users tbl (verify_token (user_tokens env) i t)) \<and>
     (\<forall>i. keeps_users tbl (delete_token (user_tokens env) i))"

definition book_of :: "(string \<Rightarrow> string) \<Rightarrow> user list \<Rightarrow> book" where
  "book_of coll t k = List.find (\<lambda>u. coll (username u) = k) t"

definition served_call ::
  "(string \<Rightarrow> string) \<Rightarrow> ('w \<Rightarrow> user list) \<Rightarrow> ('w \<Rightarrow> conn \<Rightarrow> u64) \<Rightarrow> 'w user_env \<Rightarrow>
     account_call \<Rightarrow> 'w app \<Rightarrow> account_answer \<Rightarrow> 'w app \<Rightarrow> bool" where
  "served_call coll tbl lid env c s a t \<longleftrightarrow>
     users_table coll tbl lid (user_db env) \<and> leaves_users tbl env \<and> serve_call env c s = (Ret a, t)"

lemma book_of_name: "book_of coll t (coll n) = by_name coll t n"
  by (simp add: book_of_def by_name_def)

lemma find_append:
  "List.find P (xs @ ys) = (case List.find P xs of None \<Rightarrow> List.find P ys | Some x \<Rightarrow> Some x)"
  by (induction xs) auto

lemma book_of_prefix: "prefix t t' \<Longrightarrow> book_of coll t \<subseteq>\<^sub>m book_of coll t'"
  by (auto simp: prefix_def map_le_def book_of_def find_append)

lemma book_of_grown: "grown tbl w w' \<Longrightarrow> book_of coll (tbl w) \<subseteq>\<^sub>m book_of coll (tbl w')"
  unfolding grown_prefix by (rule book_of_prefix)

lemma book_of_new:
  assumes "by_name coll t n = None" "username u = n"
  shows "book_of coll (t @ [u]) = (book_of coll t)(coll n \<mapsto> u)"
proof
  fix k
  show "book_of coll (t @ [u]) k = ((book_of coll t)(coll n \<mapsto> u)) k"
    using assms by (auto simp: book_of_def by_name_def find_append split: option.split)
qed

lemma register_False:
  assumes "users_table coll tbl lid (user_db env)" "keeps_users tbl (hash_password env p)"
    and "register env n p k s = (Ret (False, m, i), t)"
  shows "grown tbl (world s) (world t) \<and> i = 0 \<and>
         (m = ''USER_ALREADY_EXISTS'' \<and> by_name coll (tbl (world t)) n \<noteq> None \<or>
          m = ''SERVER_INTERNAL_ERROR'')"
proof -
  obtain x s1 where f: "find_by_username (user_db env) n s = (Ret x, s1)"
    using assms(3) by (auto simp: register_def bind_comp_Ret)
  have g1: "grown tbl (world s) (world s1)" using find_by_username_rel [OF assms(1) f] by blast
  show ?thesis
  proof (cases x)
    case (Some u)
    then have "t = s1" "m = ''USER_ALREADY_EXISTS''" "i = 0"
      using assms(3) f by (simp_all add: register_def bind_comp_def ret_def)
    with g1 find_by_username_Some [OF assms(1) f [unfolded Some]] show ?thesis by auto
  next
    case None
    let ?u = "\<lambda>h. default_user\<lparr>username := n, password_hash := h, nickname := k,
        avatar_url := ''http://mock/avatar.jpg''\<rparr>"
    obtain h s2 r s3 where h: "on_world (hash_password env p) s1 = (Ret h, s2)"
      and x: "insert_user (user_db env) (?u h) s2 = (r, s3)"
      and t: "t = s3" "m = ''SERVER_INTERNAL_ERROR''" "i = 0"
      using assms(3) f None
      by (auto simp: register_def bind_comp_def ret_def split: outcome.splits prod.splits if_splits)
    have "grown tbl (world s1) (world t)"
      unfolding t(1)
      by (rule transpD [OF grown_trans keeps_users_grown [OF assms(2) h] insert_user_rel [OF assms(1) x]])
    with g1 have "grown tbl (world s) (world t)" by (rule transpD [OF grown_trans])
    with t show ?thesis by simp
  qed
qed

lemma register_simulates:
  assumes "served_call coll tbl lid env (Register n p k) s a t"
  shows "\<exists>b b'. book_of coll (tbl (world s)) \<subseteq>\<^sub>m b \<and> book_step coll env b (Register n p k) a b' \<and>
           b' \<subseteq>\<^sub>m book_of coll (tbl (world t))"
proof -
  have c: "users_table coll tbl lid (user_db env)" "keeps_users tbl (hash_password env p)"
    using assms by (simp_all add: served_call_def leaves_users_def)
  obtain ok m i where r: "register env n p k s = (Ret (ok, m, i), t)" "a = Registration ok m i"
    using assms by (auto simp: served_call_def serve_call_def bind_comp_Ret ret_def)
  show ?thesis
  proof (cases ok)
    case True
    with r(1) have "register env n p k s = (Ret (True, m, i), t)" by simp
    from register_inserts [OF c this] obtain h v v' t0 where
      w: "m = ''SUCCESS''" "i \<noteq> 0" "bcrypt_hash env p 12 v = (Ret h, v')" "prefix (tbl (world s)) t0"
        "by_name coll t0 n = None"
        "prefix (t0 @ [new_row i n h k ''http://mock/avatar.jpg'']) (tbl (world t))"
      by blast
    have "book_of coll (t0 @ [new_row i n h k ''http://mock/avatar.jpg'']) =
        (book_of coll t0)(coll n \<mapsto> new_row i n h k ''http://mock/avatar.jpg'')"
      using w(5) by (rule book_of_new) (simp add: new_row_def)
    then have "(book_of coll t0)(coll n \<mapsto> new_row i n h k ''http://mock/avatar.jpg'') \<subseteq>\<^sub>m
        book_of coll (tbl (world t))"
      using book_of_prefix [OF w(6), of coll] by simp
    moreover have "book_step coll env (book_of coll t0) (Register n p k) a
        ((book_of coll t0)(coll n \<mapsto> new_row i n h k ''http://mock/avatar.jpg''))"
      unfolding r(2) w(1) using True w(2,3,5) by (simp add: book_step.registered book_of_name)
    ultimately show ?thesis using book_of_prefix [OF w(4)] by blast
  next
    case False
    with r have r: "register env n p k s = (Ret (False, m, i), t)" "a = Registration False m i"
      by simp_all
    from register_False [OF c r(1)] have g: "book_of coll (tbl (world s)) \<subseteq>\<^sub>m book_of coll (tbl (world t))"
      and i: "i = 0"
      "m = ''USER_ALREADY_EXISTS'' \<and> book_of coll (tbl (world t)) (coll n) \<noteq> None \<or>
       m = ''SERVER_INTERNAL_ERROR''"
      by (simp_all add: book_of_grown book_of_name)
    then have "book_step coll env (book_of coll (tbl (world t))) (Register n p k) a
        (book_of coll (tbl (world t)))"
      unfolding r(2) using book_step.taken book_step.refused [OF map_le_refl] by metis
    with g show ?thesis using map_le_refl by blast
  qed
qed

lemma user_info_selected [simp]: "user_info (selected u) = user_info u"
  "password_hash (selected u) = password_hash u" "user_id (selected u) = user_id u"
  by (simp_all add: user_info_def selected_def)

lemma login_simulates:
  assumes "served_call coll tbl lid env (Login n p ct) s a t"
  shows "\<exists>b b'. book_of coll (tbl (world s)) \<subseteq>\<^sub>m b \<and> book_step coll env b (Login n p ct) a b' \<and>
           b' \<subseteq>\<^sub>m book_of coll (tbl (world t))"
proof -
  have users: "users_table coll tbl lid (user_db env)"
    and keeps: "\<And>i. keeps_users tbl (generate_and_save_token (user_tokens env) i ct)"
    using assms by (simp_all add: served_call_def leaves_users_def)
  obtain ok m token info where r: "login env n p ct s = (Ret (ok, m, token, info), t)"
    "a = Session ok m token info"
    using assms by (auto simp: served_call_def serve_call_def bind_comp_Ret ret_def)
  obtain x s1 where f: "find_by_username (user_db env) n s = (Ret x, s1)"
    using r(1) by (auto simp: login_def bind_comp_Ret)
  have g1: "book_of coll (tbl (world s)) \<subseteq>\<^sub>m book_of coll (tbl (world s1))"
    using find_by_username_rel [OF users f] by (blast intro: book_of_grown)
  have tokens: "book_of coll (tbl (world x)) \<subseteq>\<^sub>m book_of coll (tbl (world y))"
    if "on_world (generate_and_save_token (user_tokens env) i ct) x = (q, y)" for i x q y
    by (rule book_of_grown [OF keeps_users_grown [OF keeps that]])
  have later: "book_of coll (tbl (world s1)) \<subseteq>\<^sub>m book_of coll (tbl (world t))"
    using r(1) f tokens
    by (auto simp: login_def bind_comp_def ret_def split: outcome.splits prod.splits option.splits if_splits)
  have "book_step coll env (book_of coll (tbl (world s1))) (Login n p ct) a (book_of coll (tbl (world s1)))"
  proof (cases x)
    case None
    with r f have "a = Session False ''USER_NOT_FOUND'' [] []"
      by (auto simp: login_def bind_comp_def ret_def)
    then show ?thesis by (simp only: book_step.not_found)
  next
    case (Some u)
    obtain v where v: "by_name coll (tbl (world s1)) n = Some v" "u = selected v"
      using find_by_username_Some [OF users f [unfolded Some]] by blast
    then show ?thesis
      using r f Some
      by (auto simp: login_def bind_comp_def ret_def validate_password_def book_of_name
          split: outcome.splits prod.splits if_splits
          intro!: book_step.session_opened book_step.wrong_password book_step.no_token)
  qed
  with g1 later show ?thesis by blast
qed

lemma logout_simulates:
  assumes "served_call coll tbl lid env (Logout i token) s a t"
  shows "\<exists>b b'. book_of coll (tbl (world s)) \<subseteq>\<^sub>m b \<and> book_step coll env b (Logout i token) a b' \<and>
           b' \<subseteq>\<^sub>m book_of coll (tbl (world t))"
proof -
  have keeps: "keeps_users tbl (verify_token (user_tokens env) i token)"
    "keeps_users tbl (delete_token (user_tokens env) i)"
    using assms by (simp_all add: served_call_def leaves_users_def)
  obtain ok where r: "logout env i token s = (Ret ok, t)" "a = Farewell ok"
    using assms by (auto simp: served_call_def serve_call_def bind_comp_Ret ret_def)
  have "grown tbl (world s) (world t)"
    using r(1) keeps_users_grown [OF keeps(1)] keeps_users_grown [OF keeps(2)]
    by (fastforce simp: logout_def bind_comp_Ret ret_def split: if_splits
        dest: transpD [OF grown_trans])
  then have "book_of coll (tbl (world s)) \<subseteq>\<^sub>m book_of coll (tbl (world t))" by (rule book_of_grown)
  then show ?thesis unfolding r(2) by (metis map_le_refl book_step.farewell)
qed

interpretation accounts: simulated "served_call coll tbl lid env" "book_step coll env" "(\<subseteq>\<^sub>m)"
    "\<lambda>s. book_of coll (tbl (world s))"
  for coll :: "string \<Rightarrow> string" and tbl :: "'w \<Rightarrow> user list" and lid :: "'w \<Rightarrow> conn \<Rightarrow> u64"
    and env :: "'w user_env"
proof unfold_locales
  fix c :: account_call and s t :: "'w app" and a
  assume "served_call coll tbl lid env c s a t"
  then show "\<exists>b b'. book_of coll (tbl (world s)) \<subseteq>\<^sub>m b \<and> book_step coll env b c a b' \<and>
      b' \<subseteq>\<^sub>m book_of coll (tbl (world t))"
  proof (cases c)
    case (Register n p k)
    from register_simulates [OF \<open>served_call coll tbl lid env c s a t\<close> [unfolded Register]]
    show ?thesis unfolding Register .
  next
    case (Login n p ct)
    from login_simulates [OF \<open>served_call coll tbl lid env c s a t\<close> [unfolded Login]]
    show ?thesis unfolding Login .
  next
    case (Logout i token)
    from logout_simulates [OF \<open>served_call coll tbl lid env c s a t\<close> [unfolded Logout]]
    show ?thesis unfolding Logout .
  qed
qed simp

lemma serve_calls_run:
  assumes "users_table coll tbl lid (user_db env)" "leaves_users tbl env"
    and "serve_calls env cs s = (Ret as, t)"
  shows "length as = length cs \<and> call_run (served_call coll tbl lid env) s (zip cs as) t"
  using assms(3)
proof (induction cs arbitrary: s as)
  case Nil
  then show ?case by (simp add: ret_def)
next
  case (Cons c cs)
  then obtain a u bs where u: "serve_call env c s = (Ret a, u)" "serve_calls env cs u = (Ret bs, t)"
    "as = a # bs"
    by (auto simp: bind_comp_Ret ret_def)
  from Cons.IH [OF u(2)] u assms(1,2) show ?case by (auto simp: served_call_def)
qed

text \<open>
  C5. The account service refines the book of accounts: every sequence of registrations,
  logins and logouts that is answered, with whatever failures and retries, is a history of
  the book, from the accounts in the table before it to those in the table after it.
\<close>

theorem accounts_refine_book:
  assumes "users_table coll tbl lid (user_db env)" "leaves_users tbl env"
    and "serve_calls env cs s = (Ret as, t)"
  shows "length as = length cs \<and>
         book_run coll env (book_of coll (tbl (world s))) (zip cs as) (book_of coll (tbl (world t)))"
  using serve_calls_run [OF assms] accounts.run_simulates by blast

text \<open>
  C6. A name is registered once and keeps its password: after a registration that succeeded,
  no later one of a name the collation identifies with it succeeds, a later login that
  succeeds gave a password that validates against the hash made at the registration, and one
  refused for its password gave one that does not, whatever the database does in between.
\<close>

theorem registered_once:
  assumes "users_table coll tbl lid (user_db env)" "leaves_users tbl env"
    and "serve_calls env cs s = (Ret as, t)" "i < j" "j < length cs"
    and "cs ! i = Register n p k" "as ! i = Registration True m uid"
  shows "\<exists>v hash v'. bcrypt_hash env p 12 v = (Ret hash, v') \<and>
           (\<forall>n2 p2 k2 m2 uid2. cs ! j = Register n2 p2 k2 \<and> as ! j = Registration True m2 uid2 \<longrightarrow>
              coll n2 \<noteq> coll n) \<and>
           (\<forall>n2 p2 ct m2 token info. cs ! j = Login n2 p2 ct \<and> as ! j = Session True m2 token info \<longrightarrow>
              coll n2 = coll n \<longrightarrow> bcrypt_validate env p2 hash) \<and>
           (\<forall>n2 p2 ct token info. cs ! j = Login n2 p2 ct \<and>
              as ! j = Session False ''PASSWORD_ERROR'' token info \<longrightarrow>
              coll n2 = coll n \<longrightarrow> \<not> bcrypt_validate env p2 hash)"
proof -
  have len: "length as = length cs"
    and run: "book_run coll env (book_of coll (tbl (world s))) (zip cs as) (book_of coll (tbl (world t)))"
    using serve_calls_run [OF assms(1-3)] accounts.run_simulates by blast+
  have j: "j < length (zip cs as)" using len assms(5) by simp
  have "zip cs as ! i = (Register n p k, Registration True m uid)"
    "zip cs as ! j = (cs ! j, as ! j)"
    using assms(4-7) len by simp_all
  from book_registered [OF run assms(4) j this(1)] this(2) show ?thesis by simp
qed

subsection \<open>An instance\<close>

lemma mem_leaves_users: "leaves_users mem_users mem_env"
  unfolding leaves_users_def
  by (intro conjI allI mem_env_keeps_users mem_env_token_keeps)
     (auto simp: keeps_users_def grown_def verify_token_def delete_token_def redis_set_def redis_delete_def
       mem_env_def mem_redis_def bind_comp_def ret_def Let_def split: if_splits prod.splits)

definition demo_calls :: "account_call list" where
  "demo_calls = [Register ''bob'' ''secret'' ''Bob'', Register ''bob'' ''other'' ''Eve'', Logout 1 ''x'']"

definition demo_answers :: "account_answer list" where
  "demo_answers = [Registration True ''SUCCESS'' 1, Registration False ''USER_ALREADY_EXISTS'' 0,
     Farewell True]"

lemma demo_run: "\<exists>t. serve_calls mem_env demo_calls mem_start = (Ret demo_answers, t)"
proof -
  have "fst (serve_calls mem_env demo_calls mem_start) = Ret demo_answers" by code_simp
  then show ?thesis by (metis prod.collapse)
qed

text \<open>The same calls while others register users between all statements.\<close>

definition busy_env :: "mem user_env" where
  "busy_env = mem_env\<lparr>user_db := busy_db\<rparr>"

definition busy_answers :: "account_answer list" where
  "busy_answers = [Registration True ''SUCCESS'' 3, Registration False ''USER_ALREADY_EXISTS'' 0,
     Farewell True]"

lemma busy_run: "\<exists>t. serve_calls busy_env demo_calls mem_start = (Ret busy_answers, t)"
proof -
  have "fst (serve_calls busy_env demo_calls mem_start) = Ret busy_answers" by code_simp
  then show ?thesis by (metis prod.collapse)
qed

lemma busy_leaves_users: "leaves_users mem_users busy_env"
  using mem_leaves_users by (simp add: leaves_users_def busy_env_def hash_password_def)

theorem accounts_refine_book_witness:
  "\<exists>b. book_run id busy_env Map.empty (zip demo_calls busy_answers) b \<and> b ''bob'' \<noteq> None"
proof -
  obtain t where t: "serve_calls busy_env demo_calls mem_start = (Ret busy_answers, t)"
    using busy_run by blast
  have "book_of id (mem_users (world mem_start)) = Map.empty"
    by (simp add: fun_eq_iff book_of_def mem_start_def)
  with accounts_refine_book [OF _ busy_leaves_users t, of id "\<lambda>m c. mem_last m"]
  have run: "book_run id busy_env Map.empty (zip demo_calls busy_answers)
      (book_of id (mem_users (world t)))"
    by (simp add: busy_env_def busy_db_users)
  obtain b1 b2 where b: "book_step id busy_env b1 (Register ''bob'' ''secret'' ''Bob'')
      (Registration True ''SUCCESS'' 3) b2"
    "book_run id busy_env b2 (drop 1 (zip demo_calls busy_answers)) (book_of id (mem_users (world t)))"
    using book_run_nth [OF run, of 0] by (auto simp: demo_calls_def busy_answers_def)
  then have "b2 ''bob'' \<noteq> None" by (auto elim!: book_register_TrueE)
  then have "book_of id (mem_users (world t)) ''bob'' \<noteq> None"
    using book_run_le [OF b(2)] by (auto dest: map_leD)
  with run show ?thesis by blast
qed

theorem registered_once_witness:
  "\<exists>t. serve_calls mem_env demo_calls mem_start = (Ret demo_answers, t) \<and>
     (\<exists>v hash v'. bcrypt_hash mem_env ''secret'' 12 v = (Ret hash, v'))"
proof -
  obtain t where t: "serve_calls mem_env demo_calls mem_start = (Ret demo_answers, t)"
    using demo_run by blast
  have users: "users_table id mem_users (\<lambda>m c. mem_last m) (user_db mem_env)"
    by (simp add: mem_db_users)
  have c: "(0::nat) < 1" "1 < length demo_calls"
    "demo_calls ! 0 = Register ''bob'' ''secret'' ''Bob''"
    "demo_answers ! 0 = Registration True ''SUCCESS'' 1"
    by (simp_all add: demo_calls_def demo_answers_def)
  from registered_once [OF users mem_leaves_users t c] t show ?thesis by blast
qed

end
