(* ===== verification/Mongo_Pool.thy ===== *)
theory Mongo_Pool
  imports Prelude
begin

section \<open>The MongoDB connection pool\<close>

text \<open>
  \<open>MongoConnectionPool\<close> of \<open>common/src/db/mongo_pool.cpp\<close>: its flags and whether
  there is a driver pool, and the redaction of the URI it logs. The driver is a parameter
  on the world outside.
\<close>

subsection \<open>Redaction\<close>

definition mongo_prefix :: string where
  "mongo_prefix = ''mongodb://''"

text \<open>\<open>s.find(c, pos)\<close>.\<close>

definition find_char_from :: "char \<Rightarrow> string \<Rightarrow> nat \<Rightarrow> nat option" where
  "find_char_from c s pos = map_option (\<lambda>i. pos + i) (find_char c (drop pos s))"

definition redact_uri :: "string \<Rightarrow> string" where
  "redact_uri uri =
     (if length uri < length mongo_prefix \<or> take (length mongo_prefix) uri \<noteq> mongo_prefix
      then ''<uri>''
      else
        (let at_pos = find_char (CHR ''@'') uri;
             auth_start = length mongo_prefix;
             colon_pos = find_char_from (CHR '':'') uri auth_start
         in case (at_pos, colon_pos) of
              (Some at, Some colon) \<Rightarrow>
                (if colon < at
                 then take (colon + 1) uri @ ''***'' @ drop (colon + 1 + (at - colon - 1)) uri
                 else uri)
            | _ \<Rightarrow> uri))"

lemma find_char_from_append:
  assumes "length u = pos" "c \<notin> set v"
  shows "find_char_from c (u @ v @ c # x) pos = Some (pos + length v)"
proof -
  have "drop pos (u @ v @ c # x) = v @ c # x" using assms(1) by simp
  then show ?thesis using find_char_first [OF assms(2)] by (simp add: find_char_from_def)
qed

lemma redact_general:
  assumes "CHR '':'' \<notin> set usr" "CHR ''@'' \<notin> set usr" "CHR ''@'' \<notin> set pw"
  shows "redact_uri (mongo_prefix @ usr @ CHR '':'' # pw @ CHR ''@'' # host) =
           mongo_prefix @ usr @ CHR '':'' # ''***'' @ CHR ''@'' # host"
proof -
  let ?pre = "mongo_prefix @ usr @ [CHR '':'']"
  let ?uri = "mongo_prefix @ usr @ CHR '':'' # pw @ CHR ''@'' # host"
  have "CHR ''@'' \<notin> set mongo_prefix" by (simp add: mongo_prefix_def)
  then have at: "find_char (CHR ''@'') ?uri = Some (length ?pre + length pw)"
    using find_char_first [of "CHR ''@''" "?pre @ pw" host] assms(2,3) by simp
  have colon: "find_char_from (CHR '':'') ?uri (length mongo_prefix) =
      Some (length mongo_prefix + length usr)"
    by (rule find_char_from_append [OF refl assms(1)])
  show ?thesis
    unfolding redact_uri_def using at colon by (simp add: Let_def)
qed

text \<open>
  The URI in the log does not depend on the password: for every user name without a
  colon or at sign and every password without an at sign the password is replaced by three
  stars and all else is kept.
\<close>

theorem redact_hides_password:
  assumes "CHR '':'' \<notin> set usr" "CHR ''@'' \<notin> set usr" "CHR ''@'' \<notin> set pw"
  shows "redact_uri (''mongodb://'' @ usr @ '':'' @ pw @ ''@'' @ host) =
           ''mongodb://'' @ usr @ '':***@'' @ host"
  using redact_general [OF assms] by (simp add: mongo_prefix_def)

theorem redact_hides_password_witness:
  "redact_uri ''mongodb://app:s3cret@db:27017/chat'' = ''mongodb://app:***@db:27017/chat''"
  using redact_hides_password [of "''app''" "''s3cret''" "''db:27017/chat''"] by simp

subsection \<open>The pool\<close>

record mongo_pool =
  mongo_initialized :: bool
  mongo_shutdown_flag :: bool
  mongo_open :: bool

record 'v mongo_world =
  mongo :: mongo_pool
  outside :: 'v

definition new_mongo :: mongo_pool where
  "new_mongo = \<lparr>mongo_initialized = False, mongo_shutdown_flag = False, mongo_open = False\<rparr>"

definition on_outside :: "('v, 'a) comp \<Rightarrow> ('v mongo_world, 'a) comp" where
  "on_outside m s = (case m (outside s) of (r, v) \<Rightarrow> (r, s\<lparr>outside := v\<rparr>))"

text \<open>The documents of the collection \<open>chat_db.messages\<close> and their getters.\<close>

record mongo_doc =
  doc_string :: "string \<Rightarrow> exn + string"
  doc_int32 :: "string \<Rightarrow> exn + int"

record mongo_cursor =
  docs :: "mongo_doc list"
  docs_end :: "exn option"

record msg_body =
  body_msg_id :: string
  body_content :: string
  body_msg_type :: int
  body_session_type :: int

record 'v mongo_driver =
  driver_start :: "('v, unit) comp"
  open_pool :: "string \<Rightarrow> 64 word \<Rightarrow> 64 word \<Rightarrow> ('v, unit) comp"
  acquire_entry :: "('v, unit) comp"
  insert_one :: "msg_body \<Rightarrow> ('v, bool) comp"
  find_in :: "string list \<Rightarrow> ('v, mongo_cursor) comp"
  mongo_sleep :: "int \<Rightarrow> 'v \<Rightarrow> 'v"

definition mongo_initialize ::
  "'v mongo_driver \<Rightarrow> string \<Rightarrow> int \<Rightarrow> int \<Rightarrow> ('v mongo_world, bool) comp" where
  "mongo_initialize drv uri_string min_pool_size max_pool_size s =
     (if mongo_initialized (mongo s)
      then (Ret True, s\<lparr>mongo := (mongo s)\<lparr>mongo_initialized := True\<rparr>\<rparr>)
      else
        catch_std
          (bind_comp (on_outside (driver_start drv)) (\<lambda>_.
           bind_comp
             (on_outside
                (open_pool drv uri_string (word_of_int min_pool_size) (word_of_int max_pool_size)))
             (\<lambda>_ t. (Ret True, t\<lparr>mongo := (mongo t)\<lparr>mongo_open := True\<rparr>\<rparr>))))
          (\<lambda>_ t. (Ret False, t\<lparr>mongo := (mongo t)\<lparr>mongo_initialized := False\<rparr>\<rparr>))
          (s\<lparr>mongo := (mongo s)\<lparr>mongo_initialized := True\<rparr>\<rparr>))"

definition get_connection :: "'v mongo_driver \<Rightarrow> ('v mongo_world, unit) comp" where
  "get_connection drv s =
     (if \<not> mongo_open (mongo s) \<or> mongo_shutdown_flag (mongo s)
      then (Exc (StdException ''MongoConnectionPool not initialized or already shutdown''), s)
      else on_outside (acquire_entry drv) s)"

definition mongo_shutdown :: "('v mongo_world, unit) comp" where
  "mongo_shutdown s =
     (if mongo_shutdown_flag (mongo s) then (Ret (), s)
      else (Ret (), s\<lparr>mongo := \<lparr>mongo_initialized = False, mongo_shutdown_flag = True,
                                mongo_open = False\<rparr>\<rparr>))"

lemma on_outside_mongo: "on_outside m s = (r, t) \<Longrightarrow> mongo t = mongo s"
  by (auto simp: on_outside_def split: prod.splits)

text \<open>
  A pool that was shut down stays unusable though it can be initialised again: after
  \<open>Shutdown\<close>, \<open>Initialize\<close> may well return true (it does when the driver obeys) and
  every \<open>GetConnection\<close> throws.
\<close>

theorem mongo_reinitialise_useless:
  assumes "mongo_shutdown s = (Ret (), s1)"
    and "mongo_initialize drv uri n m s1 = (r, s2)"
  shows "get_connection drv s2 =
           (Exc (StdException ''MongoConnectionPool not initialized or already shutdown''), s2)"
proof -
  have f: "mongo_shutdown_flag (mongo s1)"
    using assms(1) by (auto simp: mongo_shutdown_def split: if_splits)
  have "mongo_shutdown_flag (mongo s2)"
    using assms(2) f
    by (auto simp: mongo_initialize_def catch_std_def bind_comp_def dest!: on_outside_mongo
        split: if_splits prod.splits outcome.splits exn.splits)
  then show ?thesis by (simp add: get_connection_def)
qed

definition calm_driver :: "nat mongo_driver" where
  "calm_driver = \<lparr>driver_start = ret (), open_pool = (\<lambda>u n m. ret ()), acquire_entry = ret (),
     insert_one = (\<lambda>b. ret True), find_in = (\<lambda>ids. ret \<lparr>docs = [], docs_end = None\<rparr>),
     mongo_sleep = (\<lambda>d v. v)\<rparr>"

theorem mongo_reinitialise_useless_witness:
  "\<exists>s2. mongo_initialize calm_driver ''mongodb://h'' 5 20
           (snd (mongo_shutdown \<lparr>mongo = new_mongo, outside = 0\<rparr>)) = (Ret True, s2) \<and>
        fst (get_connection calm_driver s2) \<noteq> Ret ()"
proof -
  let ?s = "\<lparr>mongo = new_mongo, outside = 0\<rparr> :: nat mongo_world"
  have s1: "mongo_shutdown ?s = (Ret (), snd (mongo_shutdown ?s))"
    by (simp add: mongo_shutdown_def new_mongo_def)
  have "fst (mongo_initialize calm_driver ''mongodb://h'' 5 20 (snd (mongo_shutdown ?s))) = Ret True"
    by (simp add: mongo_initialize_def mongo_shutdown_def new_mongo_def calm_driver_def catch_std_def
        bind_comp_def on_outside_def ret_def)
  then obtain s2 where s2: "mongo_initialize calm_driver ''mongodb://h'' 5 20
      (snd (mongo_shutdown ?s)) = (Ret True, s2)"
    by (metis prod.collapse)
  from mongo_reinitialise_useless [OF s1 s2] s2 show ?thesis by simp
qed

end
