(* ===== verification/Chat_Logic.thy ===== *)
theory Chat_Logic
  imports Sensitive_Filter Retry Config
begin

section \<open>The logic service\<close>

text \<open>
  The path of a chat message through the logic service: \<open>LogicServiceImpl::SendMessage\<close>
  (\<open>logic/main.cpp\<close>), \<open>MessageProcessor\<close> and the two handlers. The clock and the RPC to
  the message service are parameters; the RPC is called under the retry executor. The
  branches of \<open>#if __has_include\<close> are both modelled, \<open>grpc_built\<close> chooses. The
  locale \<open>chat_handler\<close> is the contract of the abstract class \<open>BaseChatHandler\<close> as the
  processor needs it.
\<close>

subsection \<open>Messages and handlers\<close>

record chat_msg =
  msg_id :: string
  sender_id :: u64
  receiver_id :: u64
  session_type :: int
  msg_type :: int
  content :: string
  send_time :: int
  server_time :: int
  seq_id :: string

definition single_validate :: "chat_msg \<Rightarrow> bool" where
  "single_validate msg = (if sender_id msg = receiver_id msg then False else True)"

definition single_process_send ::
  "('w \<Rightarrow> int \<times> 'w) \<Rightarrow> trie_node \<Rightarrow> chat_msg \<Rightarrow> ('w, bool \<times> chat_msg) comp" where
  "single_process_send clock root msg w =
     (let msg =
        (if msg_type msg = 1 then
           (if has_sensitive_word root (content msg)
            then msg\<lparr>content := filter_text root (content msg)\<rparr> else msg)
         else msg)
      in case clock w of (t, w') \<Rightarrow> (Ret (True, msg\<lparr>server_time := t\<rparr>), w'))"

definition group_validate :: "chat_msg \<Rightarrow> bool" where
  "group_validate msg = (if receiver_id msg = 0 then False else True)"

definition group_process_send ::
  "('w \<Rightarrow> int \<times> 'w) \<Rightarrow> trie_node \<Rightarrow> chat_msg \<Rightarrow> ('w, bool \<times> chat_msg) comp" where
  "group_process_send clock root msg w =
     (let msg =
        (if msg_type msg = 1 then
           (if has_sensitive_word root (content msg)
            then msg\<lparr>content := filter_text root (content msg)\<rparr> else msg)
         else msg)
      in case clock w of (t, w') \<Rightarrow> (Ret (True, msg\<lparr>server_time := t\<rparr>), w'))"

datatype handler = SingleChatHandler | GroupChatHandler

fun validate :: "handler \<Rightarrow> chat_msg \<Rightarrow> bool" where
  "validate SingleChatHandler msg = single_validate msg"
| "validate GroupChatHandler msg = group_validate msg"

fun process_send ::
  "handler \<Rightarrow> ('w \<Rightarrow> int \<times> 'w) \<Rightarrow> trie_node \<Rightarrow> chat_msg \<Rightarrow> ('w, bool \<times> chat_msg) comp" where
  "process_send SingleChatHandler clock root msg = single_process_send clock root msg"
| "process_send GroupChatHandler clock root msg = group_process_send clock root msg"

definition get_handler :: "int \<Rightarrow> handler option" where
  "get_handler st =
     (if st = 1 then Some SingleChatHandler
      else if st = 2 then Some GroupChatHandler
      else None)"

subsection \<open>The message service seen from here\<close>

record save_req =
  req_msg_id :: string
  req_sender_id :: u64
  req_receiver_id :: u64
  req_session_type :: int
  req_msg_type :: int
  req_content :: string

record save_resp =
  resp_code :: int
  resp_msg :: string
  resp_seq_id :: string

text \<open>
  \<open>save_rpc\<close> is \<open>stub->SaveMsg\<close>, with the channel, the deadline of three seconds and the
  network behind it: an error message when the status is not ok, the response otherwise.
\<close>

record 'w logic_env =
  filter_root :: trie_node
  clock_now :: "'w \<Rightarrow> int \<times> 'w"
  save_rpc :: "save_req \<Rightarrow> 'w \<Rightarrow> (string + save_resp) \<times> 'w"
  logic_sleep :: "int \<Rightarrow> 'w \<Rightarrow> 'w"
  grpc_built :: bool

definition request_of :: "chat_msg \<Rightarrow> save_req" where
  "request_of msg =
     \<lparr>req_msg_id = msg_id msg, req_sender_id = sender_id msg, req_receiver_id = receiver_id msg,
      req_session_type = session_type msg, req_msg_type = msg_type msg,
      req_content = content msg\<rparr>"

definition save_attempt :: "'w logic_env \<Rightarrow> chat_msg \<Rightarrow> ('w, string) comp" where
  "save_attempt env msg w =
     (case save_rpc env (request_of msg) w of
        (Inl e, w') \<Rightarrow> (Exc (StdException (''gRPC Error: '' @ e)), w')
      | (Inr resp, w') \<Rightarrow>
          (if resp_code resp \<noteq> 0
           then (Exc (StdException (''Business Error: '' @ resp_msg resp)), w')
           else (Ret (resp_seq_id resp), w')))"

text \<open>The result, the message and the output parameter.\<close>

definition call_message_service ::
  "'w logic_env \<Rightarrow> chat_msg \<Rightarrow> string \<Rightarrow> ('w, bool \<times> chat_msg \<times> string) comp" where
  "call_message_service env msg out_seq_id =
     (if grpc_built env then
        catch_all
          (bind_comp (execute_with_retry (logic_sleep env) 3 500 (save_attempt env msg))
             (\<lambda>seq. ret (True, msg\<lparr>seq_id := seq\<rparr>, seq)))
          (ret (False, msg, out_seq_id))
      else
        (\<lambda>w. case clock_now env w of (t, w') \<Rightarrow>
           (let seq = ''SEQ_'' @ to_string_int t @ ''_10001''
            in (Ret (True, msg\<lparr>seq_id := seq\<rparr>, seq), w'))))"

definition dispatch_to_push_service :: "chat_msg \<Rightarrow> ('w, bool) comp" where
  "dispatch_to_push_service msg = ret True"

definition process_incoming ::
  "'w logic_env \<Rightarrow> chat_msg \<Rightarrow> string \<Rightarrow> ('w, bool \<times> chat_msg \<times> string) comp" where
  "process_incoming env msg out_seq_id =
     (case get_handler (session_type msg) of
        None \<Rightarrow> ret (False, msg, out_seq_id)
      | Some handler \<Rightarrow>
          (if \<not> validate handler msg then ret (False, msg, out_seq_id)
           else
             bind_comp (process_send handler (clock_now env) (filter_root env) msg) (\<lambda>(ok, msg).
               if \<not> ok then ret (False, msg, out_seq_id)
               else
                 bind_comp (call_message_service env msg out_seq_id) (\<lambda>(saved, msg, seq).
                   if \<not> saved then ret (False, msg, seq)
                   else bind_comp (dispatch_to_push_service msg) (\<lambda>_. ret (True, msg, seq))))))"

text \<open>
  \<open>SendMessage\<close>: the message object is default-initialised, \<open>uninit\<close> is what it held.
  The response starts with the defaults of the protocol.
\<close>

record send_req =
  send_msg_id :: string
  send_sender_id :: u64
  send_receiver_id :: u64
  send_session_type :: int
  send_msg_type :: int
  send_content :: string

definition send_message ::
  "'w logic_env \<Rightarrow> chat_msg \<Rightarrow> send_req \<Rightarrow> ('w, save_resp) comp" where
  "send_message env uninit request w =
     (case clock_now env w of (t, w1) \<Rightarrow>
        (let msg = \<lparr>msg_id = send_msg_id request, sender_id = send_sender_id request,
               receiver_id = send_receiver_id request, session_type = send_session_type request,
               msg_type = send_msg_type request, content = send_content request,
               send_time = t, server_time = server_time uninit, seq_id = []\<rparr>
         in bind_comp (process_incoming env msg []) (\<lambda>(success, msg, final_seq_id).
              if success
              then ret \<lparr>resp_code = 0, resp_msg = ''SUCCESS'', resp_seq_id = final_seq_id\<rparr>
              else ret \<lparr>resp_code = 500, resp_msg = ''Internal Error or Validation Failed'',
                        resp_seq_id = []\<rparr>) w1))"

subsection \<open>The word list of the service\<close>

text \<open>The words built in, as the UTF-8 bytes of the source.\<close>

definition word_guns :: string where
  "word_guns = [CHR 0xE6, CHR 0x9E, CHR 0xAA, CHR 0xE6, CHR 0x94, CHR 0xAF]"

definition word_drugs :: string where
  "word_drugs = [CHR 0xE6, CHR 0xAF, CHR 0x92, CHR 0xE5, CHR 0x93, CHR 0x81]"

definition word_politics :: string where
  "word_politics = [CHR 0xE6, CHR 0x94, CHR 0xBF, CHR 0xE6, CHR 0xB2, CHR 0xBB,
     CHR 0xE6, CHR 0x95, CHR 0x8F, CHR 0xE6, CHR 0x84, CHR 0x9F]"

definition logic_words :: "config_map \<Rightarrow> string list" where
  "logic_words cfg =
     (let bad_words = get_string_list cfg ''sensitive_words''
      in if bad_words = [] then [word_guns, word_drugs, word_politics] else bad_words)"

definition logic_filter :: "config_map \<Rightarrow> trie_node" where
  "logic_filter cfg = init_words (logic_words cfg) new_node"

subsection \<open>The contract of a handler\<close>

text \<open>
  Processing a message always succeeds, stamps it, replaces the content of a text by what
  the filter makes of it and leaves the rest.
\<close>

definition screened :: "trie_node \<Rightarrow> chat_msg \<Rightarrow> string" where
  "screened root msg =
     (if msg_type msg = 1 \<and> has_sensitive_word root (content msg)
      then filter_text root (content msg) else content msg)"

locale chat_handler =
  fixes valid :: "chat_msg \<Rightarrow> bool"
    and process :: "('w \<Rightarrow> int \<times> 'w) \<Rightarrow> trie_node \<Rightarrow> chat_msg \<Rightarrow> ('w, bool \<times> chat_msg) comp"
  assumes process_result:
      "process clock root msg w =
         (Ret (True, msg\<lparr>content := screened root msg, server_time := fst (clock w)\<rparr>),
          snd (clock w))"
    and valid_content: "valid (msg\<lparr>content := c, server_time := t\<rparr>) = valid msg"
begin

lemma process_clean:
  assumes "built root" "process clock root msg w = (Ret (ok, msg'), w')" "msg_type msg = 1"
  shows "\<not> has_sensitive_word root (content msg')"
  using assms by (auto simp: process_result screened_def trie_filter.filt_clean split: if_splits)

lemma process_valid:
  "process clock root msg w = (Ret (ok, msg'), w') \<Longrightarrow> ok \<and> valid msg' = valid msg"
  by (auto simp: process_result valid_content)

end

interpretation single_handler: chat_handler single_validate single_process_send
  by unfold_locales (auto simp: single_validate_def single_process_send_def screened_def
      Let_def split: prod.split)

interpretation group_handler: chat_handler group_validate group_process_send
  by unfold_locales (auto simp: group_validate_def group_process_send_def screened_def
      Let_def split: prod.split)

interpretation any_handler: chat_handler "validate h" "process_send h" for h
  by (unfold_locales; cases h)
     (simp_all add: single_handler.process_result group_handler.process_result
        single_handler.valid_content group_handler.valid_content)

subsection \<open>Saving under retry\<close>

text \<open>The environment with a log of the requests the message service got.\<close>

definition logged :: "'w logic_env \<Rightarrow> ('w \<times> save_req list) logic_env" where
  "logged env =
     \<lparr>filter_root = filter_root env,
      clock_now = (\<lambda>(w, l). case clock_now env w of (t, w') \<Rightarrow> (t, (w', l))),
      save_rpc = (\<lambda>req (w, l). case save_rpc env req w of (r, w') \<Rightarrow> (r, (w', l @ [req]))),
      logic_sleep = (\<lambda>d (w, l). (logic_sleep env d w, l)),
      grpc_built = grpc_built env\<rparr>"

lemma logged_simps [simp]:
  "filter_root (logged env) = filter_root env" "grpc_built (logged env) = grpc_built env"
  "snd (snd (clock_now (logged env) (w, l))) = l"
  by (auto simp: logged_def split: prod.splits)

lemma save_attempt_log:
  "save_attempt (logged env) msg (w, l) = (r, (w', l')) \<Longrightarrow> l' = l @ [request_of msg]"
  by (auto simp: save_attempt_def logged_def split: prod.splits sum.splits if_splits)

lemma failing_log:
  "failing (save_attempt (logged env) msg) (logic_sleep (logged env) d) n (w, l) (u, l') \<Longrightarrow>
     l' = l @ replicate n (request_of msg)"
proof (induction n arbitrary: w l)
  case (Suc n)
  then obtain e w1 l1 where 1: "save_attempt (logged env) msg (w, l) = (Exc e, (w1, l1))"
    "failing (save_attempt (logged env) msg) (logic_sleep (logged env) d) n
       (logic_sleep (logged env) d (w1, l1)) (u, l')"
    by (auto split: prod.splits outcome.splits)
  have "logic_sleep (logged env) d (w1, l1) = (logic_sleep env d w1, l1)"
    by (simp add: logged_def)
  with Suc.IH 1(2) have "l' = l1 @ replicate n (request_of msg)" by simp
  with save_attempt_log [OF 1(1)] show ?case by simp
qed simp

lemma save_attempt_no_hang: "save_attempt env msg w \<noteq> (Hang, w')"
  by (auto simp: save_attempt_def split: prod.splits sum.splits)

lemma retry_save_result:
  assumes "execute_with_retry (logic_sleep env) 3 500 (save_attempt env msg) w = (r, w')"
  shows "r \<noteq> Hang \<and>
         (\<forall>seq. r = Ret seq \<longrightarrow> (\<exists>u resp. save_rpc env (request_of msg) u = (Inr resp, w') \<and>
            resp_code resp = 0 \<and> resp_seq_id resp = seq))"
proof -
  obtain n u where "save_attempt env msg u = (r, w')"
    using assms by (auto simp: execute_with_retry_def retry_loop_result)
  then show ?thesis
    by (auto simp: save_attempt_def split: prod.splits sum.splits if_splits)
qed

lemma retry_save_log:
  assumes "execute_with_retry (logic_sleep (logged env)) 3 500 (save_attempt (logged env) msg) (w, l) =
             (r, (w', l'))"
  shows "\<exists>n. n \<le> 3 \<and> l' = l @ replicate (Suc n) (request_of msg)"
proof -
  obtain n u k where n: "n \<le> 3"
    "failing (save_attempt (logged env) msg) (logic_sleep (logged env) 500) n (w, l) (u, k)"
    "save_attempt (logged env) msg (u, k) = (r, (w', l'))"
    using assms by (auto simp: execute_with_retry_def retry_loop_result)
  from failing_log [OF n(2)] save_attempt_log [OF n(3)]
  have "l' = l @ replicate n (request_of msg) @ [request_of msg]" by simp
  then have "l' = l @ replicate (Suc n) (request_of msg)"
    by (simp add: replicate_append_same)
  with n(1) show ?thesis by blast
qed

lemma call_result:
  assumes "call_message_service env msg out w = (r, w')"
  shows "\<exists>ok msg' seq. r = Ret (ok, msg', seq) \<and>
     (ok \<longrightarrow> msg' = msg\<lparr>seq_id := seq\<rparr>) \<and> (\<not> ok \<longrightarrow> msg' = msg \<and> seq = out) \<and>
     (ok \<and> grpc_built env \<longrightarrow> (\<exists>u resp. save_rpc env (request_of msg) u = (Inr resp, w') \<and>
        resp_code resp = 0 \<and> resp_seq_id resp = seq))"
proof (cases "grpc_built env")
  case True
  obtain q v where q: "execute_with_retry (logic_sleep env) 3 500 (save_attempt env msg) w = (q, v)"
    by fastforce
  show ?thesis
  proof (cases q)
    case (Ret seq)
    with assms True q have "r = Ret (True, msg\<lparr>seq_id := seq\<rparr>, seq)" "w' = v"
      by (simp_all add: call_message_service_def catch_all_def bind_comp_def ret_def)
    with retry_save_result [OF q] Ret show ?thesis
      by (intro exI [of _ True] exI [of _ "msg\<lparr>seq_id := seq\<rparr>"] exI [of _ seq]) blast
  qed (use retry_save_result [OF q] assms True q in
      \<open>auto simp: call_message_service_def catch_all_def bind_comp_def ret_def\<close>)
next
  case False
  with assms show ?thesis by (auto simp: call_message_service_def Let_def split: prod.splits)
qed

subsection \<open>Properties\<close>

text \<open>The rejected messages: unknown session types, a message to oneself, a group 0.\<close>

definition rejected :: "chat_msg \<Rightarrow> bool" where
  "rejected msg \<longleftrightarrow>
     session_type msg \<notin> {1, 2} \<or> session_type msg = 1 \<and> sender_id msg = receiver_id msg \<or>
     session_type msg = 2 \<and> receiver_id msg = 0"

lemma process_incoming_eq:
  "process_incoming env msg out w =
     (if rejected msg then (Ret (False, msg, out), w)
      else call_message_service env
             (msg\<lparr>content := screened (filter_root env) msg, server_time := fst (clock_now env w)\<rparr>)
             out (snd (clock_now env w)))"
proof (cases "rejected msg")
  case True
  then show ?thesis
    by (auto simp: process_incoming_def rejected_def get_handler_def single_validate_def
        group_validate_def ret_def)
next
  case False
  then obtain h where h: "get_handler (session_type msg) = Some h" "validate h msg"
    by (auto simp: rejected_def get_handler_def single_validate_def group_validate_def
        split: if_splits)
  let ?m = "msg\<lparr>content := screened (filter_root env) msg, server_time := fst (clock_now env w)\<rparr>"
  obtain r w' where r: "call_message_service env ?m out (snd (clock_now env w)) = (r, w')"
    by fastforce
  obtain ok m' seq where ok: "r = Ret (ok, m', seq)" using call_result [OF r] by blast
  show ?thesis
    using False h r ok
    by (cases ok) (simp_all add: process_incoming_def bind_comp_def any_handler.process_result
        dispatch_to_push_service_def ret_def)
qed

text \<open>
  The decision table of \<open>ProcessIncomingMessage\<close>: a rejected message is returned as it
  was and nothing is called; any other is screened, stamped and handed to the message
  service, whose answer is the result. The push service never makes it fail.
\<close>

theorem process_incoming_table:
  "process_incoming env msg out w =
     (if rejected msg then (Ret (False, msg, out), w)
      else call_message_service env
             (msg\<lparr>content := screened (filter_root env) msg, server_time := fst (clock_now env w)\<rparr>)
             out (snd (clock_now env w)))"
  by (rule process_incoming_eq)

text \<open>
  C1. No sensitive word of a text message reaches the message service, whatever attempts
  fail, when no word of the list has an asterisk in it: all the requests are the same, at
  most four, none when the message is rejected, at least one when the call succeeds, and
  their content, the filtered text, has no nonempty word of the list. (The asterisks written
  over a match could complete a word that has one: of \<open>ab\<close> and \<open>**\<close>, the text \<open>ab\<close> becomes the
  second.)
\<close>

theorem only_clean_requests:
  assumes "\<forall>w \<in> set words. CHR ''*'' \<notin> set w" "filter_root env = init_words words new_node"
    and "grpc_built env" "msg_type msg = 1"
    and "process_incoming (logged env) msg out (w, []) = (Ret (ok, msg', seq), (w', reqs))"
  shows "length reqs \<le> 4 \<and> (rejected msg \<longrightarrow> reqs = []) \<and> (ok \<longrightarrow> reqs \<noteq> []) \<and>
         (\<forall>req \<in> set reqs.
            req = request_of (msg\<lparr>content := filter_text (init_words words new_node) (content msg)\<rparr>) \<and>
            \<not> (\<exists>v \<in> set words. v \<noteq> [] \<and> sublist v (req_content req)))"
proof (cases "rejected msg")
  case True
  with assms(5) show ?thesis by (simp add: process_incoming_eq)
next
  case False
  have built: "built (filter_root env)"
    using assms(1,2) by (auto simp: built_def simp flip: filter_of_def)
  have scr: "screened (filter_root env) msg = filter_text (init_words words new_node) (content msg)"
    using trie_filter.guarded_filt [OF built, of "content msg"] assms(2,4)
    by (simp add: screened_def split: if_splits)
  have clean: "\<not> (\<exists>v \<in> set words. v \<noteq> [] \<and>
      sublist v (filter_text (init_words words new_node) (content msg)))"
    using trie_filter.filt_clean [OF built] assms(2) has_filter_of [of words]
    by (simp add: filter_of_def)
  let ?m = "msg\<lparr>content := screened (filter_root env) msg,
      server_time := fst (clock_now (logged env) (w, []))\<rparr>"
  obtain v l where v: "snd (clock_now (logged env) (w, [])) = (v, l)" by fastforce
  then have "l = []" using logged_simps(3) [of env w "[]"] by simp
  with v assms(5) False have call: "call_message_service (logged env) ?m out (v, []) =
      (Ret (ok, msg', seq), (w', reqs))"
    by (simp add: process_incoming_eq)
  obtain q x k where q: "execute_with_retry (logic_sleep (logged env)) 3 500
      (save_attempt (logged env) ?m) (v, []) = (q, (x, k))"
    by (metis prod.exhaust)
  obtain n where n: "n \<le> 3" "k = replicate (Suc n) (request_of ?m)"
    using retry_save_log [OF q] by auto
  have "reqs = k"
    using call q retry_save_result [OF q] assms(3)
    by (cases q) (auto simp: call_message_service_def catch_all_def bind_comp_def ret_def)
  moreover have "request_of ?m =
      request_of (msg\<lparr>content := filter_text (init_words words new_node) (content msg)\<rparr>)"
    by (simp add: request_of_def scr)
  moreover have "req_content (request_of ?m) = filter_text (init_words words new_node) (content msg)"
    by (simp add: request_of_def scr)
  ultimately show ?thesis using n clean False by auto
qed

lemma send_message_answers:
  assumes "grpc_built env"
  shows "\<exists>resp w' msg. send_message env uninit request w = (Ret resp, w') \<and>
           (resp_code resp = 0 \<or> resp_code resp = 500) \<and>
           (resp_code resp = 0 \<longrightarrow>
              (\<exists>u saved. save_rpc env (request_of msg) u = (Inr saved, w') \<and>
                 resp_code saved = 0 \<and> resp_seq_id saved = resp_seq_id resp \<and>
                 msg_id msg = send_msg_id request \<and> receiver_id msg = send_receiver_id request))"
proof -
  obtain t w1 where t: "clock_now env w = (t, w1)" by fastforce
  let ?m = "\<lparr>msg_id = send_msg_id request, sender_id = send_sender_id request,
      receiver_id = send_receiver_id request, session_type = send_session_type request,
      msg_type = send_msg_type request, content = send_content request,
      send_time = t, server_time = server_time uninit, seq_id = []\<rparr>"
  let ?m' = "?m\<lparr>content := screened (filter_root env) ?m, server_time := fst (clock_now env w1)\<rparr>"
  show ?thesis
  proof (cases "rejected ?m")
    case True
    with t show ?thesis
      by (simp add: send_message_def bind_comp_def process_incoming_eq ret_def)
  next
    case False
    obtain r w' where r: "call_message_service env ?m' [] (snd (clock_now env w1)) = (r, w')"
      by fastforce
    obtain ok msg' seq where *: "r = Ret (ok, msg', seq)"
      "ok \<longrightarrow> (\<exists>u resp. save_rpc env (request_of ?m') u = (Inr resp, w') \<and>
         resp_code resp = 0 \<and> resp_seq_id resp = seq)"
      using call_result [OF r] assms by blast
    have "send_message env uninit request w =
        (Ret (if ok then \<lparr>resp_code = 0, resp_msg = ''SUCCESS'', resp_seq_id = seq\<rparr>
              else \<lparr>resp_code = 500, resp_msg = ''Internal Error or Validation Failed'',
                     resp_seq_id = []\<rparr>), w')"
      using t r *(1) False
      by (simp add: send_message_def bind_comp_def process_incoming_eq ret_def)
    with *(2) show ?thesis
      by (intro exI [of _ "if ok then \<lparr>resp_code = 0, resp_msg = ''SUCCESS'', resp_seq_id = seq\<rparr>
            else \<lparr>resp_code = 500, resp_msg = ''Internal Error or Validation Failed'',
                   resp_seq_id = []\<rparr>"] exI [of _ w'] exI [of _ ?m']) auto
  qed
qed

text \<open>
  \<open>SendMessage\<close> always answers, with code 0 or 500; code 0 comes with the sequence
  number the message service returned, with code 0, for the screened message.
\<close>

theorem send_message_response:
  assumes "grpc_built env"
  shows "\<exists>resp w' msg. send_message env uninit request w = (Ret resp, w') \<and>
           (resp_code resp = 0 \<or> resp_code resp = 500) \<and>
           (resp_code resp = 0 \<longrightarrow>
              (\<exists>u saved. save_rpc env (request_of msg) u = (Inr saved, w') \<and>
                 resp_code saved = 0 \<and> resp_seq_id saved = resp_seq_id resp \<and>
                 msg_id msg = send_msg_id request \<and> receiver_id msg = send_receiver_id request))"
  by (rule send_message_answers [OF assms])

definition demo_env :: "nat logic_env" where
  "demo_env =
     \<lparr>filter_root = init_words [''bad''] new_node, clock_now = (\<lambda>w. (int w, w)),
      save_rpc = (\<lambda>req w. if w = 0 then (Inl ''down'', Suc w)
        else (Inr \<lparr>resp_code = 0, resp_msg = [], resp_seq_id = ''SEQ_1_1''\<rparr>, w)),
      logic_sleep = (\<lambda>d w. w), grpc_built = True\<rparr>"

definition demo_msg :: chat_msg where
  "demo_msg = \<lparr>msg_id = ''m1'', sender_id = 1, receiver_id = 2, session_type = 1, msg_type = 1,
     content = ''a bad day'', send_time = 0, server_time = 0, seq_id = []\<rparr>"

theorem only_clean_requests_witness:
  "\<exists>ok msg' seq w' reqs.
     process_incoming (logged demo_env) demo_msg [] (0, []) = (Ret (ok, msg', seq), (w', reqs)) \<and>
     ok \<and> reqs \<noteq> [] \<and> (\<forall>req \<in> set reqs. \<not> sublist ''bad'' (req_content req))"
proof -
  have "fst (process_incoming (logged demo_env) demo_msg [] (0, [])) =
      Ret (True, demo_msg\<lparr>content := ''a *** day'', seq_id := ''SEQ_1_1''\<rparr>, ''SEQ_1_1'')"
    by code_simp
  then obtain w' reqs where p: "process_incoming (logged demo_env) demo_msg [] (0, []) =
      (Ret (True, demo_msg\<lparr>content := ''a *** day'', seq_id := ''SEQ_1_1''\<rparr>, ''SEQ_1_1''), (w', reqs))"
    by (metis prod.collapse)
  have "\<forall>w \<in> set [''bad'']. CHR ''*'' \<notin> set w" "filter_root demo_env = init_words [''bad''] new_node"
    "grpc_built demo_env" "msg_type demo_msg = 1"
    by (simp_all add: demo_env_def demo_msg_def)
  from only_clean_requests [OF this p] p show ?thesis by fastforce
qed

theorem send_message_response_witness:
  "\<exists>resp w'. send_message demo_env demo_msg
     \<lparr>send_msg_id = ''m2'', send_sender_id = 3, send_receiver_id = 3, send_session_type = 1,
      send_msg_type = 1, send_content = ''hi''\<rparr> 0 = (Ret resp, w') \<and>
     (resp_code resp = 0 \<or> resp_code resp = 500)"
proof -
  have "grpc_built demo_env" by (simp add: demo_env_def)
  from send_message_response [OF this] show ?thesis by blast
qed

subsection \<open>The shipped configuration\<close>

definition word_porn :: string where
  "word_porn = [CHR 0xE8, CHR 0x89, CHR 0xB2, CHR 0xE6, CHR 0x83, CHR 0x85]"

definition quoted_item :: "string \<Rightarrow> string" where
  "quoted_item w = ''  - '' @ [CHR 0x22] @ w @ [CHR 0x22]"

text \<open>The first twelve lines of \<open>logic/config/logic_config.yaml\<close>.\<close>

definition shipped_lines :: "string list" where
  "shipped_lines =
     [''server:'', ''  grpc_port: 50051'', [],
      ''log:'', ''  level: '' @ [CHR 0x22] @ ''info'' @ [CHR 0x22],
      ''  file: '' @ [CHR 0x22] @ ''logs/logic.log'' @ [CHR 0x22], [],
      ''sensitive_words:'', quoted_item word_guns, quoted_item word_drugs,
      quoted_item word_politics, quoted_item word_porn]"

text \<open>
  With the shipped configuration the word list of the file is not used: its section is
  read as a part of the section before it, the lookup finds nothing and the three built-in
  words are loaded. The fourth word of the file is not filtered.
\<close>

theorem shipped_words_not_used:
  "logic_words (config_map (load_lines empty_state shipped_lines)) =
     [word_guns, word_drugs, word_politics] \<and>
   get_string_list (config_map (load_lines empty_state shipped_lines))
     ''server.log.sensitive_words'' = [word_guns, word_drugs, word_politics, word_porn] \<and>
   \<not> has_sensitive_word (logic_filter (config_map (load_lines empty_state shipped_lines))) word_porn"
  by code_simp

end
