(* ===== verification/Message_Store.thy ===== *)
theory Message_Store
  imports Data_Access Mongo_Pool Chat_Logic User_Service
begin

section \<open>The message service\<close>

text \<open>
  \<open>MsgBodyDao\<close> (MongoDB), \<open>MsgIndexDao\<close> (MySQL), \<open>MessageService\<close> and the facades
  \<open>MessageSync\<close>, \<open>MongoStorage\<close>, \<open>MysqlIndex\<close> of \<open>message/src\<close>. The state is
  that of the MySQL pool over a world with the MongoDB pool in it.
\<close>

subsection \<open>Bodies\<close>

definition body_insert_attempt :: "'v mongo_driver \<Rightarrow> msg_body \<Rightarrow> ('v mongo_world, bool) comp" where
  "body_insert_attempt drv b =
     bind_comp (get_connection drv) (\<lambda>_. on_outside (insert_one drv b))"

definition mongo_pause :: "'v mongo_driver \<Rightarrow> int \<Rightarrow> 'v mongo_world \<Rightarrow> 'v mongo_world" where
  "mongo_pause drv ms s = s\<lparr>outside := mongo_sleep drv ms (outside s)\<rparr>"

definition body_insert :: "'v mongo_driver \<Rightarrow> msg_body \<Rightarrow> ('v mongo_world, bool) comp" where
  "body_insert drv b =
     catch_all (execute_with_retry (mongo_pause drv) 3 500 (body_insert_attempt drv b)) (ret False)"

definition read_body :: "mongo_doc \<Rightarrow> exn + msg_body" where
  "read_body d =
     sum_bind (doc_string d ''msg_id'') (\<lambda>i.
     sum_bind (doc_string d ''content'') (\<lambda>c.
     sum_bind (doc_int32 d ''msg_type'') (\<lambda>t.
     sum_bind (doc_int32 d ''session_type'') (\<lambda>st.
       Inr \<lparr>body_msg_id = i, body_content = c, body_msg_type = t, body_session_type = st\<rparr>))))"

definition batch_get_attempt ::
  "'v mongo_driver \<Rightarrow> string list \<Rightarrow> ('v mongo_world \<times> msg_body list, unit) comp" where
  "batch_get_attempt drv ids =
     bind_comp (lift_world (get_connection drv)) (\<lambda>_.
     bind_comp (lift_world (on_outside (find_in drv ids))) (\<lambda>cursor.
       push_rows read_body (docs cursor) (docs_end cursor)))"

definition batch_get :: "'v mongo_driver \<Rightarrow> string list \<Rightarrow> ('v mongo_world, msg_body list) comp" where
  "batch_get drv ids s =
     (if ids = [] then (Ret [], s)
      else
        (case catch_all
                (execute_with_retry_void (\<lambda>ms (w, l). (mongo_pause drv ms w, l)) 3 500
                   (batch_get_attempt drv ids))
                (ret ()) (s, []) of
           (Ret _, (s', result)) \<Rightarrow> (Ret result, s')
         | (Exc e, (s', result)) \<Rightarrow> (Exc e, s')
         | (Hang, (s', result)) \<Rightarrow> (Hang, s')))"

subsection \<open>Indices\<close>

record msg_index =
  idx_msg_id :: string
  idx_sender :: u64
  idx_receiver :: u64
  idx_session_type :: int
  idx_seq_id :: string
  idx_created_at :: int

definition default_index :: msg_index where
  "default_index = \<lparr>idx_msg_id = [], idx_sender = 0, idx_receiver = 0, idx_session_type = 0,
     idx_seq_id = [], idx_created_at = 0\<rparr>"

definition insert_index_sql :: string where
  "insert_index_sql = ''INSERT INTO message_index (msg_id, sender_id, receiver_id, session_type, seq_id, created_at) VALUES (?, ?, ?, ?, ?, ?)''"

definition fetch_ids_sql :: string where
  "fetch_ids_sql = ''SELECT msg_id FROM message_index WHERE receiver_id = ? AND id > ? ORDER BY id ASC LIMIT ?''"

definition seq_text :: "int \<Rightarrow> u64 \<Rightarrow> string" where
  "seq_text now_ms seq = ''SEQ_'' @ to_string_int now_ms @ ''_'' @ to_string_u64 seq"

text \<open>\<open>TimeUtils::GetCurrentTimestampMs()\<close>: the clock does not throw.\<close>

definition read_clock :: "('w \<Rightarrow> int \<times> 'w) \<Rightarrow> ('w, int) comp" where
  "read_clock clock w = (Ret (fst (clock w)), snd (clock w))"

definition index_insert_body ::
  "'w mysql \<Rightarrow> ('w \<Rightarrow> int \<times> 'w) \<Rightarrow> msg_index \<Rightarrow> conn \<Rightarrow> ('w, string) comp" where
  "index_insert_body db clock ix c =
     bind_comp (prepare db c insert_index_sql) (\<lambda>_.
     bind_comp (read_clock clock) (\<lambda>now_ms.
     bind_comp
       (execute_update db c insert_index_sql
          [SString (idx_msg_id ix), SU64 (idx_sender ix), SU64 (idx_receiver ix),
           SInt (idx_session_type ix), SString (idx_seq_id ix), SU64 (word_of_int now_ms)]) (\<lambda>_.
     bind_comp (query db c last_id_sql []) (\<lambda>res.
       of_sum (first_row res []
         (\<lambda>r. sum_bind (row_u64 r ''id'') (\<lambda>seq. Inr (seq_text now_ms seq))))))))"

definition index_insert ::
  "'w mysql \<Rightarrow> ('w \<Rightarrow> int \<times> 'w) \<Rightarrow> msg_index \<Rightarrow> ('w app, string) comp" where
  "index_insert db clock ix = catch_all (with_db db (index_insert_body db clock ix)) (ret [])"

text \<open>\<open>last_seq_id.find_last_of('_')\<close> and what follows it.\<close>

definition parse_last_id :: "string \<Rightarrow> exn + u64" where
  "parse_last_id last_seq_id =
     (case find_last_idx ((=) (CHR ''_'')) last_seq_id of
        None \<Rightarrow> Inr 0
      | Some pos \<Rightarrow> stoull (drop (pos + 1) last_seq_id))"

definition fetch_ids_body ::
  "'w mysql \<Rightarrow> u64 \<Rightarrow> string \<Rightarrow> int \<Rightarrow> conn \<Rightarrow> ('w \<times> string list, unit) comp" where
  "fetch_ids_body db uid last_seq_id limit c =
     bind_comp (of_sum (parse_last_id last_seq_id)) (\<lambda>last_id.
     bind_comp (query (lift_mysql db) c fetch_ids_sql [SU64 uid, SU64 last_id, SInt limit]) (\<lambda>res.
       push_rows (\<lambda>r. row_string r ''msg_id'') (rows res) (rows_end res)))"

definition fetch_offline_ids ::
  "'w mysql \<Rightarrow> u64 \<Rightarrow> string \<Rightarrow> int \<Rightarrow> ('w app, string list) comp" where
  "fetch_offline_ids db uid last_seq_id limit =
     bind_comp
       (with_local []
          (catch_all (with_db_void (lift_mysql db) (fetch_ids_body db uid last_seq_id limit)) (ret ())))
       (\<lambda>(_, ids). ret ids)"

subsection \<open>The service\<close>

record 'v msg_env =
  msg_db :: "'v mongo_world mysql"
  msg_mongo :: "'v mongo_driver"
  msg_clock :: "'v mongo_world \<Rightarrow> int \<times> 'v mongo_world"

definition message_init ::
  "'v mongo_world mysql_driver \<Rightarrow> 'v mongo_driver \<Rightarrow> config_map \<Rightarrow> ('v mongo_world app, bool) comp" where
  "message_init sql_drv mongo_drv cfg =
     bind_comp (init_mysql_pool sql_drv cfg) (\<lambda>ok.
       if \<not> ok then ret False
       else
         bind_comp
           (on_world (mongo_initialize mongo_drv
              (get_string cfg ''dependencies.mongodb.uri'' ''mongodb://127.0.0.1:27017'')
              (get_int cfg ''dependencies.mongodb.min_pool_size'' 5)
              (get_int cfg ''dependencies.mongodb.max_pool_size'' 20))) (\<lambda>ok.
           if \<not> ok then ret False else ret True))"

definition body_of :: "chat_msg \<Rightarrow> msg_body" where
  "body_of msg = \<lparr>body_msg_id = msg_id msg, body_content = content msg,
     body_msg_type = msg_type msg, body_session_type = session_type msg\<rparr>"

definition index_of :: "chat_msg \<Rightarrow> msg_index" where
  "index_of msg = default_index\<lparr>idx_msg_id := msg_id msg, idx_sender := sender_id msg,
     idx_receiver := receiver_id msg, idx_session_type := session_type msg\<rparr>"

definition save_message :: "'v msg_env \<Rightarrow> chat_msg \<Rightarrow> ('v mongo_world app, string) comp" where
  "save_message env msg =
     bind_comp (on_world (body_insert (msg_mongo env) (body_of msg))) (\<lambda>ok.
       if \<not> ok then ret []
       else
         bind_comp (index_insert (msg_db env) (msg_clock env) (index_of msg)) (\<lambda>new_seq_id.
           if new_seq_id = [] then ret [] else ret new_seq_id))"

text \<open>
  \<open>logic::LogicChatMsg msg;\<close> is default-initialised: the fields that are not assigned hold
  what \<open>uninit\<close> held, and the strings are empty.
\<close>

definition chat_of :: "chat_msg \<Rightarrow> msg_body \<Rightarrow> chat_msg" where
  "chat_of uninit b = uninit\<lparr>msg_id := body_msg_id b, content := body_content b,
     msg_type := body_msg_type b, session_type := body_session_type b, seq_id := []\<rparr>"

definition pull_offline ::
  "'v msg_env \<Rightarrow> chat_msg \<Rightarrow> u64 \<Rightarrow> string \<Rightarrow> int \<Rightarrow> ('v mongo_world app, chat_msg list) comp" where
  "pull_offline env uninit uid begin_seq limit =
     bind_comp (fetch_offline_ids (msg_db env) uid begin_seq limit) (\<lambda>msg_ids.
       if msg_ids = [] then ret []
       else
         bind_comp (on_world (batch_get (msg_mongo env) msg_ids)) (\<lambda>bodies.
           ret (map (chat_of uninit) bodies)))"

text \<open>The facades.\<close>

definition sync_init ::
  "'v mongo_world mysql_driver \<Rightarrow> 'v mongo_driver \<Rightarrow> config_map \<Rightarrow> ('v mongo_world app, bool) comp" where
  "sync_init sql_drv mongo_drv cfg = message_init sql_drv mongo_drv cfg"

definition sync_save :: "'v msg_env \<Rightarrow> chat_msg \<Rightarrow> ('v mongo_world app, string) comp" where
  "sync_save env msg = save_message env msg"

definition sync_pull ::
  "'v msg_env \<Rightarrow> chat_msg \<Rightarrow> u64 \<Rightarrow> string \<Rightarrow> int \<Rightarrow> ('v mongo_world app, chat_msg list) comp" where
  "sync_pull env uninit uid begin_seq limit = pull_offline env uninit uid begin_seq limit"

definition storage_insert :: "'v mongo_driver \<Rightarrow> msg_body \<Rightarrow> ('v mongo_world, bool) comp" where
  "storage_insert drv msg =
     body_insert drv \<lparr>body_msg_id = body_msg_id msg, body_content = body_content msg,
       body_msg_type = body_msg_type msg, body_session_type = body_session_type msg\<rparr>"

definition storage_get :: "'v mongo_driver \<Rightarrow> string list \<Rightarrow> ('v mongo_world, msg_body list) comp" where
  "storage_get drv ids =
     bind_comp (batch_get drv ids) (\<lambda>bodies.
       ret (map (\<lambda>b. \<lparr>body_msg_id = body_msg_id b, body_content = body_content b,
         body_msg_type = body_msg_type b, body_session_type = body_session_type b\<rparr>) bodies))"

definition mysql_insert_index ::
  "'w mysql \<Rightarrow> ('w \<Rightarrow> int \<times> 'w) \<Rightarrow> msg_index \<Rightarrow> ('w app, string) comp" where
  "mysql_insert_index db clock index =
     index_insert db clock (default_index\<lparr>idx_msg_id := idx_msg_id index,
       idx_sender := idx_sender index, idx_receiver := idx_receiver index,
       idx_session_type := idx_session_type index\<rparr>)"

definition mysql_fetch_ids :: "'w mysql \<Rightarrow> u64 \<Rightarrow> string \<Rightarrow> ('w app, string list) comp" where
  "mysql_fetch_ids db uid last_seq_id = fetch_offline_ids db uid last_seq_id 100"

subsection \<open>No operation leaks a connection\<close>

lemma index_insert_keeps [keeps_intros]: "keeps (holds_conns M) (index_insert db clock ix)"
  unfolding index_insert_def by (intro keeps_intros)

lemma fetch_offline_ids_keeps [keeps_intros]:
  "keeps (holds_conns M) (fetch_offline_ids db uid q n)"
  unfolding fetch_offline_ids_def by (intro keeps_intros)

lemma save_message_keeps [keeps_intros]: "keeps (holds_conns M) (save_message env msg)"
  unfolding save_message_def by (intro keeps_intros)

lemma pull_offline_keeps [keeps_intros]:
  "keeps (holds_conns M) (pull_offline env uninit uid q n)"
  unfolding pull_offline_def by (intro keeps_intros)

subsection \<open>Sequence numbers\<close>

lemma parse_seq_text: "parse_last_id (seq_text now_ms seq) = Inr seq"
proof -
  have "seq_text now_ms seq = (''SEQ_'' @ to_string_int now_ms) @ CHR ''_'' # to_string_u64 seq"
    by (simp add: seq_text_def)
  moreover have "find_last_idx ((=) (CHR ''_''))
      ((''SEQ_'' @ to_string_int now_ms) @ CHR ''_'' # to_string_u64 seq) =
      Some (length (''SEQ_'' @ to_string_int now_ms))"
    by (rule find_last_idx_append) (use no_underscore(1) in auto)
  ultimately show ?thesis by (simp add: parse_last_id_def)
qed

text \<open>
  Round trip: the sequence number \<open>Insert\<close> returns is read back by
  \<open>FetchOfflineMsgIds\<close> as the row identifier it was made from, for every clock and
  identifier; two sequence numbers are equal only if both parts are.
\<close>

theorem seq_id_round_trip:
  "parse_last_id (seq_text now_ms seq) = Inr seq \<and>
   (seq_text now_ms seq = seq_text now_ms' seq' \<longleftrightarrow> now_ms = now_ms' \<and> seq = seq')"
  by (simp add: parse_seq_text) (simp add: seq_text_def int_sep)

subsection \<open>What MySQL promises of the index table\<close>

text \<open>
  \<open>idx w\<close> is the table \<open>message_index\<close>, rows with their \<open>id\<close>. The identifier is an
  auto increment, positive and new; the pair of receiver and \<open>seq_id\<close> is a
  unique key, so an insertion that returns found no row with the pair. The query of
  \<open>FetchOfflineMsgIds\<close> gives the identifiers of the messages in the order of \<open>id\<close>, all
  of them when reading the rows does not throw, in the table at a moment of the call. Others
  may add rows at any time. The column \<open>created_at\<close> is a \<open>TIMESTAMP\<close> and is given a number of
  milliseconds, which is no date: a server in strict mode refuses the row (the insertion
  throws), another stores a value of its own choice.
\<close>

definition adds_index ::
  "('w \<Rightarrow> (u64 \<times> msg_index) list) \<Rightarrow> ('w \<Rightarrow> conn \<Rightarrow> u64) \<Rightarrow> conn \<Rightarrow> msg_index \<Rightarrow> 'w \<Rightarrow> 'w \<Rightarrow> bool" where
  "adds_index idx lid c ix w w' \<longleftrightarrow>
     (\<exists>t i ca. prefix (idx w) t \<and>
        (\<forall>r \<in> set t. \<not> (idx_receiver (snd r) = idx_receiver ix \<and> idx_seq_id (snd r) = idx_seq_id ix)) \<and>
        0 < i \<and> i \<notin> fst ` set t \<and> prefix (t @ [(i, ix\<lparr>idx_created_at := ca\<rparr>)]) (idx w') \<and> lid w' c = i)"

definition ids_after :: "(u64 \<times> msg_index) list \<Rightarrow> u64 \<Rightarrow> u64 \<Rightarrow> int \<Rightarrow> string list" where
  "ids_after t uid last_id limit =
     take (nat limit)
       (map (\<lambda>r. idx_msg_id (snd r))
          (filter (\<lambda>r. idx_receiver (snd r) = uid \<and> last_id < fst r) (sort_key fst t)))"

definition index_table ::
  "('w \<Rightarrow> (u64 \<times> msg_index) list) \<Rightarrow> ('w \<Rightarrow> conn \<Rightarrow> u64) \<Rightarrow> 'w mysql \<Rightarrow> bool" where
  "index_table idx lid db \<longleftrightarrow>
     (\<forall>c stmt w r w'. prepare db c stmt w = (r, w') \<longrightarrow> grown idx w w' \<and> lid w' c = lid w c) \<and>
     (\<forall>c stmt args w r w'. execute_query db c stmt args w = (r, w') \<longrightarrow>
        grown idx w w' \<and> lid w' c = lid w c) \<and>
     (\<forall>c m sd rc st q t w r w'.
        execute_update db c insert_index_sql
          [SString m, SU64 sd, SU64 rc, SInt st, SString q, SU64 t] w = (r, w') \<longrightarrow>
        (let ix = \<lparr>idx_msg_id = m, idx_sender = sd, idx_receiver = rc, idx_session_type = st,
                   idx_seq_id = q, idx_created_at = uint t\<rparr>
         in (r = Ret () \<longrightarrow> adds_index idx lid c ix w w') \<and> grown idx w w')) \<and>
     (\<forall>c w rs w'. execute_query db c last_id_sql [] w = (Ret rs, w') \<longrightarrow>
        (\<exists>r rest. rows rs = r # rest \<and> row_u64 r ''id'' = Inr (lid w c))) \<and>
     (\<forall>c u l n w rs w'. execute_query db c fetch_ids_sql [SU64 u, SU64 l, SInt n] w = (Ret rs, w') \<longrightarrow>
        (\<exists>t k. between idx w t w' \<and>
             list_all2 (\<lambda>r m. row_string r ''msg_id'' = Inr m) (rows rs)
               (take k (ids_after t u l n)) \<and>
             (rows_end rs = None \<longrightarrow> length (ids_after t u l n) \<le> k))) \<and>
     (\<forall>ms w. grown idx w (pause_for db ms w))"

lemma index_prepare:
  "index_table idx lid db \<Longrightarrow> prepare db c stmt w = (r, w') \<Longrightarrow> grown idx w w' \<and> lid w' c = lid w c"
  unfolding index_table_def by (elim conjE) metis

lemma index_query:
  "index_table idx lid db \<Longrightarrow> execute_query db c stmt args w = (r, w') \<Longrightarrow>
     grown idx w w' \<and> lid w' c = lid w c"
  unfolding index_table_def by (elim conjE) metis

lemma index_update:
  assumes "index_table idx lid db"
    and "execute_update db c insert_index_sql
          [SString (idx_msg_id ix), SU64 (idx_sender ix), SU64 (idx_receiver ix),
           SInt (idx_session_type ix), SString (idx_seq_id ix), SU64 t] w = (r, w')"
  shows "(r = Ret () \<longrightarrow> adds_index idx lid c (ix\<lparr>idx_created_at := uint t\<rparr>) w w') \<and> grown idx w w'"
proof -
  have "ix\<lparr>idx_created_at := uint t\<rparr> =
      \<lparr>idx_msg_id = idx_msg_id ix, idx_sender = idx_sender ix, idx_receiver = idx_receiver ix,
       idx_session_type = idx_session_type ix, idx_seq_id = idx_seq_id ix,
       idx_created_at = uint t\<rparr>"
    by simp
  then show ?thesis
    using assms unfolding index_table_def Let_def by (elim conjE) metis
qed

lemma index_last:
  "index_table idx lid db \<Longrightarrow> execute_query db c last_id_sql [] w = (Ret rs, w') \<Longrightarrow>
     \<exists>r rest. rows rs = r # rest \<and> row_u64 r ''id'' = Inr (lid w c)"
  unfolding index_table_def by (elim conjE) metis

lemma index_pause: "index_table idx lid db \<Longrightarrow> grown idx w (pause_for db ms w)"
  unfolding index_table_def by blast

definition clock_keeps :: "('w \<Rightarrow> int \<times> 'w) \<Rightarrow> ('w \<Rightarrow> 'r list) \<Rightarrow> bool" where
  "clock_keeps clock f \<longleftrightarrow> (\<forall>w. grown f w (snd (clock w)))"

lemma index_found:
  assumes "index_table idx lid db" "execute_query db c fetch_ids_sql [SU64 u, SU64 l, SInt n] w = (Ret rs, w')"
  shows "\<exists>t k. between idx w t w' \<and>
       list_all2 (\<lambda>r m. row_string r ''msg_id'' = Inr m) (rows rs) (take k (ids_after t u l n)) \<and>
       (rows_end rs = None \<longrightarrow> length (ids_after t u l n) \<le> k)"
proof -
  have "\<forall>c u l n w rs w'. execute_query db c fetch_ids_sql [SU64 u, SU64 l, SInt n] w = (Ret rs, w') \<longrightarrow>
      (\<exists>t k. between idx w t w' \<and>
         list_all2 (\<lambda>r m. row_string r ''msg_id'' = Inr m) (rows rs) (take k (ids_after t u l n)) \<and>
         (rows_end rs = None \<longrightarrow> length (ids_after t u l n) \<le> k))"
    using assms(1) unfolding index_table_def by (elim conjE)
  from this [rule_format, OF assms(2)] show ?thesis .
qed

lemma index_insert_body_Ret:
  assumes "index_table idx lid db" "clock_keeps clock idx"
    and "index_insert_body db clock ix c w = (Ret q, w')"
  shows "\<exists>now i ca. q = seq_text now i \<and> 0 < i \<and>
           (\<forall>r \<in> set (idx w). \<not> (idx_receiver (snd r) = idx_receiver ix \<and>
              idx_seq_id (snd r) = idx_seq_id ix)) \<and>
           (i, ix\<lparr>idx_created_at := ca\<rparr>) \<in> set (idx w')"
proof -
  obtain w1 w2 now w3 w4 rs w5 where
    p: "prepare db c insert_index_sql w = (Ret (), w1)" and cl: "read_clock clock w1 = (Ret now, w2)" and
    x: "execute_update db c insert_index_sql
          [SString (idx_msg_id ix), SU64 (idx_sender ix), SU64 (idx_receiver ix),
           SInt (idx_session_type ix), SString (idx_seq_id ix), SU64 (word_of_int now)] w2 =
        (Ret (), w3)" and
    q: "prepare db c last_id_sql w3 = (Ret (), w4)"
       "execute_query db c last_id_sql [] w4 = (Ret rs, w5)" and
    r: "of_sum (first_row rs [] (\<lambda>r. sum_bind (row_u64 r ''id'') (\<lambda>seq. Inr (seq_text now seq)))) w5 =
        (Ret q, w')"
    using assms(3) by (auto simp: index_insert_body_def query_def bind_comp_Ret)
  obtain row rest where row: "rows rs = row # rest" "row_u64 row ''id'' = Inr (lid w4 c)"
    using index_last [OF assms(1) q(2)] by blast
  have q': "q = seq_text now (lid w3 c)" "w' = w5"
    using r row index_prepare [OF assms(1) q(1)] by (auto simp: first_row_def ret_def)
  have "grown idx w1 w2" using assms(2) cl by (auto simp: clock_keeps_def read_clock_def)
  then have "set (idx w) \<subseteq> set (idx w2)"
    using index_prepare [OF assms(1) p] by (auto simp: grown_def)
  moreover have "set (idx w3) \<subseteq> set (idx w')"
    using index_prepare [OF assms(1) q(1)] index_query [OF assms(1) q(2)] q'(2)
    by (auto simp: grown_def)
  moreover obtain t ca where "set (idx w2) \<subseteq> set t"
    "\<forall>r \<in> set t. \<not> (idx_receiver (snd r) = idx_receiver ix \<and> idx_seq_id (snd r) = idx_seq_id ix)"
    "0 < lid w3 c"
    "set (t @ [(lid w3 c, ix\<lparr>idx_created_at := ca\<rparr>)]) \<subseteq> set (idx w3)"
    using index_update [OF assms(1) x] by (fastforce simp: adds_index_def dest: set_mono_prefix)
  ultimately show ?thesis using q'(1)
    by (intro exI [of _ now] exI [of _ "lid w3 c"] exI [of _ ca]) auto
qed

lemma index_insert_body_grown:
  assumes "index_table idx lid db" "clock_keeps clock idx"
  shows "world_rel (grown idx) (index_insert_body db clock ix c)"
proof -
  have prep: "world_rel (grown idx) (prepare db c stmt)" for stmt
    using index_prepare [OF assms(1)] unfolding world_rel_def by blast
  have qry: "world_rel (grown idx) (execute_query db c stmt args)" for stmt args
    using index_query [OF assms(1)] unfolding world_rel_def by blast
  have clk: "world_rel (grown idx) (read_clock clock)"
    using assms(2) by (auto simp: world_rel_def clock_keeps_def read_clock_def)
  have upd: "world_rel (grown idx) (execute_update db c insert_index_sql
          [SString (idx_msg_id ix), SU64 (idx_sender ix), SU64 (idx_receiver ix),
           SInt (idx_session_type ix), SString (idx_seq_id ix), SU64 t])" for t
    using index_update [OF assms(1)] unfolding world_rel_def by blast
  show ?thesis
    unfolding index_insert_body_def query_def
    by (intro world_rel_bind prep qry clk upd world_rel_of_sum) simp_all
qed

subsection \<open>Saving\<close>

text \<open>
  A sequence number returned by \<open>SaveMessage\<close> names a row of the index: it is made
  from the row's identifier, and the row carries the message's identifier, sender and
  receiver; the receiver had no row with an empty sequence number when it was written.
\<close>

theorem save_message_indexed:
  assumes "index_table idx lid (msg_db env)" "clock_keeps (msg_clock env) idx"
    and "save_message env msg s = (Ret q, s')" "q \<noteq> []"
  shows "\<exists>now i ix. q = seq_text now i \<and> (i, ix) \<in> set (idx (world s')) \<and>
           idx_msg_id ix = msg_id msg \<and> idx_sender ix = sender_id msg \<and>
           idx_receiver ix = receiver_id msg \<and> idx_session_type ix = session_type msg"
proof -
  obtain s1 where s1: "index_insert (msg_db env) (msg_clock env) (index_of msg) s1 = (Ret q, s')"
    using assms(3,4) by (auto simp: save_message_def bind_comp_Ret ret_def split: if_splits)
  obtain c w where w: "index_insert_body (msg_db env) (msg_clock env) (index_of msg) c w =
      (Ret q, world s')"
    by (rule caught_with_db_Ret [OF index_insert_body_grown [OF assms(1,2)] grown_refl grown_trans
          index_pause [OF assms(1)] s1 [unfolded index_insert_def] assms(4)])
  from index_insert_body_Ret [OF assms(1,2) w] show ?thesis
    by (fastforce simp: index_of_def default_index_def)
qed

text \<open>
  C36. A mailbox takes one message: the \<open>seq_id\<close> of every row the service writes is empty
  and the table has a unique key on receiver and \<open>seq_id\<close>, so when the receiver has a
  row already, \<open>SaveMessage\<close> returns the empty text whatever the attempts do.
\<close>

theorem mailbox_holds_one:
  assumes "index_table idx lid (msg_db env)" "clock_keeps (msg_clock env) idx"
    and "\<And>w r w'. body_insert (msg_mongo env) (body_of msg) w = (r, w') \<Longrightarrow> grown idx w w'"
    and "(i, ix) \<in> set (idx (world s))" "idx_receiver ix = receiver_id msg" "idx_seq_id ix = []"
    and "save_message env msg s = (Ret q, s')"
  shows "q = []"
proof (rule ccontr)
  assume q: "q \<noteq> []"
  obtain ok s1 where s1: "on_world (body_insert (msg_mongo env) (body_of msg)) s = (Ret ok, s1)"
    and ins: "index_insert (msg_db env) (msg_clock env) (index_of msg) s1 = (Ret q, s')"
    using assms(7) q by (auto simp: save_message_def bind_comp_Ret ret_def split: if_splits)
  obtain r w1 where b: "body_insert (msg_mongo env) (body_of msg) (world s) = (r, w1)" by fastforce
  have idx1: "grown idx (world s) (world s1)"
    using s1 b assms(3) [OF b] by (auto simp: on_world_def)
  obtain c w where w: "grown idx (world s1) w"
    "index_insert_body (msg_db env) (msg_clock env) (index_of msg) c w = (Ret q, world s')"
    by (rule caught_with_db_Ret [OF index_insert_body_grown [OF assms(1,2)] grown_refl grown_trans
          index_pause [OF assms(1)] ins [unfolded index_insert_def] q])
  have "(i, ix) \<in> set (idx w)" using w(1) idx1 assms(4) by (auto simp: grown_def)
  with index_insert_body_Ret [OF assms(1,2) w(2)] assms(5,6) show False
    by (auto simp: index_of_def default_index_def)
qed

subsection \<open>Fetching\<close>

lemma push_rows_Ret:
  "push_rows f rs fin (w, acc) = (Ret (), s) \<Longrightarrow>
     fin = None \<and> (\<exists>vs. s = (w, acc @ vs) \<and> list_all2 (\<lambda>r v. f r = Inr v) rs vs)"
proof (induction rs arbitrary: acc)
  case Nil
  then show ?case by (cases fin) auto
next
  case (Cons r rs)
  then obtain v where v: "f r = Inr v" "push_rows f rs fin (w, acc @ [v]) = (Ret (), s)"
    by (auto split: sum.splits)
  from Cons.IH [OF v(2)] obtain vs where "fin = None" "s = (w, acc @ v # vs)"
    "list_all2 (\<lambda>r v. f r = Inr v) rs vs"
    by auto
  with v(1) show ?case by (intro conjI exI [of _ "v # vs"]) auto
qed

lemma read_all2_unique:
  "list_all2 (\<lambda>r v. f r = Inr v) rs vs \<Longrightarrow> list_all2 (\<lambda>r v. f r = Inr v) rs us \<Longrightarrow> us = vs"
proof (induction rs vs arbitrary: us rule: list_all2_induct)
  case (Cons r rs v vs)
  then obtain u us' where "us = u # us'" "f r = Inr u" "list_all2 (\<lambda>r v. f r = Inr v) rs us'"
    by (auto simp: list_all2_Cons1)
  with Cons show ?case by simp
qed simp

lemma fetch_ids_body_Ret:
  assumes "index_table idx lid db" "parse_last_id q = Inr l"
    and "fetch_ids_body db uid q limit c (w, acc) = (Ret (), (w', acc'))"
  shows "\<exists>t. between idx w t w' \<and> acc' = acc @ ids_after t uid l limit"
proof -
  obtain w1 rs w2 where p: "prepare db c fetch_ids_sql w = (Ret (), w1)"
    and e: "execute_query db c fetch_ids_sql [SU64 uid, SU64 l, SInt limit] w1 = (Ret rs, w2)"
    and push: "push_rows (\<lambda>r. row_string r ''msg_id'') (rows rs) (rows_end rs) (w2, acc) =
        (Ret (), (w', acc'))"
    using assms(2,3)
    by (auto simp: fetch_ids_body_def query_def bind_comp_Ret lift_mysql_def lift_world_def
        split: prod.splits)
  obtain vs where vs: "rows_end rs = None" "w' = w2" "acc' = acc @ vs"
    "list_all2 (\<lambda>r v. row_string r ''msg_id'' = Inr v) (rows rs) vs"
    using push_rows_Ret [OF push] by auto
  obtain t k where t: "between idx w1 t w2"
    and k: "list_all2 (\<lambda>r m. row_string r ''msg_id'' = Inr m) (rows rs)
      (take k (ids_after t uid l limit))" "length (ids_after t uid l limit) \<le> k"
    using index_found [OF assms(1) e] vs(1) by blast
  have "vs = ids_after t uid l limit"
    using read_all2_unique [OF k(1) vs(4)] k(2) by simp
  moreover have "between idx w t w'"
    using between_widen [OF t] index_prepare [OF assms(1) p] vs(2) by simp
  ultimately show ?thesis using vs(3) by blast
qed

lemma fetch_guarded_Ret:
  assumes "index_table idx lid db" "parse_last_id q = Inr l"
    and "guarded (fetch_ids_body db uid q limit) s = (Ret (), t)"
  shows "\<exists>tb. between idx (fst (world s)) tb (fst (world t)) \<and>
           snd (world t) = snd (world s) @ ids_after tb uid l limit"
proof -
  obtain c where "fetch_ids_body db uid q limit c (world s) = (Ret (), world t)"
    using assms(3) by (auto simp: guarded_cases split: prod.splits outcome.splits option.splits)
  then have "fetch_ids_body db uid q limit c (fst (world s), snd (world s)) =
      (Ret (), (fst (world t), snd (world t)))"
    by simp
  from fetch_ids_body_Ret [OF assms(1,2) this] show ?thesis by simp
qed

lemma fetch_offline_ids_run:
  assumes "with_db (lift_mysql db) (fetch_ids_body db uid q limit) \<lparr>pool = pool s, world = (world s, [])\<rparr> =
             (Ret (), t)"
  shows "\<exists>s'. fetch_offline_ids db uid q limit s = (Ret (snd (world t)), s')"
  using assms
  by (simp add: fetch_offline_ids_def with_local_def with_db_void_eq catch_all_def bind_comp_def ret_def)

text \<open>
  When the first attempt succeeds, the messages fetched are those of the user with an
  identifier after the one in the sequence number, in the order of identifiers, at most
  \<open>limit\<close> of them, in the table as it was at a moment of the call. The sequence number may
  be one that saving returned.
\<close>

theorem fetch_in_order:
  assumes "index_table idx lid db"
    and "guarded (fetch_ids_body db uid (seq_text now last_id) limit)
           \<lparr>pool = pool s, world = (world s, [])\<rparr> = (Ret (), t)"
  shows "\<exists>tb s'. between idx (world s) tb (fst (world t)) \<and>
           fetch_offline_ids db uid (seq_text now last_id) limit s =
             (Ret (ids_after tb uid last_id limit), s')"
proof -
  have parse: "parse_last_id (seq_text now last_id) = Inr last_id" by (rule parse_seq_text)
  have "with_db (lift_mysql db) (fetch_ids_body db uid (seq_text now last_id) limit)
      \<lparr>pool = pool s, world = (world s, [])\<rparr> = (Ret (), t)"
    unfolding with_db_def by (rule execute_with_retry_Ret_first) (rule assms(2))
  from fetch_offline_ids_run [OF this] fetch_guarded_Ret [OF assms(1) parse assms(2)]
  show ?thesis by auto
qed

text \<open>
  A retried fetch returns messages twice: the vector is not cleared between attempts,
  so what the first attempt read before it threw stays in front of the complete result of
  the second.
\<close>

theorem retried_fetch_duplicates:
  assumes "index_table idx lid db" "parse_last_id q = Inr l"
    and "guarded (fetch_ids_body db uid q limit) \<lparr>pool = pool s, world = (world s, [])\<rparr> = (Exc e, t1)"
    and "guarded (fetch_ids_body db uid q limit) (app_pause (lift_mysql db) 500 t1) = (Ret (), t2)"
  shows "\<exists>tb s'. between idx (fst (world t1)) tb (fst (world t2)) \<and>
           fetch_offline_ids db uid q limit s =
             (Ret (snd (world t1) @ ids_after tb uid l limit), s')"
proof -
  let ?s0 = "\<lparr>pool = pool s, world = (world s, [])\<rparr>"
  have "failing (guarded (fetch_ids_body db uid q limit)) (app_pause (lift_mysql db) 500) 1 ?s0
      (app_pause (lift_mysql db) 500 t1)"
    using assms(3) by simp
  with assms(4) have *: "with_db (lift_mysql db) (fetch_ids_body db uid q limit) ?s0 = (Ret (), t2)"
    unfolding with_db_result
    by (intro exI [of _ 1] exI [of _ "app_pause (lift_mysql db) 500 t1"]) simp
  moreover have "world (app_pause (lift_mysql db) 500 t1) =
      (pause_for db 500 (fst (world t1)), snd (world t1))"
    by (simp add: app_pause_def lift_mysql_def split: prod.split)
  moreover have "prefix (idx (fst (world t1))) (idx (pause_for db 500 (fst (world t1))))"
    using index_pause [OF assms(1)] by (simp add: grown_prefix)
  moreover obtain tb where
    "between idx (fst (world (app_pause (lift_mysql db) 500 t1))) tb (fst (world t2))"
    "snd (world t2) = snd (world (app_pause (lift_mysql db) 500 t1)) @ ids_after tb uid l limit"
    using fetch_guarded_Ret [OF assms(1,2,4)] by blast
  ultimately have "between idx (fst (world t1)) tb (fst (world t2))"
    "snd (world t2) = snd (world t1) @ ids_after tb uid l limit"
    by (auto simp: between_def intro: prefix_order.order_trans)
  moreover obtain s' where "fetch_offline_ids db uid q limit s = (Ret (snd (world t2)), s')"
    using fetch_offline_ids_run [OF *] by blast
  ultimately show ?thesis by auto
qed

subsection \<open>A mailbox in memory\<close>

text \<open>
  The table in a list. While \<open>mb_flaky\<close> is positive a query breaks off after the first row
  and counts it down.
\<close>

record mbox =
  mb_rows :: "(u64 \<times> msg_index) list"
  mb_last :: u64
  mb_flaky :: nat
  mb_bodies :: "msg_body list"

abbreviation mb_idx :: "mbox mongo_world \<Rightarrow> (u64 \<times> msg_index) list" where
  "mb_idx w \<equiv> mb_rows (outside w)"

abbreviation mb_lid :: "mbox mongo_world \<Rightarrow> conn \<Rightarrow> u64" where
  "mb_lid w c \<equiv> mb_last (outside w)"

definition id_row :: "string \<Rightarrow> sql_row" where
  "id_row m = \<lparr>row_u64 = column [], row_string = column [(''msg_id'', m)], row_int = column []\<rparr>"

definition mb_answer :: "sql_val list \<Rightarrow> mbox \<Rightarrow> result_set" where
  "mb_answer args m =
     (case args of
        [SU64 u, SU64 l, SInt n] \<Rightarrow>
          (let ids = ids_after (mb_rows m) u l n
           in \<lparr>rows = map id_row (if mb_flaky m > 0 then take 1 ids else ids),
               rows_end = (if mb_flaky m > 0 then Some OtherException else None)\<rparr>)
      | _ \<Rightarrow> number_rows ''id'' (mb_last m) 0)"

definition mb_insert :: "sql_val list \<Rightarrow> mbox \<Rightarrow> unit outcome \<times> mbox" where
  "mb_insert args m =
     (case args of
        [SString i, SU64 sd, SU64 rc, SInt st, SString q, SU64 t] \<Rightarrow>
          (let n = word_of_nat (Suc (length (mb_rows m)))
           in if (\<exists>r \<in> set (mb_rows m). idx_receiver (snd r) = rc \<and> idx_seq_id (snd r) = q) \<or>
                 \<not> (\<forall>r \<in> set (mb_rows m). fst r < n) \<or> n = 0
              then (Exc (StdException ''Duplicate entry''), m)
              else (Ret (), m\<lparr>mb_last := n, mb_rows := mb_rows m @
                [(n, \<lparr>idx_msg_id = i, idx_sender = sd, idx_receiver = rc, idx_session_type = st,
                      idx_seq_id = q, idx_created_at = uint t\<rparr>)]\<rparr>))
      | _ \<Rightarrow> (Ret (), m))"

definition mb_db :: "mbox mongo_world mysql" where
  "mb_db =
     \<lparr>prepare = (\<lambda>c stmt. ret ()),
      execute_query = (\<lambda>c stmt args. on_outside (\<lambda>m.
        (Ret (mb_answer args m), m\<lparr>mb_flaky := mb_flaky m - 1\<rparr>))),
      execute_update = (\<lambda>c stmt args. on_outside (mb_insert args)),
      pause_for = (\<lambda>ms w. w)\<rparr>"

lemma all2_id_rows: "list_all2 (\<lambda>r m. row_string r ''msg_id'' = Inr m) (map id_row ids) ids"
  by (induction ids) (auto simp: id_row_def column_def)

lemma mb_answer_ids:
  "\<exists>k. list_all2 (\<lambda>r m. row_string r ''msg_id'' = Inr m) (rows (mb_answer [SU64 u, SU64 l, SInt n] m))
         (take k (ids_after (mb_rows m) u l n)) \<and>
       (rows_end (mb_answer [SU64 u, SU64 l, SInt n] m) = None \<longrightarrow>
          length (ids_after (mb_rows m) u l n) \<le> k)"
proof (cases "mb_flaky m > 0")
  case True
  then show ?thesis
    by (intro exI [of _ 1]) (simp add: mb_answer_def all2_id_rows)
next
  case False
  then show ?thesis
    by (intro exI [of _ "length (ids_after (mb_rows m) u l n)"])
       (simp add: mb_answer_def all2_id_rows)
qed

lemma mb_insert_adds:
  assumes "on_outside (mb_insert [SString i, SU64 sd, SU64 rc, SInt st, SString q, SU64 t]) w = (r, w')"
  shows "let ix = \<lparr>idx_msg_id = i, idx_sender = sd, idx_receiver = rc, idx_session_type = st,
                   idx_seq_id = q, idx_created_at = uint t\<rparr>
         in (r = Ret () \<longrightarrow> adds_index mb_idx mb_lid c ix w w') \<and> grown mb_idx w w'"
proof -
  define ix where "ix = \<lparr>idx_msg_id = i, idx_sender = sd, idx_receiver = rc, idx_session_type = st,
    idx_seq_id = q, idx_created_at = uint t\<rparr>"
  define n :: u64 where "n = word_of_nat (Suc (length (mb_idx w)))"
  define bad where "bad \<longleftrightarrow> (\<exists>r \<in> set (mb_idx w). idx_receiver (snd r) = rc \<and> idx_seq_id (snd r) = q) \<or>
    \<not> (\<forall>r \<in> set (mb_idx w). fst r < n) \<or> n = 0"
  have run: "on_outside (mb_insert [SString i, SU64 sd, SU64 rc, SInt st, SString q, SU64 t]) w =
      (if bad then (Exc (StdException ''Duplicate entry''), w)
       else (Ret (), w\<lparr>outside := (outside w)\<lparr>mb_last := n, mb_rows := mb_idx w @ [(n, ix)]\<rparr>\<rparr>))"
    unfolding on_outside_def mb_insert_def by (simp add: Let_def bad_def ix_def n_def)
  have "(r = Ret () \<longrightarrow> adds_index mb_idx mb_lid c ix w w') \<and> grown mb_idx w w'"
  proof (cases bad)
    case False
    then have w': "mb_idx w' = mb_idx w @ [(n, ix)]" "mb_lid w' c = n" using assms run by auto
    have "adds_index mb_idx mb_lid c ix w w'"
      unfolding adds_index_def w'
      by (intro exI [of _ "mb_idx w"] exI [of _ n])
         (use False in \<open>auto simp: bad_def ix_def word_neq_0_conv\<close>)
    then show ?thesis by (simp add: grown_def w')
  qed (use assms run in auto)
  then show ?thesis by (simp add: ix_def)
qed

lemma mb_db_index: "index_table mb_idx mb_lid mb_db"
  unfolding index_table_def
proof (intro conjI allI impI)
  fix c m sd rc st q t w r w'
  assume "execute_update mb_db c insert_index_sql
      [SString m, SU64 sd, SU64 rc, SInt st, SString q, SU64 t] w = (r, w')"
  then show "let ix = \<lparr>idx_msg_id = m, idx_sender = sd, idx_receiver = rc, idx_session_type = st,
        idx_seq_id = q, idx_created_at = uint t\<rparr>
      in (r = Ret () \<longrightarrow> adds_index mb_idx mb_lid c ix w w') \<and> grown mb_idx w w'"
    by (intro mb_insert_adds) (simp add: mb_db_def)
next
  fix c u l n w rs w'
  assume "execute_query mb_db c fetch_ids_sql [SU64 u, SU64 l, SInt n] w = (Ret rs, w')"
  then have "rs = mb_answer [SU64 u, SU64 l, SInt n] (outside w)" "mb_idx w' = mb_idx w"
    by (auto simp: mb_db_def on_outside_def)
  then show "\<exists>t k. between mb_idx w t w' \<and>
      list_all2 (\<lambda>r m. row_string r ''msg_id'' = Inr m) (rows rs) (take k (ids_after t u l n)) \<and>
      (rows_end rs = None \<longrightarrow> length (ids_after t u l n) \<le> k)"
    using mb_answer_ids by (auto simp: between_def)
qed (auto simp: mb_db_def ret_def on_outside_def grown_def mb_answer_def number_rows_def
    number_row_def column_def)

definition body_doc :: "msg_body \<Rightarrow> mongo_doc" where
  "body_doc b =
     \<lparr>doc_string = column [(''msg_id'', body_msg_id b), (''content'', body_content b)],
      doc_int32 = column [(''msg_type'', body_msg_type b), (''session_type'', body_session_type b)]\<rparr>"

definition mb_mongo :: "mbox mongo_driver" where
  "mb_mongo = \<lparr>driver_start = ret (), open_pool = (\<lambda>u n m. ret ()), acquire_entry = ret (),
     insert_one = (\<lambda>b m. (Ret True, m\<lparr>mb_bodies := mb_bodies m @ [b]\<rparr>)),
     find_in = (\<lambda>ids m. (Ret \<lparr>docs = map body_doc (filter (\<lambda>b. body_msg_id b \<in> set ids) (mb_bodies m)),
       docs_end = None\<rparr>, m)),
     mongo_sleep = (\<lambda>d v. v)\<rparr>"

definition mb_env :: "mbox msg_env" where
  "mb_env = \<lparr>msg_db = mb_db, msg_mongo = mb_mongo, msg_clock = (\<lambda>w. (7, w))\<rparr>"

definition mb_start :: "nat \<Rightarrow> (u64 \<times> msg_index) list \<Rightarrow> mbox mongo_world app" where
  "mb_start flaky t =
     \<lparr>pool = new_pool\<lparr>idle := [0]\<rparr>,
      world = \<lparr>mongo = \<lparr>mongo_initialized = True, mongo_shutdown_flag = False, mongo_open = True\<rparr>,
               outside = \<lparr>mb_rows = t, mb_last = 0, mb_flaky = flaky, mb_bodies = []\<rparr>\<rparr>\<rparr>"

definition two_rows :: "(u64 \<times> msg_index) list" where
  "two_rows = [(1, default_index\<lparr>idx_msg_id := ''a'', idx_receiver := 2\<rparr>),
               (2, default_index\<lparr>idx_msg_id := ''b'', idx_receiver := 2, idx_seq_id := ''x''\<rparr>)]"

lemma mb_env_simps [simp]:
  "msg_db mb_env = mb_db" "msg_mongo mb_env = mb_mongo" "clock_keeps (msg_clock mb_env) f"
  by (simp_all add: mb_env_def clock_keeps_def)

lemma body_insert_mb: "body_insert mb_mongo b w = (r, w') \<Longrightarrow> mb_idx w' = mb_idx w"
proof -
  have pause: "mongo_pause mb_mongo d v = v" for d v by (simp add: mongo_pause_def mb_mongo_def)
  have a: "body_insert_attempt mb_mongo b v = (q, v') \<Longrightarrow> mb_idx v' = mb_idx v" for q v v'
    by (auto simp: body_insert_attempt_def bind_comp_def get_connection_def on_outside_def
        mb_mongo_def ret_def split: if_splits)
  have f: "failing (body_insert_attempt mb_mongo b) (mongo_pause mb_mongo 500) n v u \<Longrightarrow>
      mb_idx u = mb_idx v" for n v u
    by (induction n arbitrary: v)
       (auto split: prod.splits outcome.splits dest!: a simp: pause)
  assume *: "body_insert mb_mongo b w = (r, w')"
  obtain q v where q: "execute_with_retry (mongo_pause mb_mongo) 3 500 (body_insert_attempt mb_mongo b) w =
      (q, v)" by fastforce
  then have "w' = v" using * by (cases q) (auto simp: body_insert_def catch_all_def ret_def)
  moreover obtain n u where "failing (body_insert_attempt mb_mongo b) (mongo_pause mb_mongo 500) n w u"
    "body_insert_attempt mb_mongo b u = (q, v)"
    using q by (auto simp: execute_with_retry_def retry_loop_result)
  ultimately show ?thesis using f a by metis
qed

definition hello :: chat_msg where
  "hello = \<lparr>msg_id = ''m1'', sender_id = 1, receiver_id = 2, session_type = 1, msg_type = 1,
     content = ''hello'', send_time = 0, server_time = 0, seq_id = []\<rparr>"

theorem save_message_indexed_witness:
  "\<exists>i ix s'. save_message mb_env hello (mb_start 0 []) = (Ret (seq_text 7 1), s') \<and>
     (i, ix) \<in> set (mb_idx (world s')) \<and> idx_msg_id ix = ''m1''"
proof -
  have "fst (save_message mb_env hello (mb_start 0 [])) = Ret (seq_text 7 1)" by code_simp
  then obtain s' where s': "save_message mb_env hello (mb_start 0 []) = (Ret (seq_text 7 1), s')"
    by (metis prod.collapse)
  have "seq_text 7 1 \<noteq> []" by (simp add: seq_text_def)
  from save_message_indexed [of mb_idx mb_lid mb_env, OF _ _ s' this] s'
  show ?thesis by (auto simp: mb_db_index hello_def)
qed

theorem mailbox_holds_one_witness:
  "fst (save_message mb_env hello (mb_start 0 two_rows)) = Ret []"
proof -
  obtain q s' where s': "save_message mb_env hello (mb_start 0 two_rows) = (Ret q, s')"
  proof -
    have "fst (save_message mb_env hello (mb_start 0 two_rows)) = Ret []" by code_simp
    with that show thesis by (metis prod.collapse)
  qed
  have "(1, default_index\<lparr>idx_msg_id := ''a'', idx_receiver := 2\<rparr>) \<in> set (mb_idx (world (mb_start 0 two_rows)))"
    by (simp add: mb_start_def two_rows_def)
  from mailbox_holds_one [of mb_idx mb_lid mb_env, OF _ _ _ this _ _ s'] s'
  show ?thesis
    by (simp add: mb_db_index hello_def default_index_def body_insert_mb grown_def)
qed

text \<open>The lambda of the fetch with the sequence number parsed, for evaluation.\<close>

definition fetch_after :: "u64 \<Rightarrow> u64 \<Rightarrow> conn \<Rightarrow> (mbox mongo_world \<times> string list, unit) comp" where
  "fetch_after uid l c =
     bind_comp (query (lift_mysql mb_db) c fetch_ids_sql [SU64 uid, SU64 l, SInt 10])
       (\<lambda>res. push_rows (\<lambda>r. row_string r ''msg_id'') (rows res) (rows_end res))"

lemma fetch_after: "fetch_ids_body mb_db uid (seq_text now l) 10 = fetch_after uid l"
  by (rule ext) (simp add: fetch_ids_body_def fetch_after_def parse_seq_text)

theorem fetch_in_order_witness:
  "fst (fetch_offline_ids mb_db 2 (seq_text 7 1) 10 (mb_start 0 two_rows)) = Ret [''b'']"
proof -
  let ?g = "guarded (fetch_ids_body mb_db 2 (seq_text 7 1) 10)
      \<lparr>pool = pool (mb_start 0 two_rows), world = (world (mb_start 0 two_rows), [])\<rparr>"
  have "fst ?g = Ret ()" unfolding fetch_after by code_simp
  then have g: "?g = (Ret (), snd ?g)" by (metis prod.collapse)
  have ids: "mb_idx (world (mb_start 0 two_rows)) = two_rows"
    "mb_idx (fst (world (snd ?g))) = two_rows" "ids_after two_rows 2 1 10 = [''b'']"
    unfolding fetch_after by code_simp+
  obtain tb s' where "between mb_idx (world (mb_start 0 two_rows)) tb (fst (world (snd ?g)))"
    "fetch_offline_ids mb_db 2 (seq_text 7 1) 10 (mb_start 0 two_rows) = (Ret (ids_after tb 2 1 10), s')"
    using fetch_in_order [OF mb_db_index g] by blast
  with between_const ids show ?thesis by (metis fst_conv)
qed

theorem retried_fetch_duplicates_witness:
  "fst (fetch_offline_ids mb_db 2 (seq_text 7 0) 10 (mb_start 1 two_rows)) = Ret [''a'', ''a'', ''b'']"
proof -
  let ?s = "mb_start 1 two_rows"
  let ?g = "guarded (fetch_ids_body mb_db 2 (seq_text 7 0) 10) \<lparr>pool = pool ?s, world = (world ?s, [])\<rparr>"
  let ?h = "guarded (fetch_ids_body mb_db 2 (seq_text 7 0) 10) (app_pause (lift_mysql mb_db) 500 (snd ?g))"
  have "fst ?g = Exc OtherException" "fst ?h = Ret ()" unfolding fetch_after by code_simp+
  then have g: "?g = (Exc OtherException, snd ?g)" "?h = (Ret (), snd ?h)"
    by (metis prod.collapse)+
  have ids: "snd (world (snd ?g)) = [''a'']" "mb_idx (fst (world (snd ?g))) = two_rows"
    "mb_idx (fst (world (snd ?h))) = two_rows" "ids_after two_rows 2 0 10 = [''a'', ''b'']"
    unfolding fetch_after by code_simp+
  have parse: "parse_last_id (seq_text 7 0) = Inr 0" by (rule parse_seq_text)
  obtain tb s' where tb: "between mb_idx (fst (world (snd ?g))) tb (fst (world (snd ?h)))"
    "fetch_offline_ids mb_db 2 (seq_text 7 0) 10 ?s = (Ret (snd (world (snd ?g)) @ ids_after tb 2 0 10), s')"
    using retried_fetch_duplicates [OF mb_db_index parse g] by blast
  have "tb = two_rows" using between_const [OF tb(1)] ids(2,3) by simp
  with tb(2) ids(1,4) show ?thesis by simp
qed

end
