(* ===== verification/Mailbox.thy ===== *)
theory Mailbox
  imports Message_Store
begin

section \<open>Saving a message and pulling it\<close>

text \<open>
  The two stores of the message service together: what \<open>PullOfflineMessages\<close> returns of what
  \<open>SaveMessage\<close> has written, over the index in MySQL (\<open>index_table\<close>) and the collection in
  MongoDB. Other threads and processes may add to both stores at any time: before, during and
  after every call of a driver.
\<close>

subsection \<open>What MongoDB promises of the collection\<close>

text \<open>
  \<open>bodies w\<close> are the documents of \<open>chat_db.messages\<close>. An insertion that returns true has
  added its document, one that ends otherwise may have; \<open>find\<close> with \<open>$in\<close> gives the
  documents with one of the identifiers at a moment of the call, in no particular order, all
  of them when reading the cursor does not throw.
\<close>

definition body_collection ::
  "('v mongo_world \<Rightarrow> msg_body list) \<Rightarrow> 'v mongo_driver \<Rightarrow> bool" where
  "body_collection bodies drv \<longleftrightarrow>
     world_rel (grown bodies) (on_outside (acquire_entry drv)) \<and>
     (\<forall>b. world_rel (grown bodies) (on_outside (insert_one drv b))) \<and>
     (\<forall>b w w'. on_outside (insert_one drv b) w = (Ret True, w') \<longrightarrow> b \<in> set (bodies w')) \<and>
     (\<forall>ids. world_rel (grown bodies) (on_outside (find_in drv ids))) \<and>
     (\<forall>ids w cur w'. on_outside (find_in drv ids) w = (Ret cur, w') \<longrightarrow>
        (\<exists>t bs k. between bodies w t w' \<and>
           mset bs = mset (filter (\<lambda>b. body_msg_id b \<in> set ids) t) \<and>
           list_all2 (\<lambda>d b. read_body d = Inr b) (docs cur) (take k bs) \<and>
           (docs_end cur = None \<longrightarrow> length bs \<le> k))) \<and>
     (\<forall>d w. grown bodies w (mongo_pause drv d w))"

text \<open>Neither store's operations touch the other store, to which others may add meanwhile.\<close>

definition apart ::
  "('v mongo_world \<Rightarrow> (u64 \<times> msg_index) list) \<Rightarrow> ('v mongo_world \<Rightarrow> msg_body list) \<Rightarrow> 'v msg_env \<Rightarrow> bool" where
  "apart idx bodies env \<longleftrightarrow>
     (\<forall>c stmt. world_rel (grown bodies) (prepare (msg_db env) c stmt)) \<and>
     (\<forall>c stmt args. world_rel (grown bodies) (execute_query (msg_db env) c stmt args)) \<and>
     (\<forall>c stmt args. world_rel (grown bodies) (execute_update (msg_db env) c stmt args)) \<and>
     (\<forall>d w. grown bodies w (pause_for (msg_db env) d w)) \<and>
     clock_keeps (msg_clock env) bodies \<and>
     world_rel (grown idx) (on_outside (acquire_entry (msg_mongo env))) \<and>
     (\<forall>b. world_rel (grown idx) (on_outside (insert_one (msg_mongo env) b))) \<and>
     (\<forall>ids. world_rel (grown idx) (on_outside (find_in (msg_mongo env) ids))) \<and>
     (\<forall>d w. grown idx w (mongo_pause (msg_mongo env) d w))"

definition stores ::
  "('v mongo_world \<Rightarrow> (u64 \<times> msg_index) list) \<Rightarrow> ('v mongo_world \<Rightarrow> conn \<Rightarrow> u64) \<Rightarrow>
     ('v mongo_world \<Rightarrow> msg_body list) \<Rightarrow> 'v msg_env \<Rightarrow> bool" where
  "stores idx lid bodies env \<longleftrightarrow>
     index_table idx lid (msg_db env) \<and> clock_keeps (msg_clock env) idx \<and>
     body_collection bodies (msg_mongo env) \<and> apart idx bodies env"

lemma storesD:
  assumes "stores idx lid bodies env"
  shows "index_table idx lid (msg_db env)" "clock_keeps (msg_clock env) idx"
    "body_collection bodies (msg_mongo env)" "apart idx bodies env"
  using assms by (simp_all add: stores_def)

lemma apart_sql:
  assumes "apart idx bodies env"
  shows "world_rel (grown bodies) (prepare (msg_db env) c stmt)"
    "world_rel (grown bodies) (execute_query (msg_db env) c stmt args)"
    "world_rel (grown bodies) (execute_update (msg_db env) c stmt args)"
    "grown bodies w (pause_for (msg_db env) d w)" "clock_keeps (msg_clock env) bodies"
  using assms by (simp_all add: apart_def)

lemma apart_mongo:
  assumes "apart idx bodies env"
  shows "world_rel (grown idx) (on_outside (acquire_entry (msg_mongo env)))"
    "world_rel (grown idx) (on_outside (insert_one (msg_mongo env) b))"
    "world_rel (grown idx) (on_outside (find_in (msg_mongo env) ids))"
    "grown idx w (mongo_pause (msg_mongo env) d w)"
  using assms by (simp_all add: apart_def)

lemma collection_grown:
  assumes "body_collection bodies drv"
  shows "world_rel (grown bodies) (on_outside (acquire_entry drv))"
    "world_rel (grown bodies) (on_outside (insert_one drv b))"
    "world_rel (grown bodies) (on_outside (find_in drv ids))"
    "grown bodies w (mongo_pause drv d w)"
  using assms by (simp_all add: body_collection_def)

lemma collection_inserted:
  "body_collection bodies drv \<Longrightarrow> on_outside (insert_one drv b) w = (Ret True, w') \<Longrightarrow>
     b \<in> set (bodies w')"
  by (simp add: body_collection_def)

lemma collection_found:
  assumes "body_collection bodies drv" "on_outside (find_in drv ids) w = (Ret cur, w')"
  shows "\<exists>t bs k. between bodies w t w' \<and>
       set bs = {b \<in> set t. body_msg_id b \<in> set ids} \<and>
       list_all2 (\<lambda>d b. read_body d = Inr b) (docs cur) (take k bs) \<and>
       (docs_end cur = None \<longrightarrow> length bs \<le> k)"
proof -
  have "\<forall>ids w cur w'. on_outside (find_in drv ids) w = (Ret cur, w') \<longrightarrow>
      (\<exists>t bs k. between bodies w t w' \<and>
         mset bs = mset (filter (\<lambda>b. body_msg_id b \<in> set ids) t) \<and>
         list_all2 (\<lambda>d b. read_body d = Inr b) (docs cur) (take k bs) \<and>
         (docs_end cur = None \<longrightarrow> length bs \<le> k))"
    using assms(1) unfolding body_collection_def by (elim conjE)
  from this [rule_format, OF assms(2)] show ?thesis
  proof (elim exE conjE, intro exI conjI)
    fix t bs k
    assume "mset bs = mset (filter (\<lambda>b. body_msg_id b \<in> set ids) t)"
    from arg_cong [OF this, of set_mset] show "set bs = {b \<in> set t. body_msg_id b \<in> set ids}" by simp
  qed
qed

subsection \<open>Both stores only grow\<close>

definition both_grown ::
  "('w \<Rightarrow> 'r list) \<Rightarrow> ('w \<Rightarrow> 'b list) \<Rightarrow> 'w \<Rightarrow> 'w \<Rightarrow> bool" where
  "both_grown idx bodies w w' \<longleftrightarrow> grown idx w w' \<and> grown bodies w w'"

lemma grown_set: "grown f w w' \<Longrightarrow> x \<in> set (f w) \<Longrightarrow> x \<in> set (f w')"
  by (auto simp: grown_def)

lemma both_grown_refl [simp]: "reflp (both_grown idx bodies)" "both_grown idx bodies w w"
  by (simp_all add: reflp_def both_grown_def)

lemma both_grown_trans [simp]: "transp (both_grown idx bodies)"
  by (rule transpI) (auto simp: both_grown_def grown_def)

lemma both_grown_step:
  "both_grown idx bodies u v \<Longrightarrow> both_grown idx bodies v w \<Longrightarrow> both_grown idx bodies u w"
  using both_grown_trans by (rule transpD)

lemma both_grownI: "grown idx w w' \<Longrightarrow> grown bodies w w' \<Longrightarrow> both_grown idx bodies w w'"
  by (simp add: both_grown_def)

lemma world_rel_join:
  assumes "world_rel R m" "world_rel S m"
    and "\<And>w w'. R w w' \<Longrightarrow> S w w' \<Longrightarrow> T w w'"
  shows "world_rel T m"
  using assms by (simp add: world_rel_def)

lemma world_rel_both:
  "world_rel (grown idx) m \<Longrightarrow> world_rel (grown bodies) m \<Longrightarrow> world_rel (both_grown idx bodies) m"
  by (simp add: world_rel_def both_grown_def)

lemma world_rel_get_connection:
  "world_rel R (on_outside (acquire_entry drv)) \<Longrightarrow> reflp R \<Longrightarrow> world_rel R (get_connection drv)"
  by (auto simp: world_rel_def get_connection_def reflp_def)

subsection \<open>Saving\<close>

lemma mongo_both:
  assumes "stores idx lid bodies env"
  shows "world_rel (both_grown idx bodies) (get_connection (msg_mongo env))"
    "world_rel (both_grown idx bodies) (on_outside (insert_one (msg_mongo env) b))"
    "world_rel (both_grown idx bodies) (on_outside (find_in (msg_mongo env) ids))"
    "both_grown idx bodies w (mongo_pause (msg_mongo env) d w)"
proof -
  note g = apart_mongo [OF storesD(4) [OF assms]] collection_grown [OF storesD(3) [OF assms]]
  show "world_rel (both_grown idx bodies) (get_connection (msg_mongo env))"
    by (rule world_rel_get_connection [OF world_rel_both [OF g(1,5)]]) simp
  show "world_rel (both_grown idx bodies) (on_outside (insert_one (msg_mongo env) b))"
    by (rule world_rel_both [OF g(2,6)])
  show "world_rel (both_grown idx bodies) (on_outside (find_in (msg_mongo env) ids))"
    by (rule world_rel_both [OF g(3,7)])
  show "both_grown idx bodies w (mongo_pause (msg_mongo env) d w)"
    using g(4,8) by (rule both_grownI)
qed

lemma sql_both:
  assumes "stores idx lid bodies env"
  shows "world_rel (both_grown idx bodies) (prepare (msg_db env) c stmt)"
    "world_rel (both_grown idx bodies) (execute_query (msg_db env) c stmt args)"
    "world_rel (both_grown idx bodies) (read_clock (msg_clock env))"
    "both_grown idx bodies w (pause_for (msg_db env) d w)"
proof -
  note tab = storesD(1) [OF assms] and g = apart_sql [OF storesD(4) [OF assms]]
  have "world_rel (grown idx) (prepare (msg_db env) c stmt)"
    "world_rel (grown idx) (execute_query (msg_db env) c stmt args)"
    unfolding world_rel_def using index_prepare [OF tab] index_query [OF tab] by blast+
  then show "world_rel (both_grown idx bodies) (prepare (msg_db env) c stmt)"
    "world_rel (both_grown idx bodies) (execute_query (msg_db env) c stmt args)"
    using g(1,2) by (simp_all add: world_rel_both)
  show "world_rel (both_grown idx bodies) (read_clock (msg_clock env))"
    using storesD(2) [OF assms] g(5)
    by (auto simp: world_rel_def both_grown_def clock_keeps_def read_clock_def)
  show "both_grown idx bodies w (pause_for (msg_db env) d w)"
    using index_pause [OF tab] g(4) by (rule both_grownI)
qed

lemma body_insert_attempt_both:
  assumes "stores idx lid bodies env"
  shows "world_rel (both_grown idx bodies) (body_insert_attempt (msg_mongo env) b)"
  unfolding body_insert_attempt_def
  by (intro world_rel_bind mongo_both(1,2) [OF assms] both_grown_trans)

lemma world_rel_keeps:
  "world_rel R m \<Longrightarrow> transp R \<Longrightarrow> keeps (R w) m"
  unfolding world_rel_def keeps_def transp_def by blast

text \<open>An insertion that returns true has left the document.\<close>

lemma body_insert_both:
  assumes st: "stores idx lid bodies env" and ins: "body_insert (msg_mongo env) b w = (r, w')"
    and r: "r \<noteq> Hang"
  shows "both_grown idx bodies w w' \<and> (r = Ret True \<longrightarrow> b \<in> set (bodies w'))"
proof -
  let ?att = "body_insert_attempt (msg_mongo env) b"
  obtain q v where q: "execute_with_retry (mongo_pause (msg_mongo env)) 3 500 ?att w = (q, v)"
    by fastforce
  then have v: "v = w'" "r = Ret True \<longrightarrow> q = Ret True" "q \<noteq> Hang"
    using ins r by (cases q; auto simp: body_insert_def catch_all_def ret_def)+
  obtain n u where u: "failing ?att (mongo_pause (msg_mongo env) 500) n w u" "?att u = (q, v)"
    using q by (auto simp: execute_with_retry_def retry_loop_result)
  have k: "keeps (both_grown idx bodies w) ?att"
    by (intro world_rel_keeps body_insert_attempt_both [OF st] both_grown_trans)
  have "both_grown idx bodies w u"
    by (rule failing_keeps [OF k _ _ u(1)])
       (auto intro: both_grown_step mongo_both(4) [OF st])
  then have "both_grown idx bodies w w'" using keepsD [OF k _ u(2) v(3)] v(1) by simp
  moreover have "b \<in> set (bodies w')" if yes: "r = Ret True"
  proof -
    obtain x where "on_outside (insert_one (msg_mongo env) b) x = (Ret True, w')"
      using u(2) v(1) mp [OF v(2) yes] by (auto simp: body_insert_attempt_def bind_comp_Ret)
    then show ?thesis by (rule collection_inserted [OF storesD(3) [OF st]])
  qed
  ultimately show ?thesis by blast
qed

lemma index_insert_body_both:
  assumes "stores idx lid bodies env"
  shows "world_rel (both_grown idx bodies) (index_insert_body (msg_db env) (msg_clock env) ix c)"
proof (rule world_rel_both [OF index_insert_body_grown [OF storesD(1,2) [OF assms]]])
  have "world_rel (grown bodies) (read_clock (msg_clock env))"
    using apart_sql(5) [OF storesD(4) [OF assms]]
    by (auto simp: world_rel_def clock_keeps_def read_clock_def)
  then show "world_rel (grown bodies) (index_insert_body (msg_db env) (msg_clock env) ix c)"
    unfolding index_insert_body_def query_def
    by (intro world_rel_bind world_rel_of_sum apart_sql(1-3) [OF storesD(4) [OF assms]]) simp_all
qed

text \<open>
  Saving only adds; after a save that returns a sequence number the body is in the
  collection and a row of the index has its identifier and the receiver.
\<close>

lemma save_message_both:
  assumes st: "stores idx lid bodies env" and save: "save_message env msg s = (Ret q, s')"
    and q: "q \<noteq> []"
  shows "both_grown idx bodies (world s) (world s') \<and> body_of msg \<in> set (bodies (world s')) \<and>
         (\<exists>i ix. 0 < i \<and> (i, ix) \<in> set (idx (world s')) \<and> idx_msg_id ix = msg_id msg \<and>
            idx_receiver ix = receiver_id msg)"
proof -
  obtain s1 where s1: "on_world (body_insert (msg_mongo env) (body_of msg)) s = (Ret True, s1)"
    and ins: "index_insert (msg_db env) (msg_clock env) (index_of msg) s1 = (Ret q, s')"
    using save q by (auto simp: save_message_def bind_comp_Ret ret_def split: if_splits)
  have "body_insert (msg_mongo env) (body_of msg) (world s) = (Ret True, world s1)"
    using s1 by (auto simp: on_world_def split: prod.splits)
  from body_insert_both [OF st this]
  have b: "both_grown idx bodies (world s) (world s1)" "body_of msg \<in> set (bodies (world s1))"
    by auto
  obtain c w where w: "both_grown idx bodies (world s1) w"
    "index_insert_body (msg_db env) (msg_clock env) (index_of msg) c w = (Ret q, world s')"
    by (rule caught_with_db_Ret [OF index_insert_body_both [OF st] both_grown_refl(1) both_grown_trans
          sql_both(4) [OF st] ins [unfolded index_insert_def] q])
  have "both_grown idx bodies w (world s')"
    by (rule world_relD [OF index_insert_body_both [OF st] w(2)])
  then have s1s': "both_grown idx bodies (world s1) (world s')" by (rule both_grown_step [OF w(1)])
  from index_insert_body_Ret [OF storesD(1,2) [OF st] w(2)] obtain i ca where
    i: "(i, (index_of msg)\<lparr>idx_created_at := ca\<rparr>) \<in> set (idx (world s'))"
    "0 < i"
    by blast
  moreover have "body_of msg \<in> set (bodies (world s'))"
    using s1s' b(2) by (auto simp: both_grown_def dest: grown_set)
  moreover have "\<exists>i ix. 0 < i \<and> (i, ix) \<in> set (idx (world s')) \<and> idx_msg_id ix = msg_id msg \<and>
      idx_receiver ix = receiver_id msg"
  proof (intro exI conjI)
    show "(i, (index_of msg)\<lparr>idx_created_at := ca\<rparr>) \<in> set (idx (world s'))"
      by (rule i(1))
  qed (use i(2) in \<open>simp_all add: index_of_def default_index_def\<close>)
  ultimately show ?thesis using both_grown_step [OF b(1) s1s'] by blast
qed

subsection \<open>Pulling\<close>

lemma push_rows_any:
  "push_rows f rs fin (w, acc) = (r, s) \<Longrightarrow>
     \<exists>vs k. s = (w, acc @ vs) \<and> list_all2 (\<lambda>r v. f r = Inr v) (take k rs) vs"
proof (induction rs arbitrary: acc)
  case Nil
  then show ?case by (cases fin) auto
next
  case (Cons x rs)
  show ?case
  proof (cases "f x")
    case (Inl e)
    with Cons.prems show ?thesis by (intro exI [of _ "[]"] exI [of _ 0]) auto
  next
    case (Inr v)
    with Cons.prems have "push_rows f rs fin (w, acc @ [v]) = (r, s)" by simp
    from Cons.IH [OF this] obtain vs k where "s = (w, acc @ v # vs)"
      "list_all2 (\<lambda>r v. f r = Inr v) (take k rs) vs"
      by auto
    with Inr show ?thesis by (intro exI [of _ "v # vs"] exI [of _ "Suc k"]) simp
  qed
qed

text \<open>What was read of some rows is a beginning of what all of them say.\<close>

lemma read_prefix:
  assumes "list_all2 (\<lambda>r v. f r = Inr v) rs us" "list_all2 (\<lambda>r v. f r = Inr v) (take k rs) vs"
  shows "vs = take k us"
  using list_all2_takeI [OF assms(1), of k] assms(2) by (rule read_all2_unique)

lemma fetch_ids_body_any:
  assumes st: "stores idx lid bodies env" and l: "parse_last_id q = Inr l"
    and run: "fetch_ids_body (msg_db env) uid q limit c (w, acc) = (r, (w', acc'))"
  shows "both_grown idx bodies w w' \<and>
         (\<exists>t n. prefix t (idx w') \<and> acc' = acc @ take n (ids_after t uid l limit))"
proof -
  obtain r1 w1 where p: "prepare (msg_db env) c fetch_ids_sql w = (r1, w1)" by fastforce
  have w1: "both_grown idx bodies w w1" by (rule world_relD [OF sql_both(1) [OF st] p])
  obtain r2 w2 where e: "execute_query (msg_db env) c fetch_ids_sql [SU64 uid, SU64 l, SInt limit] w1 =
      (r2, w2)" by fastforce
  have w2: "both_grown idx bodies w w2"
    by (rule both_grown_step [OF w1 world_relD [OF sql_both(2) [OF st] e]])
  show ?thesis
  proof (cases "r1 = Ret () \<and> (\<exists>rs. r2 = Ret rs)")
    case False
    then have "acc' = acc" "w' = w1 \<or> w' = w2"
      using run l p e
      by (auto simp: fetch_ids_body_def query_def bind_comp_def lift_mysql_def lift_world_def
          split: outcome.splits)
    then show ?thesis using w1 w2 by (auto intro: exI [of _ "idx w'"] exI [of _ 0])
  next
    case True
    then obtain rs where rs: "r1 = Ret ()" "r2 = Ret rs" by blast
    have "push_rows (\<lambda>r. row_string r ''msg_id'') (rows rs) (rows_end rs) (w2, acc) = (r, (w', acc'))"
      using run l p e rs
      by (simp add: fetch_ids_body_def query_def bind_comp_def lift_mysql_def lift_world_def)
    from push_rows_any [OF this] obtain vs k where vs: "w' = w2" "acc' = acc @ vs"
      "list_all2 (\<lambda>r v. row_string r ''msg_id'' = Inr v) (take k (rows rs)) vs"
      by auto
    obtain t j where t: "between idx w1 t w2" "list_all2 (\<lambda>r m. row_string r ''msg_id'' = Inr m) (rows rs)
        (take j (ids_after t uid l limit))"
      using index_found [OF storesD(1) [OF st] e [unfolded rs(2)]] by blast
    have "acc' = acc @ take (min k j) (ids_after t uid l limit)"
      using read_prefix [OF t(2) vs(3)] vs(2) by simp
    then show ?thesis using t(1) vs(1) w2 by (auto simp: between_def)
  qed
qed

text \<open>\<open>m\<close> is the identifier of a row for the user after the last one the user has.\<close>

definition listed ::
  "('w \<Rightarrow> (u64 \<times> msg_index) list) \<Rightarrow> u64 \<Rightarrow> u64 \<Rightarrow> 'w \<Rightarrow> string \<Rightarrow> bool" where
  "listed idx uid l w m \<longleftrightarrow>
     (\<exists>i ix. (i, ix) \<in> set (idx w) \<and> idx_receiver ix = uid \<and> l < i \<and> idx_msg_id ix = m)"

lemma listed_ids_after:
  "m \<in> set (take n (ids_after t uid l limit)) \<Longrightarrow> prefix t (idx w) \<Longrightarrow> listed idx uid l w m"
  by (fastforce simp: listed_def ids_after_def dest!: in_set_takeD dest: set_mono_prefix)

lemma listed_grown: "both_grown idx bodies w w' \<Longrightarrow> listed idx uid l w m \<Longrightarrow> listed idx uid l w' m"
  unfolding listed_def both_grown_def by (blast dest: grown_set)

definition fetch_rel ::
  "('w \<Rightarrow> (u64 \<times> msg_index) list) \<Rightarrow> ('w \<Rightarrow> 'b list) \<Rightarrow> u64 \<Rightarrow> u64 \<Rightarrow>
     'w \<times> string list \<Rightarrow> 'w \<times> string list \<Rightarrow> bool" where
  "fetch_rel idx bodies uid l x y \<longleftrightarrow>
     both_grown idx bodies (fst x) (fst y) \<and>
     ((\<forall>m \<in> set (snd x). listed idx uid l (fst x) m) \<longrightarrow>
      (\<forall>m \<in> set (snd y). listed idx uid l (fst y) m))"

lemma fetch_rel_refl_trans: "reflp (fetch_rel idx bodies uid l)" "transp (fetch_rel idx bodies uid l)"
  unfolding reflp_def transp_def fetch_rel_def by (auto intro: both_grown_step)

lemma fetch_rel_body:
  assumes st: "stores idx lid bodies env" and l: "parse_last_id q = Inr l"
  shows "world_rel (fetch_rel idx bodies uid l) (fetch_ids_body (msg_db env) uid q limit c)"
  unfolding world_rel_def
proof (intro allI impI)
  fix x r y
  assume run: "fetch_ids_body (msg_db env) uid q limit c x = (r, y)"
  then have "fetch_ids_body (msg_db env) uid q limit c (fst x, snd x) = (r, (fst y, snd y))" by simp
  from fetch_ids_body_any [OF st l this] obtain t n where
    y: "both_grown idx bodies (fst x) (fst y)" "prefix t (idx (fst y))"
    "snd y = snd x @ take n (ids_after t uid l limit)"
    by blast
  then show "fetch_rel idx bodies uid l x y"
    by (auto simp: fetch_rel_def intro: listed_ids_after listed_grown)
qed

lemma fetch_rel_pause:
  assumes st: "stores idx lid bodies env"
  shows "fetch_rel idx bodies uid l x (pause_for (lift_mysql (msg_db env)) d x)"
  using sql_both(4) [OF st]
  by (auto simp: fetch_rel_def lift_mysql_def split: prod.split intro: listed_grown)

text \<open>Whatever the attempts do, only identifiers of the user's own rows are fetched.\<close>

lemma fetch_offline_ids_listed:
  assumes st: "stores idx lid bodies env" and l: "parse_last_id q = Inr l"
    and run: "fetch_offline_ids (msg_db env) uid q limit s = (Ret ids, s')"
  shows "both_grown idx bodies (world s) (world s') \<and> (\<forall>m \<in> set ids. listed idx uid l (world s') m)"
proof -
  let ?m = "catch_all (with_db (lift_mysql (msg_db env)) (fetch_ids_body (msg_db env) uid q limit)) (ret ())"
  obtain r t where t: "?m \<lparr>pool = pool s, world = (world s, [])\<rparr> = (r, t)" by fastforce
  have s': "ids = snd (world t)" "world s' = fst (world t)"
    using run t
    by (auto simp: fetch_offline_ids_def with_local_def with_db_void_eq bind_comp_def ret_def
        split: outcome.splits)
  have "fetch_rel idx bodies uid l (world \<lparr>pool = pool s, world = (world s, [])\<rparr>) (world t)"
    using caught_with_db_rel [OF fetch_rel_body [OF st l] fetch_rel_refl_trans
        fetch_rel_pause [OF st] t] by blast
  then show ?thesis using s' by (simp add: fetch_rel_def)
qed

text \<open>
  The invariant of the attempts of \<open>BatchGet\<close>: the bodies read so far are documents of the
  collection with one of the identifiers.
\<close>

definition batch_inv ::
  "('w \<Rightarrow> 'r list) \<Rightarrow> ('w \<Rightarrow> msg_body list) \<Rightarrow> string list \<Rightarrow> 'w \<Rightarrow> 'w \<times> msg_body list \<Rightarrow> bool" where
  "batch_inv idx bodies ids w0 x \<longleftrightarrow>
     both_grown idx bodies w0 (fst x) \<and>
     (\<forall>b \<in> set (snd x). b \<in> set (bodies (fst x)) \<and> body_msg_id b \<in> set ids)"

lemma batch_inv_move:
  "batch_inv idx bodies ids w0 (w, acc) \<Longrightarrow> both_grown idx bodies w w' \<Longrightarrow>
     batch_inv idx bodies ids w0 (w', acc)"
  unfolding batch_inv_def fst_conv snd_conv
  by (elim conjE, intro conjI ballI)
     (auto elim: both_grown_step, auto simp: both_grown_def dest: grown_set)

lemma keeps_lift_world:
  assumes "\<And>w acc r w'. I (w, acc) \<Longrightarrow> m w = (r, w') \<Longrightarrow> I (w', acc)"
  shows "keeps I (lift_world m)"
  using assms by (auto simp: keeps_def lift_world_def split: prod.splits)

lemma batch_attempt_keeps:
  assumes st: "stores idx lid bodies env"
  shows "keeps (batch_inv idx bodies ids w0) (batch_get_attempt (msg_mongo env) ids)"
proof (rule keepsI)
  fix x r y
  assume inv: "batch_inv idx bodies ids w0 x" and r: "r \<noteq> Hang"
    and run: "batch_get_attempt (msg_mongo env) ids x = (r, y)"
  obtain w acc where x: "x = (w, acc)" by fastforce
  obtain r1 w1 where g: "get_connection (msg_mongo env) w = (r1, w1)" by fastforce
  have inv1: "batch_inv idx bodies ids w0 (w1, acc)"
    using batch_inv_move inv world_relD [OF mongo_both(1) [OF st] g] unfolding x .
  obtain r2 w2 where f: "on_outside (find_in (msg_mongo env) ids) w1 = (r2, w2)" by fastforce
  have inv2: "batch_inv idx bodies ids w0 (w2, acc)"
    using batch_inv_move [OF inv1 world_relD [OF mongo_both(3) [OF st] f]] .
  show "batch_inv idx bodies ids w0 y"
  proof (cases "r1 = Ret () \<and> (\<exists>cur. r2 = Ret cur)")
    case False
    then have "y = (w1, acc) \<or> y = (w2, acc)"
      using run g f x
      by (auto simp: batch_get_attempt_def bind_comp_def lift_world_def split: outcome.splits)
    then show ?thesis using inv1 inv2 by blast
  next
    case True
    then obtain cur where cur: "r1 = Ret ()" "r2 = Ret cur" by blast
    have "push_rows read_body (docs cur) (docs_end cur) (w2, acc) = (r, y)"
      using run g f x cur by (simp add: batch_get_attempt_def bind_comp_def lift_world_def)
    from push_rows_any [OF this] obtain vs k where vs: "y = (w2, acc @ vs)"
      "list_all2 (\<lambda>d b. read_body d = Inr b) (take k (docs cur)) vs"
      by blast
    obtain t bs j where t: "between bodies w1 t w2"
      and bs: "set bs = {b \<in> set t. body_msg_id b \<in> set ids}"
      "list_all2 (\<lambda>d b. read_body d = Inr b) (docs cur) (take j bs)"
      using collection_found [OF storesD(3) [OF st]] f cur(2) by blast
    have "set vs \<subseteq> set bs"
      unfolding read_prefix [OF bs(2) vs(2)] by (meson set_take_subset subset_trans)
    then have "\<forall>b \<in> set vs. b \<in> set (bodies w2) \<and> body_msg_id b \<in> set ids"
      using bs(1) t by (auto simp: between_def dest: set_mono_prefix)
    with inv2 vs(1) show ?thesis by (auto simp: batch_inv_def)
  qed
qed

lemma batch_get_inv:
  assumes st: "stores idx lid bodies env"
    and run: "batch_get (msg_mongo env) ids w = (Ret result, w')"
  shows "both_grown idx bodies w w' \<and>
         (\<forall>b \<in> set result. b \<in> set (bodies w') \<and> body_msg_id b \<in> set ids)"
proof (cases "ids = []")
  case True
  then show ?thesis using run by (simp add: batch_get_def)
next
  case False
  let ?slp = "\<lambda>ms (w, l). (mongo_pause (msg_mongo env) ms w, l)"
  let ?m = "catch_all (execute_with_retry_void ?slp 3 500 (batch_get_attempt (msg_mongo env) ids)) (ret ())"
  let ?I = "batch_inv idx bodies ids w"
  have t: "\<exists>u. ?m (w, []) = (Ret u, (w', result))"
    using run False by (auto simp: batch_get_def split: outcome.splits prod.splits)
  have "retried (batch_get_attempt (msg_mongo env) ids) ?slp ?I"
    by unfold_locales
       (auto intro: batch_attempt_keeps [OF st] batch_inv_move mongo_both(4) [OF st])
  then have k: "keeps ?I ?m"
    unfolding execute_with_retry_void_eq
    by (rule retried.retry_caught_keeps) (rule keeps_ret)
  have "?I (w, [])" by (simp add: batch_inv_def)
  with t have "?I (w', result)" by (auto dest: keepsD [OF k])
  then show ?thesis by (simp add: batch_inv_def)
qed

text \<open>
  C8. A pull returns only what belongs to the user's mailbox, whatever the drivers, the
  retries and other processes do: each message is a document of the collection whose
  identifier is on a row of the index that is addressed to the user and later than the last
  one the user has. The sender and the receiver of a pulled message are not read from
  anywhere: they are what the memory held.
\<close>

theorem pull_offline_sound:
  assumes "stores idx lid bodies env" "parse_last_id begin_seq = Inr l"
    and "pull_offline env uninit uid begin_seq limit s = (Ret msgs, s')" "m \<in> set msgs"
  shows "\<exists>i ix b. (i, ix) \<in> set (idx (world s')) \<and> idx_receiver ix = uid \<and> l < i \<and>
           b \<in> set (bodies (world s')) \<and> body_msg_id b = idx_msg_id ix \<and>
           msg_id m = body_msg_id b \<and> content m = body_content b \<and>
           msg_type m = body_msg_type b \<and> session_type m = body_session_type b \<and>
           sender_id m = sender_id uninit \<and> receiver_id m = receiver_id uninit"
proof -
  obtain ids s1 bs where ids: "fetch_offline_ids (msg_db env) uid begin_seq limit s = (Ret ids, s1)"
    and bs: "on_world (batch_get (msg_mongo env) ids) s1 = (Ret bs, s')" "msgs = map (chat_of uninit) bs"
    using assms(3,4) by (auto simp: pull_offline_def bind_comp_Ret ret_def split: if_splits)
  have listed1: "\<forall>m \<in> set ids. listed idx uid l (world s1) m"
    using fetch_offline_ids_listed [OF assms(1,2) ids] by blast
  have "batch_get (msg_mongo env) ids (world s1) = (Ret bs, world s')"
    using bs(1) by (auto simp: on_world_def split: prod.splits)
  from batch_get_inv [OF assms(1) this]
  have g: "both_grown idx bodies (world s1) (world s')"
    and found: "\<forall>b \<in> set bs. b \<in> set (bodies (world s')) \<and> body_msg_id b \<in> set ids" by blast+
  obtain b where b: "b \<in> set bs" "m = chat_of uninit b" using assms(4) bs(2) by auto
  with found listed1 g have "listed idx uid l (world s') (body_msg_id b)"
    by (blast intro: listed_grown)
  then obtain i ix where "(i, ix) \<in> set (idx (world s'))" "idx_receiver ix = uid" "l < i"
    "idx_msg_id ix = body_msg_id b"
    unfolding listed_def by blast
  with b found show ?thesis
    by (intro exI [of _ i] exI [of _ ix] exI [of _ b]) (simp add: chat_of_def)
qed

subsection \<open>No row of the index without its body\<close>

text \<open>
  Every row has a document with its identifier. \<open>settled_for m\<close> says the same and that the
  identifier \<open>m\<close> has a document. \<open>others_settle\<close>: a row that another thread or process adds
  during a call has its document when the call ends, as they run the same code; a row of this
  call's own insertion is not restricted.
\<close>

definition indexed ::
  "('w \<Rightarrow> (u64 \<times> msg_index) list) \<Rightarrow> ('w \<Rightarrow> msg_body list) \<Rightarrow> 'w \<Rightarrow> bool" where
  "indexed idx bodies w \<longleftrightarrow>
     (\<forall>r \<in> set (idx w). idx_msg_id (snd r) \<in> body_msg_id ` set (bodies w))"

definition settled_for ::
  "('w \<Rightarrow> (u64 \<times> msg_index) list) \<Rightarrow> ('w \<Rightarrow> msg_body list) \<Rightarrow> string \<Rightarrow> 'w \<Rightarrow> bool" where
  "settled_for idx bodies m w \<longleftrightarrow> indexed idx bodies w \<and> m \<in> body_msg_id ` set (bodies w)"

definition settling ::
  "('w \<Rightarrow> (u64 \<times> msg_index) list) \<Rightarrow> ('w \<Rightarrow> msg_body list) \<Rightarrow> string set \<Rightarrow> 'w \<Rightarrow> 'w \<Rightarrow> bool" where
  "settling idx bodies own w w' \<longleftrightarrow>
     (\<forall>r \<in> set (idx w') - set (idx w). idx_msg_id (snd r) \<in> own \<union> body_msg_id ` set (bodies w'))"

definition others_settle ::
  "('v mongo_world \<Rightarrow> (u64 \<times> msg_index) list) \<Rightarrow> ('v mongo_world \<Rightarrow> msg_body list) \<Rightarrow> 'v msg_env \<Rightarrow> bool" where
  "others_settle idx bodies env \<longleftrightarrow>
     (\<forall>c stmt. world_rel (settling idx bodies {}) (prepare (msg_db env) c stmt)) \<and>
     (\<forall>c stmt args. world_rel (settling idx bodies {}) (execute_query (msg_db env) c stmt args)) \<and>
     (\<forall>c m sd rc st q t. world_rel (settling idx bodies {m})
        (execute_update (msg_db env) c insert_index_sql
           [SString m, SU64 sd, SU64 rc, SInt st, SString q, SU64 t])) \<and>
     world_rel (settling idx bodies {}) (read_clock (msg_clock env)) \<and>
     world_rel (settling idx bodies {}) (on_outside (acquire_entry (msg_mongo env))) \<and>
     (\<forall>b. world_rel (settling idx bodies {}) (on_outside (insert_one (msg_mongo env) b))) \<and>
     (\<forall>ids. world_rel (settling idx bodies {}) (on_outside (find_in (msg_mongo env) ids))) \<and>
     (\<forall>d w. settling idx bodies {} w (mongo_pause (msg_mongo env) d w)) \<and>
     (\<forall>d w. settling idx bodies {} w (pause_for (msg_db env) d w))"

lemma others_settleD:
  assumes "others_settle idx bodies env"
  shows "world_rel (settling idx bodies {}) (prepare (msg_db env) c stmt)"
    "world_rel (settling idx bodies {}) (execute_query (msg_db env) c stmt args)"
    "world_rel (settling idx bodies {m})
       (execute_update (msg_db env) c insert_index_sql
          [SString m, SU64 sd, SU64 rc, SInt st, SString q, SU64 t])"
    "world_rel (settling idx bodies {}) (read_clock (msg_clock env))"
    "world_rel (settling idx bodies {}) (on_outside (acquire_entry (msg_mongo env)))"
    "world_rel (settling idx bodies {}) (on_outside (insert_one (msg_mongo env) b))"
    "settling idx bodies {} w (mongo_pause (msg_mongo env) d w)"
    "settling idx bodies {} w (pause_for (msg_db env) d w)"
  using assms by (simp_all add: others_settle_def)

text \<open>What a call that keeps a predicate does, as a relation on worlds.\<close>

definition preserving :: "('w \<Rightarrow> bool) \<Rightarrow> 'w \<Rightarrow> 'w \<Rightarrow> bool" where
  "preserving I w w' \<longleftrightarrow> (I w \<longrightarrow> I w')"

lemma preserving_refl_trans [simp]: "reflp (preserving I)" "transp (preserving I)"
  by (auto simp: preserving_def reflp_def transp_def)

lemma settling_preserves:
  assumes "settling idx bodies own w w'" "both_grown idx bodies w w'"
  shows "own = {} \<Longrightarrow> preserving (indexed idx bodies) w w'"
    "own \<subseteq> {m} \<Longrightarrow> preserving (settled_for idx bodies m) w w'"
proof -
  have sub: "body_msg_id ` set (bodies w) \<subseteq> body_msg_id ` set (bodies w')"
    using assms(2) by (auto simp: both_grown_def grown_def)
  have row: "idx_msg_id (snd r) \<in> own \<union> body_msg_id ` set (bodies w')"
    if "indexed idx bodies w" "r \<in> set (idx w')" for r
    using that assms(1) sub by (cases "r \<in> set (idx w)") (auto simp: indexed_def settling_def)
  show "own = {} \<Longrightarrow> preserving (indexed idx bodies) w w'"
    using row unfolding preserving_def indexed_def [of _ _ w'] by simp
  show "own \<subseteq> {m} \<Longrightarrow> preserving (settled_for idx bodies m) w w'"
    using row sub unfolding preserving_def settled_for_def indexed_def [of _ _ w'] by fast
qed

lemma settling_rel:
  assumes "world_rel (settling idx bodies own) n" "world_rel (both_grown idx bodies) n"
  shows "own = {} \<Longrightarrow> world_rel (preserving (indexed idx bodies)) n"
    "own \<subseteq> {m} \<Longrightarrow> world_rel (preserving (settled_for idx bodies m)) n"
proof -
  have both: "settling idx bodies own w w' \<and> both_grown idx bodies w w'" if "n w = (r, w')" for w r w'
    using world_relD [OF assms(1) that] world_relD [OF assms(2) that] by simp
  show "own = {} \<Longrightarrow> world_rel (preserving (indexed idx bodies)) n"
    unfolding world_rel_def by (intro allI impI, drule both, elim conjE) (rule settling_preserves(1))
  show "own \<subseteq> {m} \<Longrightarrow> world_rel (preserving (settled_for idx bodies m)) n"
    unfolding world_rel_def by (intro allI impI, drule both, elim conjE) (rule settling_preserves(2))
qed

text \<open>The insertion of the body keeps the invariant, whatever its outcome.\<close>

lemma body_insert_indexed:
  assumes st: "stores idx lid bodies env" and others: "others_settle idx bodies env"
    and ins: "body_insert (msg_mongo env) b w = (r, w')" and r: "r \<noteq> Hang" and w: "indexed idx bodies w"
  shows "indexed idx bodies w'"
proof -
  note o = others_settleD [OF others]
  note g = apart_mongo [OF storesD(4) [OF st]] collection_grown [OF storesD(3) [OF st]]
  have "world_rel (preserving (indexed idx bodies)) (get_connection (msg_mongo env))"
    by (rule world_rel_get_connection [OF settling_rel(1) [OF o(5) world_rel_both [OF g(1,5)]]])
       simp_all
  moreover have "world_rel (preserving (indexed idx bodies)) (on_outside (insert_one (msg_mongo env) b))"
    by (rule settling_rel(1) [OF o(6) mongo_both(2) [OF st]]) simp
  ultimately have "world_rel (preserving (indexed idx bodies)) (body_insert_attempt (msg_mongo env) b)"
    unfolding body_insert_attempt_def by (intro world_rel_bind) simp_all
  then have "keeps (indexed idx bodies) (body_insert_attempt (msg_mongo env) b)"
    by (auto simp: keeps_def world_rel_def preserving_def)
  moreover have "indexed idx bodies (mongo_pause (msg_mongo env) d v)" if "indexed idx bodies v" for d v
    using settling_preserves(1) [OF o(7) mongo_both(4) [OF st]] that by (simp add: preserving_def)
  ultimately have "retried (body_insert_attempt (msg_mongo env) b) (mongo_pause (msg_mongo env)) (indexed idx bodies)"
    by unfold_locales
  then have "keeps (indexed idx bodies) (body_insert (msg_mongo env) b)"
    unfolding body_insert_def by (rule retried.retry_caught_keeps) (rule keeps_ret)
  then show ?thesis using w ins r by (rule keepsD)
qed

lemma index_insert_settled:
  assumes st: "stores idx lid bodies env" and others: "others_settle idx bodies env"
  shows "world_rel (preserving (settled_for idx bodies (idx_msg_id ix)))
           (index_insert_body (msg_db env) (msg_clock env) ix c)"
proof -
  note o = others_settleD [OF others]
  have upd: "world_rel (both_grown idx bodies) (execute_update (msg_db env) c insert_index_sql
          [SString (idx_msg_id ix), SU64 (idx_sender ix), SU64 (idx_receiver ix),
           SInt (idx_session_type ix), SString (idx_seq_id ix), SU64 t])" for t
  proof (rule world_rel_both [OF _ apart_sql(3) [OF storesD(4) [OF st]]])
    show "world_rel (grown idx) (execute_update (msg_db env) c insert_index_sql
          [SString (idx_msg_id ix), SU64 (idx_sender ix), SU64 (idx_receiver ix),
           SInt (idx_session_type ix), SString (idx_seq_id ix), SU64 t])"
      unfolding world_rel_def using index_update [OF storesD(1) [OF st]] by blast
  qed
  show ?thesis
    unfolding index_insert_body_def query_def
    by (intro world_rel_bind world_rel_of_sum settling_rel(2) [OF o(1) sql_both(1) [OF st]]
          settling_rel(2) [OF o(2) sql_both(2) [OF st]] settling_rel(2) [OF o(4) sql_both(3) [OF st]]
          settling_rel(2) [OF o(3) upd]) simp_all
qed

text \<open>
  C9. A row of the index never points to a body that is not there: saving writes the body
  first and the row only when the body is known to be written, so the invariant holds after
  every save, whatever failed in it and whatever it returned.
\<close>

theorem save_keeps_index_settled:
  assumes "stores idx lid bodies env" "others_settle idx bodies env"
    and "save_message env msg s = (r, s')" "r \<noteq> Hang" "indexed idx bodies (world s)"
  shows "indexed idx bodies (world s')"
proof -
  obtain q w1 where b: "body_insert (msg_mongo env) (body_of msg) (world s) = (q, w1)" by fastforce
  let ?s1 = "s\<lparr>world := w1\<rparr>"
  show ?thesis
  proof (cases "q = Ret True")
    case False
    then have "s' = ?s1" "q \<noteq> Hang"
      using assms(3,4) b
      by (auto simp: save_message_def bind_comp_def on_world_def ret_def split: outcome.splits if_splits)
    then show ?thesis using body_insert_indexed [OF assms(1,2) b _ assms(5)] by simp
  next
    case True
    have "settled_for idx bodies (msg_id msg) w1"
      using body_insert_indexed [OF assms(1,2) b _ assms(5)] body_insert_both [OF assms(1) b] True
      by (force simp: settled_for_def body_of_def)
    moreover obtain t s2 where i: "index_insert (msg_db env) (msg_clock env) (index_of msg) ?s1 = (t, s2)"
      by fastforce
    moreover have "s' = s2"
      using assms(3) b True i
      by (auto simp: save_message_def bind_comp_def on_world_def ret_def split: outcome.splits if_splits)
    moreover have pause: "preserving (settled_for idx bodies m) w (pause_for (msg_db env) 500 w)" for w m
      by (rule settling_preserves(2) [OF others_settleD(8) [OF assms(2)] sql_both(4) [OF assms(1)]]) simp
    have "preserving (settled_for idx bodies (idx_msg_id (index_of msg))) (world ?s1) (world s2)"
      using caught_with_db_rel [OF index_insert_settled [OF assms(1,2)] preserving_refl_trans pause
          i [unfolded index_insert_def]] by blast
    ultimately show ?thesis
      by (simp add: preserving_def settled_for_def index_of_def)
  qed
qed

subsection \<open>A saved message is pulled\<close>

text \<open>
  When the first attempts on both stores succeed, a pull returns the documents, at a moment
  of the second, with the identifiers of the rows at a moment of the first.
\<close>

lemma first_fetch_Ret:
  assumes "guarded (fetch_ids_body db uid q limit) \<lparr>pool = pool s, world = (world s, [])\<rparr> = (Ret (), t)"
  obtains c where "fetch_ids_body db uid q limit c (world s, []) = (Ret (), (fst (world t), snd (world t)))"
  using assms by (auto simp: guarded_cases split: prod.splits outcome.splits option.splits)

lemma pull_first_attempt:
  assumes st: "stores idx lid bodies env" and l: "parse_last_id q = Inr l"
    and sql: "guarded (fetch_ids_body (msg_db env) uid q limit)
                \<lparr>pool = pool s, world = (world s, [])\<rparr> = (Ret (), t)"
    and mongo: "batch_get_attempt (msg_mongo env) (snd (world t)) (fst (world t), []) = (Ret (), u)"
  shows "both_grown idx bodies (world s) (fst (world t))"
    and "\<exists>ti. between idx (world s) ti (fst (world t)) \<and> snd (world t) = ids_after ti uid l limit"
    and "snd (world t) = [] \<Longrightarrow> fst (pull_offline env uninit uid q limit s) = Ret []"
    and "snd (world t) \<noteq> [] \<Longrightarrow>
           fst (pull_offline env uninit uid q limit s) = Ret (map (chat_of uninit) (snd u))"
    and "\<exists>tb. prefix (bodies (fst (world t))) tb \<and>
           set (snd u) = {b \<in> set tb. body_msg_id b \<in> set (snd (world t))}"
proof -
  obtain c where f: "fetch_ids_body (msg_db env) uid q limit c (world s, []) =
      (Ret (), (fst (world t), snd (world t)))"
    using first_fetch_Ret [OF sql] by blast
  show "both_grown idx bodies (world s) (fst (world t))" using fetch_ids_body_any [OF st l f] by blast
  show "\<exists>ti. between idx (world s) ti (fst (world t)) \<and> snd (world t) = ids_after ti uid l limit"
    using fetch_ids_body_Ret [OF storesD(1) [OF st] l f] by simp
  have "with_db (lift_mysql (msg_db env)) (fetch_ids_body (msg_db env) uid q limit)
      \<lparr>pool = pool s, world = (world s, [])\<rparr> = (Ret (), t)"
    unfolding with_db_def by (rule execute_with_retry_Ret_first) (rule sql)
  then have fetch: "fetch_offline_ids (msg_db env) uid q limit s =
      (Ret (snd (world t)), \<lparr>pool = pool t, world = fst (world t)\<rparr>)"
    by (simp add: fetch_offline_ids_def with_local_def with_db_void_eq catch_all_def bind_comp_def ret_def)
  then show "snd (world t) = [] \<Longrightarrow> fst (pull_offline env uninit uid q limit s) = Ret []"
    by (simp add: pull_offline_def bind_comp_def ret_def)
  have "batch_get (msg_mongo env) (snd (world t)) (fst (world t)) = (Ret (snd u), fst u)"
    if "snd (world t) \<noteq> []"
    using execute_with_retry_Ret_first [where func = "batch_get_attempt (msg_mongo env) (snd (world t))",
        OF mongo] that
    by (simp add: batch_get_def execute_with_retry_void_eq catch_all_def split: prod.split)
  then show "snd (world t) \<noteq> [] \<Longrightarrow>
      fst (pull_offline env uninit uid q limit s) = Ret (map (chat_of uninit) (snd u))"
    using fetch by (simp add: pull_offline_def bind_comp_def on_world_def ret_def)
  obtain w1 cur w2 where g: "get_connection (msg_mongo env) (fst (world t)) = (Ret (), w1)"
    and find: "on_outside (find_in (msg_mongo env) (snd (world t))) w1 = (Ret cur, w2)"
    and push: "push_rows read_body (docs cur) (docs_end cur) (w2, []) = (Ret (), u)"
    using mongo by (auto simp: batch_get_attempt_def bind_comp_Ret lift_world_def split: prod.splits)
  have w1: "prefix (bodies (fst (world t))) (bodies w1)"
    using world_relD [OF mongo_both(1) [OF st] g] by (simp add: both_grown_def grown_prefix)
  obtain vs where vs: "docs_end cur = None" "u = (w2, vs)"
    "list_all2 (\<lambda>d b. read_body d = Inr b) (docs cur) vs"
    using push_rows_Ret [OF push] by auto
  obtain tb bs k where tb: "between bodies w1 tb w2"
    and bs: "set bs = {b \<in> set tb. body_msg_id b \<in> set (snd (world t))}"
    "list_all2 (\<lambda>d b. read_body d = Inr b) (docs cur) (take k bs)" "length bs \<le> k"
    using collection_found [OF storesD(3) [OF st] find] vs(1) by blast
  have "vs = bs" using read_all2_unique [OF bs(2) vs(3)] bs(3) by simp
  moreover have "prefix (bodies (fst (world t))) tb"
    using w1 tb by (auto simp: between_def intro: prefix_order.order_trans)
  ultimately show "\<exists>tb. prefix (bodies (fst (world t))) tb \<and>
      set (snd u) = {b \<in> set tb. body_msg_id b \<in> set (snd (world t))}"
    using vs(2) bs(1) by auto
qed

lemma fetch_indexed:
  assumes st: "stores idx lid bodies env" and others: "others_settle idx bodies env"
    and run: "fetch_ids_body (msg_db env) uid q limit c (w, acc) = (Ret (), (w', acc'))"
    and w: "indexed idx bodies w"
  shows "indexed idx bodies w'"
proof -
  obtain l where l: "parse_last_id q = Inr l"
    using run by (cases "parse_last_id q") (auto simp: fetch_ids_body_def bind_comp_def throw_def)
  obtain w1 rs w2 where p: "prepare (msg_db env) c fetch_ids_sql w = (Ret (), w1)"
    and e: "execute_query (msg_db env) c fetch_ids_sql [SU64 uid, SU64 l, SInt limit] w1 = (Ret rs, w2)"
    and push: "push_rows (\<lambda>r. row_string r ''msg_id'') (rows rs) (rows_end rs) (w2, acc) =
        (Ret (), (w', acc'))"
    using run l
    by (auto simp: fetch_ids_body_def query_def bind_comp_Ret lift_mysql_def lift_world_def
        split: prod.splits)
  note o = others_settleD [OF others]
  have "indexed idx bodies w1"
    using world_relD [OF settling_rel(1) [OF o(1) sql_both(1) [OF st]] p] w by (simp add: preserving_def)
  then have "indexed idx bodies w2"
    using world_relD [OF settling_rel(1) [OF o(2) sql_both(2) [OF st]] e] by (simp add: preserving_def)
  then show ?thesis using push_rows_Ret [OF push] by auto
qed

text \<open>
  C26. With the invariant a pull misses nothing: when the first attempts on the stores succeed,
  the messages returned are, as identifiers, exactly the first \<open>limit\<close> rows of the user
  after the last one the user has, in the table at a moment of the call.
\<close>

theorem pull_misses_nothing:
  assumes "stores idx lid bodies env" "others_settle idx bodies env"
    and "parse_last_id begin_seq = Inr l" "indexed idx bodies (world s)"
    and "guarded (fetch_ids_body (msg_db env) uid begin_seq limit)
           \<lparr>pool = pool s, world = (world s, [])\<rparr> = (Ret (), t)"
    and "batch_get_attempt (msg_mongo env) (snd (world t)) (fst (world t), []) = (Ret (), u)"
  shows "\<exists>ti msgs s'. between idx (world s) ti (fst (world t)) \<and>
           pull_offline env uninit uid begin_seq limit s = (Ret msgs, s') \<and>
           msg_id ` set msgs = set (ids_after ti uid l limit)"
proof -
  note p = pull_first_attempt [OF assms(1,3,5,6)]
  obtain ti where ti: "between idx (world s) ti (fst (world t))" "snd (world t) = ids_after ti uid l limit"
    using p(2) by blast
  obtain tb where tb: "prefix (bodies (fst (world t))) tb"
    "set (snd u) = {b \<in> set tb. body_msg_id b \<in> set (snd (world t))}"
    using p(5) by blast
  obtain c where "fetch_ids_body (msg_db env) uid begin_seq limit c (world s, []) =
      (Ret (), (fst (world t), snd (world t)))"
    using first_fetch_Ret [OF assms(5)] by blast
  then have settled: "indexed idx bodies (fst (world t))"
    by (rule fetch_indexed [OF assms(1,2) _ assms(4)])
  have "set (snd (world t)) \<subseteq> (\<lambda>r. idx_msg_id (snd r)) ` set ti"
    unfolding ti(2) by (auto simp: ids_after_def dest!: in_set_takeD)
  also have "\<dots> \<subseteq> body_msg_id ` set tb"
    using settled set_mono_prefix [OF tb(1)] ti(1) unfolding indexed_def between_def
    by (blast dest: set_mono_prefix)
  finally have "body_msg_id ` {b \<in> set tb. body_msg_id b \<in> set (snd (world t))} = set (snd (world t))"
    by auto
  then have "msg_id ` set (map (chat_of uninit) (snd u)) = set (snd (world t))"
    unfolding set_map image_image tb(2) by (simp add: chat_of_def)
  then have "\<exists>msgs. fst (pull_offline env uninit uid begin_seq limit s) = Ret msgs \<and>
      msg_id ` set msgs = set (snd (world t))"
    using p(3,4) [of uninit] by (cases "snd (world t) = []") auto
  then show ?thesis using ti by (metis prod.collapse)
qed

text \<open>The rows of a user; a limit that is no smaller than their number takes all of them.\<close>

definition rows_of :: "u64 \<Rightarrow> (u64 \<times> msg_index) list \<Rightarrow> (u64 \<times> msg_index) list" where
  "rows_of uid t = filter (\<lambda>r. idx_receiver (snd r) = uid) t"

lemma rows_of_prefix: "prefix t t' \<Longrightarrow> length (rows_of uid t) \<le> length (rows_of uid t')"
  by (auto simp: rows_of_def prefix_def)

lemma ids_after_all:
  assumes "length (rows_of uid t) \<le> nat limit" "(i, ix) \<in> set t" "idx_receiver ix = uid" "l < i"
  shows "idx_msg_id ix \<in> set (ids_after t uid l limit)"
proof -
  let ?P = "\<lambda>r. idx_receiver (snd r) = uid \<and> l < fst r"
  have "length (filter ?P (sort_key fst t)) = length (filter ?P t)" by (simp add: filter_sort)
  also have "\<dots> \<le> length (rows_of uid t)"
    unfolding rows_of_def by (induction t) auto
  finally have "take (nat limit) (map (\<lambda>r. idx_msg_id (snd r)) (filter ?P (sort_key fst t))) =
      map (\<lambda>r. idx_msg_id (snd r)) (filter ?P (sort_key fst t))"
    using assms(1) by simp
  then show ?thesis using assms(2-4) by (force simp: ids_after_def)
qed

lemma fetched_ids_rows:
  assumes "stores idx lid bodies env"
    and "guarded (fetch_ids_body (msg_db env) uid [] limit)
           \<lparr>pool = pool (s2 :: 'v mongo_world app), world = (world s2, [])\<rparr> = (Ret (), t)"
    and "batch_get_attempt (msg_mongo env) (snd (world t)) (fst (world t), []) = (Ret (), u)"
    and "i \<in> set (snd (world t))"
  shows "\<exists>r \<in> set (rows_of uid (idx (fst (world t)))). i = idx_msg_id (snd r)"
proof -
  have l: "parse_last_id [] = Inr 0" by (simp add: parse_last_id_def find_last_idx_def)
  obtain ti where ti: "between idx (world s2) ti (fst (world t))" "snd (world t) = ids_after ti uid 0 limit"
    using pull_first_attempt(2) [OF assms(1) l assms(2,3)] by blast
  then obtain r where "r \<in> set ti" "idx_receiver (snd r) = uid" "i = idx_msg_id (snd r)"
    using assms(4) by (auto simp: ids_after_def dest!: in_set_takeD)
  moreover from this(1) have "r \<in> set (idx (fst (world t)))"
    using ti(1) by (auto simp: between_def dest: set_mono_prefix)
  ultimately show ?thesis by (intro bexI [of _ r]) (simp_all add: rows_of_def)
qed

lemma pull_saved:
  assumes st: "stores idx lid bodies env" and save: "save_message env msg s = (Ret q, s1)" "q \<noteq> []"
    and later: "both_grown idx bodies (world s1) (world s2)"
    and sql: "guarded (fetch_ids_body (msg_db env) (receiver_id msg) [] limit)
                \<lparr>pool = pool s2, world = (world s2, [])\<rparr> = (Ret (), t)"
    and limit: "length (rows_of (receiver_id msg) (idx (fst (world t)))) \<le> nat limit"
    and mongo: "batch_get_attempt (msg_mongo env) (snd (world t)) (fst (world t), []) = (Ret (), u)"
  shows "\<exists>msgs s3 tb. pull_offline env uninit (receiver_id msg) [] limit s2 = (Ret msgs, s3) \<and>
           prefix (bodies (world s2)) tb \<and> body_of msg \<in> set tb \<and>
           set msgs = chat_of uninit ` {b \<in> set tb. body_msg_id b \<in> set (snd (world t))} \<and>
           msg_id msg \<in> set (snd (world t))"
proof -
  from save_message_both [OF st save] obtain i ix where
    i: "0 < i" "(i, ix) \<in> set (idx (world s1))" "idx_msg_id ix = msg_id msg"
      "idx_receiver ix = receiver_id msg"
    and b: "body_of msg \<in> set (bodies (world s1))"
    by blast
  have l: "parse_last_id [] = Inr 0" by (simp add: parse_last_id_def find_last_idx_def)
  note p = pull_first_attempt [OF st l sql mongo]
  obtain ti where ti: "between idx (world s2) ti (fst (world t))"
    "snd (world t) = ids_after ti (receiver_id msg) 0 limit"
    using p(2) by blast
  have "(i, ix) \<in> set ti"
    using i(2) later ti(1) by (auto simp: both_grown_def between_def dest: grown_set set_mono_prefix)
  moreover have "length (rows_of (receiver_id msg) ti) \<le> nat limit"
    using ti(1) limit rows_of_prefix [of ti "idx (fst (world t))" "receiver_id msg"]
    by (simp add: between_def)
  ultimately have ids: "msg_id msg \<in> set (snd (world t))"
    using ids_after_all [of "receiver_id msg" ti limit i ix 0] i ti(2) by simp
  obtain tb where tb: "prefix (bodies (fst (world t))) tb"
    "set (snd u) = {b \<in> set tb. body_msg_id b \<in> set (snd (world t))}"
    using p(5) by blast
  have "prefix (bodies (world s2)) tb"
    using p(1) tb(1) by (auto simp: both_grown_def grown_prefix intro: prefix_order.order_trans)
  moreover from this have "body_of msg \<in> set tb"
    using b later by (auto simp: both_grown_def dest: grown_set set_mono_prefix)
  moreover have "snd (world t) \<noteq> []" using ids by auto
  then obtain s3 where "pull_offline env uninit (receiver_id msg) [] limit s2 =
      (Ret (map (chat_of uninit) (snd u)), s3)"
    using p(4) by (metis prod.collapse)
  moreover have "set (map (chat_of uninit) (snd u)) =
      chat_of uninit ` {b \<in> set tb. body_msg_id b \<in> set (snd (world t))}"
    by (simp add: tb(2))
  ultimately show ?thesis using ids by blast
qed

text \<open>
  C7. Round trip: a message whose saving returned a sequence number comes back, at any later
  time, when its receiver pulls from the start with a limit not smaller than the number of
  rows it has in the index and the first attempts on the two stores succeed: with its
  identifier, text and kinds. Each message that comes with it has the identifier of a row of
  the receiver. What does not come back is who sent it: sender and receiver are what the memory
  held. (A server that refuses the number given for \<open>created_at\<close> saves no row, and then no
  saving returns a sequence number.)
\<close>

theorem save_then_pull:
  assumes "stores idx lid bodies env" "save_message env msg s = (Ret q, s1)" "q \<noteq> []"
    and "both_grown idx bodies (world s1) (world s2)"
    and "guarded (fetch_ids_body (msg_db env) (receiver_id msg) [] limit)
           \<lparr>pool = pool s2, world = (world s2, [])\<rparr> = (Ret (), t)"
    and "length (rows_of (receiver_id msg) (idx (fst (world t)))) \<le> nat limit"
    and "batch_get_attempt (msg_mongo env) (snd (world t)) (fst (world t), []) = (Ret (), u)"
  shows "\<exists>msgs s3. pull_offline env uninit (receiver_id msg) [] limit s2 = (Ret msgs, s3) \<and>
           uninit\<lparr>msg_id := msg_id msg, content := content msg, msg_type := msg_type msg,
             session_type := session_type msg, seq_id := []\<rparr> \<in> set msgs \<and>
           (\<forall>m \<in> set msgs. \<exists>r \<in> set (rows_of (receiver_id msg) (idx (fst (world t)))).
              msg_id m = idx_msg_id (snd r))"
proof -
  have m: "chat_of uninit (body_of msg) = uninit\<lparr>msg_id := msg_id msg, content := content msg,
      msg_type := msg_type msg, session_type := session_type msg, seq_id := []\<rparr>"
    "body_msg_id (body_of msg) = msg_id msg"
    by (simp_all add: chat_of_def body_of_def)
  obtain msgs s3 tb where p: "pull_offline env uninit (receiver_id msg) [] limit s2 = (Ret msgs, s3)"
    "body_of msg \<in> set tb"
    "set msgs = chat_of uninit ` {b \<in> set tb. body_msg_id b \<in> set (snd (world t))}"
    "msg_id msg \<in> set (snd (world t))"
    using pull_saved [OF assms] by blast
  have "body_of msg \<in> {b \<in> set tb. body_msg_id b \<in> set (snd (world t))}"
    using p(2,4) m(2) by simp
  then have "chat_of uninit (body_of msg) \<in> set msgs" unfolding p(3) by (rule imageI)
  moreover have "\<exists>r \<in> set (rows_of (receiver_id msg) (idx (fst (world t)))). i = idx_msg_id (snd r)"
    if "i \<in> set (snd (world t))" for i
    by (rule fetched_ids_rows [OF assms(1,5,7) that])
  then have "\<forall>m \<in> set msgs. \<exists>r \<in> set (rows_of (receiver_id msg) (idx (fst (world t)))).
      msg_id m = idx_msg_id (snd r)"
    unfolding p(3) by (auto simp: chat_of_def)
  ultimately show ?thesis using p(1) m(1) by auto
qed

text \<open>
  The identifier of a message is chosen by its sender and the bodies are kept by nothing
  else: whoever saves a message to itself under the identifier of someone else's message
  pulls that message's text.
\<close>

theorem foreign_body_pulled:
  assumes "stores idx lid bodies env" "save_message env private s0 = (Ret q0, s1)" "q0 \<noteq> []"
    and "both_grown idx bodies (world s1) (world s)" "msg_id msg = msg_id private"
    and "save_message env msg s = (Ret q, s2)" "q \<noteq> []"
    and "both_grown idx bodies (world s2) (world s3)"
    and "guarded (fetch_ids_body (msg_db env) (receiver_id msg) [] limit)
           \<lparr>pool = pool s3, world = (world s3, [])\<rparr> = (Ret (), t)"
    and "length (rows_of (receiver_id msg) (idx (fst (world t)))) \<le> nat limit"
    and "batch_get_attempt (msg_mongo env) (snd (world t)) (fst (world t), []) = (Ret (), u)"
  shows "\<exists>msgs s4. pull_offline env uninit (receiver_id msg) [] limit s3 = (Ret msgs, s4) \<and>
           content private \<in> content ` set msgs"
proof -
  have "body_of private \<in> set (bodies (world s1))"
    using save_message_both [OF assms(1-3)] by blast
  moreover have "both_grown idx bodies (world s1) (world s3)"
    using save_message_both [OF assms(1,6,7)] assms(4,8) both_grown_step by metis
  ultimately have kept: "body_of private \<in> set (bodies (world s3))"
    by (auto simp: both_grown_def dest: grown_set)
  obtain msgs s4 tb where p: "pull_offline env uninit (receiver_id msg) [] limit s3 = (Ret msgs, s4)"
    "prefix (bodies (world s3)) tb"
    "set msgs = chat_of uninit ` {b \<in> set tb. body_msg_id b \<in> set (snd (world t))}"
    "msg_id msg \<in> set (snd (world t))"
    using pull_saved [OF assms(1,6-11)] by blast
  have "body_of private \<in> {b \<in> set tb. body_msg_id b \<in> set (snd (world t))}"
    using kept set_mono_prefix [OF p(2)] assms(5) p(4) by (auto simp: body_of_def)
  then have "chat_of uninit (body_of private) \<in> set msgs" unfolding p(3) by (rule imageI)
  moreover have "content (chat_of uninit (body_of private)) = content private"
    by (simp add: body_of_def chat_of_def)
  ultimately show ?thesis using p(1) by (metis imageI)
qed

subsection \<open>The mailbox in memory\<close>

abbreviation mb_docs :: "mbox mongo_world \<Rightarrow> msg_body list" where
  "mb_docs w \<equiv> mb_bodies (outside w)"

lemma read_body_doc: "read_body (body_doc b) = Inr b"
  by (simp add: read_body_def body_doc_def column_def)

lemma mb_stores: "stores mb_idx mb_lid mb_docs mb_env"
  unfolding stores_def
proof (intro conjI)
  show "index_table mb_idx mb_lid (msg_db mb_env)" using mb_db_index by simp
  show "body_collection mb_docs (msg_mongo mb_env)"
    unfolding body_collection_def
  proof (intro conjI allI impI)
    fix ids w cur w'
    assume "on_outside (find_in (msg_mongo mb_env) ids) w = (Ret cur, w')"
    then have cur: "docs cur = map body_doc (filter (\<lambda>b. body_msg_id b \<in> set ids) (mb_docs w))"
      "mb_docs w' = mb_docs w"
      by (auto simp: mb_mongo_def on_outside_def)
    have "list_all2 (\<lambda>d b. read_body d = Inr b) (map body_doc bs) bs" for bs
      by (induction bs) (simp_all add: read_body_doc)
    then show "\<exists>t bs k. between mb_docs w t w' \<and>
        mset bs = mset (filter (\<lambda>b. body_msg_id b \<in> set ids) t) \<and>
        list_all2 (\<lambda>d b. read_body d = Inr b) (docs cur) (take k bs) \<and>
        (docs_end cur = None \<longrightarrow> length bs \<le> k)"
      using cur
      by (intro exI [of _ "mb_docs w"] exI [of _ "filter (\<lambda>b. body_msg_id b \<in> set ids) (mb_docs w)"]
          exI [of _ "length (mb_docs w)"]) (simp add: between_def)
  qed (auto simp: world_rel_def grown_def mb_mongo_def on_outside_def ret_def mongo_pause_def
      split: prod.splits)
  show "apart mb_idx mb_docs mb_env"
    by (auto simp: apart_def world_rel_def grown_def mb_db_def mb_mongo_def on_outside_def ret_def
        mongo_pause_def mb_insert_def mb_env_def clock_keeps_def Let_def
        split: prod.splits if_splits list.splits sql_val.splits)
qed simp

text \<open>The state after a save, and what was in memory where a message is assembled.\<close>

definition after_save :: "chat_msg \<Rightarrow> mbox mongo_world app \<Rightarrow> mbox mongo_world app" where
  "after_save msg s = snd (save_message mb_env msg s)"

definition stale :: chat_msg where
  "stale = hello\<lparr>msg_id := ''old'', sender_id := 77, receiver_id := 78\<rparr>"

definition probe :: chat_msg where
  "probe = hello\<lparr>sender_id := 9, receiver_id := 9, content := ''x''\<rparr>"

definition first_fetch ::
  "u64 \<Rightarrow> mbox mongo_world app \<Rightarrow> unit outcome \<times> (mbox mongo_world \<times> string list) app" where
  "first_fetch uid s = guarded (fetch_ids_body mb_db uid [] 10) \<lparr>pool = pool s, world = (world s, [])\<rparr>"

definition first_batch ::
  "u64 \<Rightarrow> mbox mongo_world app \<Rightarrow> unit outcome \<times> mbox mongo_world \<times> msg_body list" where
  "first_batch uid s =
     (case world (snd (first_fetch uid s)) of (w, ids) \<Rightarrow> batch_get_attempt mb_mongo ids (w, []))"

lemma first_attempts:
  assumes "fst (first_fetch uid s) = Ret ()" "fst (first_batch uid s) = Ret ()"
  shows "guarded (fetch_ids_body (msg_db mb_env) uid [] 10) \<lparr>pool = pool s, world = (world s, [])\<rparr> =
           (Ret (), snd (first_fetch uid s))"
    "batch_get_attempt (msg_mongo mb_env) (snd (world (snd (first_fetch uid s))))
       (fst (world (snd (first_fetch uid s))), []) = (Ret (), snd (first_batch uid s))"
  using assms
  by (simp_all add: first_fetch_def first_batch_def split: prod.splits) (metis prod.collapse)+

lemma saved_hello:
  "save_message mb_env hello (mb_start 0 []) = (Ret (seq_text 7 1), after_save hello (mb_start 0 []))"
proof -
  have "fst (save_message mb_env hello (mb_start 0 [])) = Ret (seq_text 7 1)" by code_simp
  then show ?thesis unfolding after_save_def by (metis prod.collapse)
qed

lemma fetched_hello:
  "fst (first_fetch 2 (after_save hello (mb_start 0 []))) = Ret ()"
  "fst (first_batch 2 (after_save hello (mb_start 0 []))) = Ret ()"
  by code_simp+

lemma seq_text_nonempty: "seq_text now n \<noteq> []"
  by (simp add: seq_text_def)

lemma parse_no_seq: "parse_last_id [] = Inr 0"
  by (simp add: parse_last_id_def find_last_idx_def)

theorem save_then_pull_witness:
  "\<exists>msgs s3. pull_offline mb_env stale 2 [] 10 (after_save hello (mb_start 0 [])) = (Ret msgs, s3) \<and>
     stale\<lparr>msg_id := ''m1'', content := ''hello'', msg_type := 1, session_type := 1\<rparr> \<in> set msgs"
proof -
  let ?s = "after_save hello (mb_start 0 [])"
  have few: "length (rows_of 2 (mb_idx (fst (world (snd (first_fetch 2 ?s)))))) \<le> nat 10"
    by code_simp
  note a = first_attempts [OF fetched_hello]
  have h: "receiver_id hello = 2" by (simp add: hello_def)
  from save_then_pull [OF mb_stores saved_hello seq_text_nonempty both_grown_refl(2)
      a(1) [folded h] few [folded h] a(2) [folded h], of stale]
  show ?thesis by (auto simp: hello_def stale_def)
qed

theorem foreign_body_pulled_witness:
  "\<exists>msgs s4. pull_offline mb_env stale 9 [] 10
       (after_save probe (after_save hello (mb_start 0 []))) = (Ret msgs, s4) \<and>
     ''hello'' \<in> content ` set msgs"
proof -
  let ?s1 = "after_save hello (mb_start 0 [])"
  let ?s2 = "after_save probe ?s1"
  have "fst (save_message mb_env probe ?s1) = Ret (seq_text 7 2)" by code_simp
  then have s: "save_message mb_env probe ?s1 = (Ret (seq_text 7 2), ?s2)"
    unfolding after_save_def by (metis prod.collapse)
  have few: "length (rows_of 9 (mb_idx (fst (world (snd (first_fetch 9 ?s2)))))) \<le> nat 10"
    by code_simp
  have "fst (first_fetch 9 ?s2) = Ret ()" "fst (first_batch 9 ?s2) = Ret ()" by code_simp+
  note a = first_attempts [OF this]
  have h: "receiver_id probe = 9" "msg_id probe = msg_id hello" by (simp_all add: probe_def)
  from foreign_body_pulled [OF mb_stores saved_hello seq_text_nonempty both_grown_refl(2) h(2) s
      seq_text_nonempty both_grown_refl(2) a(1) [folded h(1)] few [folded h(1)] a(2) [folded h(1)],
      of stale]
  show ?thesis by (simp add: hello_def h(1))
qed

theorem pull_offline_sound_witness:
  "\<exists>s' i ix. pull_offline mb_env stale 2 [] 10 (after_save hello (mb_start 0 [])) =
       (Ret [chat_of stale (body_of hello)], s') \<and>
     (i, ix) \<in> set (mb_idx (world s')) \<and> idx_receiver ix = 2 \<and> idx_msg_id ix = ''m1''"
proof -
  let ?s = "after_save hello (mb_start 0 [])"
  have "fst (pull_offline mb_env stale 2 [] 10 ?s) = Ret [chat_of stale (body_of hello)]" by code_simp
  then obtain s' where s': "pull_offline mb_env stale 2 [] 10 ?s =
      (Ret [chat_of stale (body_of hello)], s')"
    by (metis prod.collapse)
  from pull_offline_sound [OF mb_stores parse_no_seq s', of "chat_of stale (body_of hello)"] s'
  obtain i ix where "(i, ix) \<in> set (mb_idx (world s'))" "idx_receiver ix = 2"
    "idx_msg_id ix = msg_id (chat_of stale (body_of hello))"
    by auto
  moreover have "msg_id (chat_of stale (body_of hello)) = ''m1''"
    by (simp add: chat_of_def body_of_def hello_def)
  ultimately show ?thesis using s' by auto
qed

lemma mb_others_settle: "others_settle mb_idx mb_docs mb_env"
  by (auto simp: others_settle_def world_rel_def settling_def mongo_pause_def mb_mongo_def mb_db_def
      mb_env_def read_clock_def ret_def on_outside_def mb_insert_def Let_def
      split: if_splits prod.splits)

lemma mb_start_indexed: "indexed mb_idx mb_docs (world (mb_start n []))"
  by (simp add: indexed_def mb_start_def)

text \<open>Another process that saves a message of its own whenever a statement is prepared.\<close>

definition add_other :: "mbox mongo_world \<Rightarrow> mbox mongo_world" where
  "add_other w =
     (let n = length (mb_idx w); m = outside w
      in w\<lparr>outside := m\<lparr>
           mb_rows := mb_rows m @
             [(word_of_nat (Suc n), default_index\<lparr>idx_msg_id := ''other'',
                idx_receiver := word_of_nat (1000 + n)\<rparr>)],
           mb_bodies := mb_bodies m @ [body_of (hello\<lparr>msg_id := ''other''\<rparr>)]\<rparr>\<rparr>)"

definition busy_mb :: "mbox msg_env" where
  "busy_mb = mb_env\<lparr>msg_db := mb_db\<lparr>prepare := (\<lambda>c stmt w. (Ret (), add_other w))\<rparr>\<rparr>"

lemma busy_mb_simps [simp]:
  "msg_db busy_mb = mb_db\<lparr>prepare := (\<lambda>c stmt w. (Ret (), add_other w))\<rparr>"
  "msg_mongo busy_mb = mb_mongo" "msg_clock busy_mb = msg_clock mb_env"
  by (simp_all add: busy_mb_def)

lemma add_other_grown: "grown mb_idx w (add_other w)" "grown mb_docs w (add_other w)"
  "mb_lid (add_other w) c = mb_lid w c"
  by (simp_all add: add_other_def Let_def grown_def)

lemma busy_mb_stores: "stores mb_idx mb_lid mb_docs busy_mb"
proof -
  have "index_table mb_idx mb_lid (msg_db busy_mb)"
    using mb_db_index by (simp add: index_table_def add_other_grown)
  moreover have "apart mb_idx mb_docs busy_mb"
    using storesD(4) [OF mb_stores] by (simp add: apart_def world_rel_def add_other_grown)
  ultimately show ?thesis
    using storesD(2,3) [OF mb_stores] by (simp add: stores_def)
qed

lemma busy_mb_settles: "others_settle mb_idx mb_docs busy_mb"
proof -
  have "settling mb_idx mb_docs {} w (add_other w)" for w
    by (auto simp: settling_def add_other_def Let_def body_of_def)
  then show ?thesis using mb_others_settle by (simp add: others_settle_def world_rel_def)
qed

theorem save_keeps_index_settled_witness:
  "\<exists>s'. save_message busy_mb hello (mb_start 0 []) = (Ret (seq_text 7 2), s') \<and>
        indexed mb_idx mb_docs (world s')"
proof -
  have "fst (save_message busy_mb hello (mb_start 0 [])) = Ret (seq_text 7 2)" by code_simp
  then obtain s' where s': "save_message busy_mb hello (mb_start 0 []) = (Ret (seq_text 7 2), s')"
    by (metis prod.collapse)
  with save_keeps_index_settled [OF busy_mb_stores busy_mb_settles s' _ mb_start_indexed]
  show ?thesis by simp
qed

theorem pull_misses_nothing_witness:
  "\<exists>msgs s'. pull_offline mb_env stale 2 [] 10 (after_save hello (mb_start 0 [])) = (Ret msgs, s') \<and>
     msg_id ` set msgs = {''m1''}"
proof -
  let ?s = "after_save hello (mb_start 0 [])"
  note a = first_attempts [OF fetched_hello]
  have ids: "mb_idx (fst (world (snd (first_fetch 2 ?s)))) = mb_idx (world ?s)"
    "ids_after (mb_idx (world ?s)) 2 0 10 = [''m1'']"
    by code_simp+
  have "indexed mb_idx mb_docs (world ?s)" by code_simp
  from pull_misses_nothing [OF mb_stores mb_others_settle parse_no_seq this a, of stale]
  obtain ti msgs s' where "between mb_idx (world ?s) ti (fst (world (snd (first_fetch 2 ?s))))"
    "pull_offline mb_env stale 2 [] 10 ?s = (Ret msgs, s')" "msg_id ` set msgs = set (ids_after ti 2 0 10)"
    by blast
  moreover from this(1) have "ti = mb_idx (world ?s)" by (rule between_const) (rule ids(1))
  ultimately show ?thesis using ids(2) by auto
qed

end
