(* ===== verification/Json_Access.thy ===== *)
theory Json_Access
  imports Prelude
begin

section \<open>JSON values\<close>

text \<open>
  The part of jsoncpp the gateway, the push and the admin service use. Values that come out
  of the parser are of an abstract type \<open>'j\<close>; parsing, looking for a member, reading a
  member or an element and the conversions \<open>asString\<close>, \<open>asUInt64\<close>, \<open>asInt\<close> are
  parameters, which throw when the value has another type. Documents the program builds
  are trees (\<open>jdoc\<close>) of the assignments \<open>root["a"]["b"] = v\<close> it makes, in their order;
  \<open>json_write\<close> is the writer, given the indentation.
\<close>

datatype 'j jdoc =
  JInt int
| JStr string
| JVal 'j
| JObj "(string \<times> 'j jdoc) list"
| JArr "'j jdoc list"

record 'j json_api =
  json_parse :: "string \<Rightarrow> exn + 'j option"
  json_has :: "'j \<Rightarrow> string \<Rightarrow> exn + bool"
  json_get :: "'j \<Rightarrow> string \<Rightarrow> exn + 'j"
  json_len :: "'j \<Rightarrow> nat"
  json_at :: "'j \<Rightarrow> nat \<Rightarrow> exn + 'j"
  json_string :: "'j \<Rightarrow> exn + string"
  json_u64 :: "'j \<Rightarrow> exn + u64"
  json_int :: "'j \<Rightarrow> exn + int"
  json_write :: "string \<Rightarrow> 'j jdoc \<Rightarrow> string"

text \<open>A result of the library as a computation, and \<open>v[k].asX()\<close>.\<close>

definition lift_sum :: "exn + 'a \<Rightarrow> ('s, 'a) comp" where
  "lift_sum x = (case x of Inl e \<Rightarrow> throw e | Inr a \<Rightarrow> ret a)"

definition field :: "'j json_api \<Rightarrow> ('j \<Rightarrow> exn + 'a) \<Rightarrow> 'j \<Rightarrow> string \<Rightarrow> ('s, 'a) comp" where
  "field api conv v k = bind_comp (lift_sum (json_get api v k)) (\<lambda>x. lift_sum (conv x))"

lemma lift_sum_simps [simp]: "lift_sum (Inl e) = throw e" "lift_sum (Inr a) = ret a"
  by (simp_all add: lift_sum_def)

lemma throw_bind [simp]: "bind_comp (throw e) f = throw e"
  by (simp add: outcome_simps fun_eq_iff)

lemma lift_sum_state: "\<exists>r. lift_sum x s = (r, s) \<and> r \<noteq> Hang"
  by (cases x) (simp_all add: ret_def throw_def)

text \<open>
  What reading \<open>v[k].asX()\<close> gives, as a value: \<open>field\<close> is that value lifted, it neither
  changes the state nor waits.
\<close>

definition field_value :: "'j json_api \<Rightarrow> ('j \<Rightarrow> exn + 'a) \<Rightarrow> 'j \<Rightarrow> string \<Rightarrow> exn + 'a" where
  "field_value api conv v k = (case json_get api v k of Inl e \<Rightarrow> Inl e | Inr x \<Rightarrow> conv x)"

lemma field_eq: "field api conv v k = lift_sum (field_value api conv v k)"
  by (cases "json_get api v k") (simp_all add: field_def field_value_def)

lemma keeps_lift_sum [keeps_intros]: "keeps I (lift_sum x)"
  by (cases x) (auto intro: keeps_intros)

lemma keeps_field [keeps_intros]: "keeps I (field api conv v k)"
  by (simp add: field_eq keeps_lift_sum)

text \<open>
  What jsoncpp documents of member access: \<open>isMember\<close> and \<open>operator[]\<close> throw a
  \<open>Json::LogicError\<close> for a value that is neither an object nor null (\<open>has_members v\<close>: it is
  one of the two).
\<close>

definition members_documented :: "'j json_api \<Rightarrow> ('j \<Rightarrow> bool) \<Rightarrow> bool" where
  "members_documented api has_members \<longleftrightarrow>
     (\<forall>v k. \<not> has_members v \<longrightarrow>
        (\<exists>e. json_has api v k = Inl (StdException e)) \<and> (\<exists>e. json_get api v k = Inl (StdException e)))"

lemma members_has:
  "members_documented api has_members \<Longrightarrow> \<not> has_members v \<Longrightarrow>
     \<exists>e. json_has api v k = Inl (StdException e)"
  by (simp add: members_documented_def)

lemma members_get:
  "members_documented api has_members \<Longrightarrow> \<not> has_members v \<Longrightarrow>
     \<exists>e. json_get api v k = Inl (StdException e)"
  by (simp add: members_documented_def)

text \<open>
  A library in memory, for instances: values are trees, texts are parsed by a table. The
  conversions follow the documentation of jsoncpp: members of an object or of null only,
  null where the member is missing; a number or a string is not an object.
\<close>

datatype jtree = TNull | TNum int | TText string | TList "jtree list" | TMap "(string \<times> jtree) list"

fun tree_has :: "jtree \<Rightarrow> string \<Rightarrow> exn + bool" where
  "tree_has (TMap m) k = Inr (map_of m k \<noteq> None)"
| "tree_has TNull k = Inr False"
| "tree_has v k = Inl (StdException ''requires objectValue'')"

fun tree_get :: "jtree \<Rightarrow> string \<Rightarrow> exn + jtree" where
  "tree_get (TMap m) k = Inr (case map_of m k of None \<Rightarrow> TNull | Some v \<Rightarrow> v)"
| "tree_get TNull k = Inr TNull"
| "tree_get v k = Inl (StdException ''requires objectValue'')"

fun tree_len :: "jtree \<Rightarrow> nat" where
  "tree_len (TList vs) = length vs"
| "tree_len (TMap m) = length m"
| "tree_len v = 0"

fun tree_at :: "jtree \<Rightarrow> nat \<Rightarrow> exn + jtree" where
  "tree_at (TList vs) i = Inr (if i < length vs then vs ! i else TNull)"
| "tree_at TNull i = Inr TNull"
| "tree_at v i = Inl (StdException ''requires arrayValue'')"

fun tree_string :: "jtree \<Rightarrow> exn + string" where
  "tree_string (TText t) = Inr t"
| "tree_string TNull = Inr []"
| "tree_string (TNum i) = Inr (to_string_int i)"
| "tree_string v = Inl (StdException ''not convertible to string'')"

fun tree_int :: "int \<Rightarrow> int \<Rightarrow> jtree \<Rightarrow> exn + int" where
  "tree_int lo hi (TNum i) = (if lo \<le> i \<and> i \<le> hi then Inr i else Inl (StdException ''out of range''))"
| "tree_int lo hi TNull = Inr 0"
| "tree_int lo hi v = Inl (StdException ''not convertible to a number'')"

definition tree_u64 :: "jtree \<Rightarrow> exn + u64" where
  "tree_u64 v = (case tree_int 0 (2 ^ 64 - 1) v of Inl e \<Rightarrow> Inl e | Inr i \<Rightarrow> Inr (word_of_int i))"

definition tree_api :: "(string \<times> jtree) list \<Rightarrow> (jtree jdoc \<Rightarrow> string) \<Rightarrow> jtree json_api" where
  "tree_api texts wr = \<lparr>json_parse = (\<lambda>s. Inr (map_of texts s)), json_has = tree_has,
     json_get = tree_get, json_len = tree_len, json_at = tree_at, json_string = tree_string,
     json_u64 = tree_u64, json_int = tree_int (- (2 ^ 31)) (2 ^ 31 - 1),
     json_write = (\<lambda>indent d. wr d)\<rparr>"

lemma tree_api_simps [simp]:
  "json_parse (tree_api texts wr) s = Inr (map_of texts s)"
  "json_has (tree_api texts wr) = tree_has"
  "json_get (tree_api texts wr) = tree_get"
  "json_len (tree_api texts wr) = tree_len"
  "json_at (tree_api texts wr) = tree_at"
  "json_string (tree_api texts wr) = tree_string"
  "json_u64 (tree_api texts wr) = tree_u64"
  "json_write (tree_api texts wr) indent d = wr d"
  by (simp_all add: tree_api_def)

fun tree_members :: "jtree \<Rightarrow> bool" where
  "tree_members TNull = True"
| "tree_members (TMap m) = True"
| "tree_members v = False"

lemma tree_api_documented: "members_documented (tree_api texts wr) tree_members"
proof -
  have "(\<exists>e. tree_has v k = Inl (StdException e)) \<and> (\<exists>e. tree_get v k = Inl (StdException e))"
    if "\<not> tree_members v" for v k
    using that by (cases v) simp_all
  then show ?thesis by (simp add: members_documented_def)
qed

end
