(* ===== verification/Http_Text.thy ===== *)
theory Http_Text
  imports Prelude
begin

section \<open>The text of HTTP messages\<close>

text \<open>
  Line ends and the blank line between the head and the body of an HTTP message, for the two
  HTTP endpoints (gateway and admin), with the laws for finding that blank line: where it
  is in a text that ends its head with one, and that texts around a number do not hide one.
\<close>

definition crlf :: string where
  "crlf = [CHR 0x0D, CHR 0x0A]"

definition blank_line :: string where
  "blank_line = [CHR 0x0D, CHR 0x0A, CHR 0x0D, CHR 0x0A]"

text \<open>What a client that knows the format reads: the body after the first blank line.\<close>

definition split_message :: "string \<Rightarrow> (string \<times> string) option" where
  "split_message s =
     map_option (\<lambda>p. (take p s, drop (p + 4) s)) (find_sub blank_line s)"

lemma find_sub_append:
  assumes none: "find_sub pat (u @ butlast pat) = None" and pat: "pat \<noteq> []"
  shows "find_sub pat (u @ pat @ v) = Some (length u)"
proof -
  have "\<not> prefix pat (drop q (u @ pat @ v))" if q: "q < length u" for q
  proof
    assume "prefix pat (drop q (u @ pat @ v))"
    then have "prefix pat (drop q u @ pat @ v)" using q by simp
    moreover have "prefix (drop q u @ butlast pat) (drop q u @ pat @ v)"
      using pat by (simp add: prefix_def) (metis append.assoc append_butlast_last_id)
    moreover have "length pat \<le> length (drop q u @ butlast pat)" using q pat by (cases pat) auto
    ultimately have "prefix pat (drop q u @ butlast pat)" by (rule prefix_length_prefix)
    then have "sublist pat (take q u @ drop q u @ butlast pat)"
      using sublist_def [of pat] by (auto simp: prefix_def)
    with none show False by (simp add: find_sub_None flip: append_assoc)
  qed
  then show ?thesis by (simp add: find_sub_Some)
qed

text \<open>A text no character of which is in the pattern keeps what is around it apart.\<close>

lemma sublist_after:
  "sublist pat (d @ v) \<Longrightarrow> pat \<noteq> [] \<Longrightarrow> set pat \<inter> set d = {} \<Longrightarrow> sublist pat v"
proof (induction d)
  case (Cons c d)
  have "\<not> prefix pat (c # d @ v)" using Cons.prems(2,3) by (cases pat) auto
  with Cons show ?case by (simp add: sublist_Cons_right)
qed simp

lemma sublist_mid:
  assumes s: "sublist pat (u @ d @ v)" and d: "d \<noteq> []" and pat: "set pat \<inter> set d = {}"
  shows "sublist pat u \<or> sublist pat v"
proof (cases "pat = []")
  case False
  from s show ?thesis
  proof (induction u)
    case Nil
    then show ?case using sublist_after [OF _ False pat] by simp
  next
    case (Cons c u)
    show ?case
    proof (cases "prefix pat (c # u @ d @ v)")
      case True
      have "length pat \<le> length (c # u)"
      proof (rule ccontr)
        assume "\<not> length pat \<le> length (c # u)"
        then have "prefix (c # u @ [hd d]) pat"
          using True d by (intro prefix_length_prefix [OF _ True]) (auto simp: prefix_def neq_Nil_conv)
        then have "hd d \<in> set pat" by (auto simp: prefix_def)
        with d pat show False by auto
      qed
      then have "prefix pat (c # u)"
        using True by (intro prefix_length_prefix [OF True]) auto
      then show ?thesis by (simp add: prefix_imp_sublist)
    next
      case False
      with Cons show ?thesis by (auto simp: sublist_Cons_right)
    qed
  qed
qed simp

lemma find_sub_mid:
  "d \<noteq> [] \<Longrightarrow> set pat \<inter> set d = {} \<Longrightarrow> find_sub pat u = None \<Longrightarrow> find_sub pat v = None \<Longrightarrow>
     find_sub pat (u @ d @ v) = None"
  unfolding find_sub_None by (meson sublist_mid)

lemma blank_line_dec: "set blank_line \<inter> set (dec n) = {}"
  by (simp add: blank_line_def dec_no_char is_digit_def char_code_def)

text \<open>
  A head around a number, followed by the blank line, splits where it was joined, whatever
  the body: to be checked for the two texts around the number only.
\<close>

lemma split_message_numbered:
  assumes "find_sub blank_line u = None" "find_sub blank_line (v @ butlast blank_line) = None"
  shows "split_message (u @ dec n @ v @ blank_line @ body) = Some (u @ dec n @ v, body)"
proof -
  have "find_sub blank_line ((u @ dec n @ v) @ butlast blank_line) = None"
    using find_sub_mid [OF dec_nonempty blank_line_dec assms] by simp
  from find_sub_append [OF this, of body] show ?thesis
    by (simp add: split_message_def blank_line_def)
qed

end
