(* ===== verification/Gateway.thy ===== *)
theory Gateway
  imports Retry Config Json_Access Http_Text
begin

section \<open>The gateway\<close>

text \<open>
  \<open>TcpConnection\<close>, the HTTP endpoint, the thread pool and the start-up values of the
  gateway (\<open>gateway/src\<close>, \<open>gateway/main.cpp\<close>). A connection is driven by completion
  handlers: a read, a write, the heartbeat timer. Each handler is a function on the
  connection and the world behind it; asio decides which runs next. The JSON library and
  the RPC to the logic service are parameters; the accessors of JSON values throw when the
  value has another type.
\<close>

subsection \<open>A connection\<close>

text \<open>
  \<open>in_flight\<close> counts the writes started on the one buffer \<open>write_msg\<close> and not completed;
  \<open>started\<close> lists the texts handed to \<open>async_write\<close>. \<open>reading\<close>: a read is pending;
  \<open>timer_due\<close>: when the timer fires, if it is armed.
\<close>

record tcp_conn =
  is_stopped :: bool
  last_active :: int
  write_msg :: string
  in_flight :: nat
  started :: "string list"
  reading :: bool
  timer_due :: "int option"

record 'w gw =
  tcp :: tcp_conn
  net :: 'w

definition heartbeat_timeout :: int where
  "heartbeat_timeout = 30"

definition tcp_stop :: "tcp_conn \<Rightarrow> tcp_conn" where
  "tcp_stop c = (if is_stopped c then c else c\<lparr>is_stopped := True, timer_due := None\<rparr>)"

definition tcp_send :: "string \<Rightarrow> tcp_conn \<Rightarrow> tcp_conn" where
  "tcp_send msg c =
     (if is_stopped c then c
      else c\<lparr>write_msg := msg, in_flight := in_flight c + 1, started := started c @ [msg]\<rparr>)"

definition check_heartbeat :: "int \<Rightarrow> tcp_conn \<Rightarrow> tcp_conn" where
  "check_heartbeat now c = (if is_stopped c then c else c\<lparr>timer_due := Some (now + 5)\<rparr>)"

definition new_conn :: "int \<Rightarrow> tcp_conn" where
  "new_conn now = \<lparr>is_stopped = False, last_active = now, write_msg = [], in_flight = 0,
     started = [], reading = False, timer_due = None\<rparr>"

definition tcp_start :: "int \<Rightarrow> tcp_conn \<Rightarrow> tcp_conn" where
  "tcp_start now c = check_heartbeat now (c\<lparr>last_active := now, reading := True\<rparr>)"

text \<open>The handler of the timer, when it was not cancelled.\<close>

definition on_timer :: "int \<Rightarrow> tcp_conn \<Rightarrow> tcp_conn" where
  "on_timer now c =
     (let c = c\<lparr>timer_due := None\<rparr>
      in if is_stopped c then c
         else if now - last_active c > heartbeat_timeout then tcp_stop c
         else check_heartbeat now c)"

definition on_written :: "bool \<Rightarrow> tcp_conn \<Rightarrow> tcp_conn" where
  "on_written ok c =
     (let c = c\<lparr>in_flight := in_flight c - 1\<rparr> in if ok then c else tcp_stop c)"

subsection \<open>Messages\<close>

record rpc_req =
  rpc_msg_id :: string
  rpc_sender :: u64
  rpc_receiver :: u64
  rpc_session_type :: int
  rpc_msg_type :: int
  rpc_content :: string

record ('w, 'j) gw_env =
  json :: "'j json_api"
  send_rpc :: "rpc_req \<Rightarrow> 'w \<Rightarrow> (string + (int \<times> string \<times> string)) \<times> 'w"
  gw_sleep :: "int \<Rightarrow> 'w \<Rightarrow> 'w"
  gw_grpc_built :: bool

definition tcp_do :: "(tcp_conn \<Rightarrow> tcp_conn) \<Rightarrow> ('w gw, unit) comp" where
  "tcp_do f s = (Ret (), s\<lparr>tcp := f (tcp s)\<rparr>)"

definition forward_attempt :: "('w, 'j) gw_env \<Rightarrow> 'j \<Rightarrow> ('w gw, unit) comp" where
  "forward_attempt env payload =
     (let api = json env
      in bind_comp (field api (json_string api) payload ''msg_id'') (\<lambda>i.
         bind_comp (field api (json_u64 api) payload ''sender_id'') (\<lambda>sd.
         bind_comp (field api (json_u64 api) payload ''receiver_id'') (\<lambda>rc.
         bind_comp (field api (json_int api) payload ''session_type'') (\<lambda>st.
         bind_comp (field api (json_int api) payload ''msg_type'') (\<lambda>mt.
         bind_comp (field api (json_string api) payload ''content'') (\<lambda>ct.
         (\<lambda>s. case send_rpc env \<lparr>rpc_msg_id = i, rpc_sender = sd, rpc_receiver = rc,
                 rpc_session_type = st, rpc_msg_type = mt, rpc_content = ct\<rparr> (net s) of
                (Inl e, w) \<Rightarrow> (Exc (StdException (''gRPC Error: '' @ e)), s\<lparr>net := w\<rparr>)
              | (Inr (code, msg, seq), w) \<Rightarrow>
                  tcp_do (tcp_send (json_write api [] (JObj [(''code'', JInt code), (''msg'', JStr msg),
                    (''seq_id'', JStr seq)]) @ [CHR 0x0A])) (s\<lparr>net := w\<rparr>)))))))))"

definition gw_pause :: "('w, 'j) gw_env \<Rightarrow> int \<Rightarrow> 'w gw \<Rightarrow> 'w gw" where
  "gw_pause env ms s = s\<lparr>net := gw_sleep env ms (net s)\<rparr>"

definition json_text :: "string \<Rightarrow> string \<Rightarrow> string" where
  "json_text code msg = ''{'' @ [CHR 0x22] @ ''code'' @ [CHR 0x22] @ '': '' @ code @ '', '' @
     [CHR 0x22] @ ''msg'' @ [CHR 0x22] @ '': '' @ [CHR 0x22] @ msg @ [CHR 0x22]"

definition mock_reply :: string where
  "mock_reply = json_text ''0'' ''SUCCESS'' @ '', '' @ [CHR 0x22] @ ''seq_id'' @ [CHR 0x22] @
     '': '' @ [CHR 0x22] @ ''MOCK_SEQ_123'' @ [CHR 0x22] @ ''}'' @ [CHR 0x0A]"

definition forward_to_logic :: "('w, 'j) gw_env \<Rightarrow> 'j \<Rightarrow> ('w gw, unit) comp" where
  "forward_to_logic env payload =
     (if gw_grpc_built env
      then execute_with_retry_void (gw_pause env) 3 500 (forward_attempt env payload)
      else
        bind_comp (field (json env) (json_string (json env)) payload ''msg_id'') (\<lambda>_.
          tcp_do (tcp_send mock_reply)))"

definition error_reply :: "string \<Rightarrow> string \<Rightarrow> string" where
  "error_reply code msg = json_text code msg @ ''}'' @ [CHR 0x0A]"

definition parse_and_route :: "('w, 'j) gw_env \<Rightarrow> string \<Rightarrow> ('w gw, unit) comp" where
  "parse_and_route env raw_msg =
     (if str_find raw_msg ''PING'' 0 \<noteq> None then tcp_do (tcp_send (''PONG'' @ [CHR 0x0A]))
      else
        bind_comp (lift_sum (json_parse (json env) raw_msg)) (\<lambda>parsed.
        case parsed of
           None \<Rightarrow> tcp_do (tcp_send (error_reply ''400'' ''Invalid JSON protocol''))
         | Some root \<Rightarrow>
             bind_comp (lift_sum (json_has (json env) root ''cmd'')) (\<lambda>has_cmd.
             bind_comp (if has_cmd then lift_sum (json_has (json env) root ''payload'') else ret False)
               (\<lambda>has_payload.
             if \<not> has_cmd \<or> \<not> has_payload
             then tcp_do (tcp_send (error_reply ''400'' ''Missing cmd or payload field''))
             else
               bind_comp (field (json env) (json_string (json env)) root ''cmd'') (\<lambda>cmd.
               bind_comp (lift_sum (json_get (json env) root ''payload'')) (\<lambda>payload.
                 if cmd = ''send_msg'' then forward_to_logic env payload
                 else tcp_do (tcp_send (error_reply ''404'' ''Unknown command''))))))))"

text \<open>The handler of a read: a chunk of at most 1024 bytes at time \<open>now\<close>, or an error.\<close>

definition on_read :: "('w, 'j) gw_env \<Rightarrow> int \<Rightarrow> string option \<Rightarrow> ('w gw, unit) comp" where
  "on_read env now chunk =
     (case chunk of
        None \<Rightarrow> tcp_do (\<lambda>c. tcp_stop (c\<lparr>reading := False\<rparr>))
      | Some msg \<Rightarrow>
          bind_comp (tcp_do (\<lambda>c. c\<lparr>reading := False, last_active := now\<rparr>)) (\<lambda>_.
          bind_comp (parse_and_route env msg) (\<lambda>_.
            tcp_do (\<lambda>c. c\<lparr>reading := True\<rparr>))))"

subsection \<open>The threads of the pool\<close>

text \<open>
  The process: the threads that still run handlers, the connections by number, the world.
  A thread runs handlers until one throws: a standard exception is logged and the thread
  ends; another one ends the process (\<open>None\<close>). A thread whose handler waits for ever is lost
  as well. A read completes on a connection that is being read, if there is a thread.
\<close>

record 'w process =
  live :: nat
  conns :: "nat \<Rightarrow> tcp_conn"
  proc_net :: 'w

definition complete_read ::
  "('w, 'j) gw_env \<Rightarrow> nat \<Rightarrow> int \<Rightarrow> string \<Rightarrow> 'w process \<Rightarrow> 'w process option" where
  "complete_read env i now msg p =
     (if live p = 0 \<or> \<not> reading (conns p i) then Some p
      else
        (case on_read env now (Some msg) \<lparr>tcp = conns p i, net = proc_net p\<rparr> of
           (r, s) \<Rightarrow>
             (let p' = p\<lparr>conns := (conns p)(i := tcp s), proc_net := net s\<rparr>
              in case r of
                   Ret _ \<Rightarrow> Some p'
                 | Exc (StdException _) \<Rightarrow> Some (p'\<lparr>live := live p - 1\<rparr>)
                 | Exc OtherException \<Rightarrow> None
                 | Hang \<Rightarrow> Some (p'\<lparr>live := live p - 1\<rparr>))))"

fun complete_reads ::
  "('w, 'j) gw_env \<Rightarrow> (nat \<times> int \<times> string) list \<Rightarrow> 'w process \<Rightarrow> 'w process option" where
  "complete_reads env [] p = Some p"
| "complete_reads env ((i, now, msg) # ms) p =
     (case complete_read env i now msg p of
        None \<Rightarrow> None
      | Some p' \<Rightarrow> complete_reads env ms p')"

subsection \<open>The HTTP endpoint\<close>

text \<open>The response does not depend on the request.\<close>

definition http_response :: "'j json_api \<Rightarrow> string \<Rightarrow> string" where
  "http_response api request_data =
     (let body = json_write api [] (JObj [(''status'', JStr ''ok''), (''service'', JStr ''gateway'')]) in
     ''HTTP/1.1 200 OK'' @ crlf @ ''Content-Type: application/json'' @ crlf @
     ''Content-Length: '' @ dec (length body) @ crlf @ ''Connection: close'' @ crlf @ crlf @ body)"

subsection \<open>Start-up values\<close>

text \<open>\<open>static_cast<short>\<close>, and the port the acceptor takes from it (16 bits unsigned).\<close>

definition to_short :: "int \<Rightarrow> int" where
  "to_short i = sint (word_of_int i :: 16 word)"

definition endpoint_port :: "int \<Rightarrow> int" where
  "endpoint_port port = uint (word_of_int port :: 16 word)"

definition gateway_settings :: "config_map \<Rightarrow> nat \<Rightarrow> int \<times> int \<times> nat" where
  "gateway_settings cfg hardware_concurrency =
     (let tcp_port = to_short (get_int cfg ''server.tcp_port'' 9000);
          http_port = to_short (get_int cfg ''server.http_port'' 8080);
          threads = unat (word_of_int (get_int cfg ''server.thread_pool_size'' 0) :: 64 word);
          threads = (if threads = 0
                     then (if hardware_concurrency = 0 then 4 else hardware_concurrency)
                     else threads)
      in (tcp_port, http_port, threads))"

lemma endpoint_to_short: "endpoint_port (to_short i) = i mod 65536"
  by (simp add: endpoint_port_def to_short_def uint_word_of_int)

text \<open>Every configured port from 0 to 65535 is the one listened on, and there is a thread.\<close>

lemma gateway_settings_ports:
  assumes "gateway_settings cfg hw = (t, h, n)" "0 \<le> get_int cfg ''server.tcp_port'' 9000"
    "get_int cfg ''server.tcp_port'' 9000 < 65536"
  shows "endpoint_port t = get_int cfg ''server.tcp_port'' 9000 \<and> 0 < n"
  using assms endpoint_to_short by (auto simp: gateway_settings_def Let_def split: if_splits)

subsection \<open>The heartbeat\<close>

text \<open>The timer firing on time, \<open>n\<close> times, with nothing else happening.\<close>

primrec timer_run :: "nat \<Rightarrow> tcp_conn \<Rightarrow> tcp_conn" where
  "timer_run 0 c = c"
| "timer_run (Suc n) c =
     (case timer_due (timer_run n c) of
        None \<Rightarrow> timer_run n c
      | Some d \<Rightarrow> on_timer d (timer_run n c))"

lemma timer_run_live:
  assumes "\<not> is_stopped c" "timer_due c = Some d"
    and "n = 0 \<or> d + 5 * (int n - 1) \<le> last_active c + 30"
  shows "timer_run n c = c\<lparr>timer_due := Some (d + 5 * int n)\<rparr>"
  using assms(3)
proof (induction n)
  case 0
  then show ?case using assms(2) by simp
next
  case (Suc n)
  then have "timer_run n c = c\<lparr>timer_due := Some (d + 5 * int n)\<rparr>" by auto
  moreover have "d + 5 * int n - last_active c \<le> 30" using Suc.prems by auto
  ultimately show ?case
    using assms(1) by (simp add: on_timer_def check_heartbeat_def heartbeat_timeout_def algebra_simps)
qed

text \<open>
  C40. A connection that falls silent, with its timer due no later than five seconds after
  the last activity, is closed by the heartbeat: if the timer fires on time and each firing
  is handled in the second it is due, the connection is open through every firing up to 30
  seconds after the last activity and closed by the first one after that, which comes at
  most 35 seconds after it. That is the eighth firing at the latest, and the seventh unless
  the activity was in the very second in which the timer was due.
\<close>

theorem silent_connection_closed:
  assumes "\<not> is_stopped c" "timer_due c = Some d" "last_active c \<le> d" "d \<le> last_active c + 5"
  shows "\<exists>n e. n \<le> (if d = last_active c then 7 else 6) \<and> timer_due (timer_run n c) = Some e \<and>
           last_active c + 30 < e \<and> e \<le> last_active c + 35 \<and>
           (\<forall>k \<le> n. \<not> is_stopped (timer_run k c)) \<and> is_stopped (timer_run (Suc n) c)"
proof -
  define n where "n = nat ((last_active c + 30 - d) div 5 + 1)"
  have "0 \<le> (last_active c + 30 - d) div 5"
    "(last_active c + 30 - d) div 5 \<le> (if d = last_active c then 6 else 5)"
    using assms(3,4) by auto
  then have n: "int n = (last_active c + 30 - d) div 5 + 1" "n \<le> (if d = last_active c then 7 else 6)"
    by (auto simp: n_def split: if_splits)
  have e: "last_active c + 30 < d + 5 * int n" "d + 5 * (int n - 1) \<le> last_active c + 30"
    unfolding n(1) by presburger+
  have live: "timer_run k c = c\<lparr>timer_due := Some (d + 5 * int k)\<rparr>" if "k \<le> n" for k
  proof (rule timer_run_live [OF assms(1,2)])
    have "int k \<le> int n" using that by simp
    then have "d + 5 * (int k - 1) \<le> d + 5 * (int n - 1)" by simp
    with e(2) have "d + 5 * (int k - 1) \<le> last_active c + 30" by (rule order_trans [rotated])
    then show "k = 0 \<or> d + 5 * (int k - 1) \<le> last_active c + 30" ..
  qed
  have stop: "is_stopped (timer_run (Suc n) c)"
    using live [OF order_refl] e(1) assms(1)
    by (simp add: on_timer_def tcp_stop_def heartbeat_timeout_def)
  show ?thesis
    using n(2) e live stop assms(1) by (intro exI [of _ n] exI [of _ "d + 5 * int n"]) simp
qed

theorem silent_connection_closed_witness:
  "(\<exists>n e. n \<le> 6 \<and> timer_due (timer_run n (tcp_start 100 (new_conn 100))) = Some e \<and>
      130 < e \<and> e \<le> 135 \<and> is_stopped (timer_run (Suc n) (tcp_start 100 (new_conn 100)))) \<and>
   (\<exists>n e. n \<le> 7 \<and>
      timer_due (timer_run n (tcp_start 100 (new_conn 100)\<lparr>last_active := 105\<rparr>)) = Some e \<and>
      135 < e \<and> e \<le> 140)"
  using silent_connection_closed [of "tcp_start 100 (new_conn 100)" 105]
    silent_connection_closed [of "tcp_start 100 (new_conn 100)\<lparr>last_active := 105\<rparr>" 105]
  by (simp add: tcp_start_def new_conn_def check_heartbeat_def) blast

subsection \<open>What messages do to a connection and to the threads\<close>

text \<open>
  A message with the letters PING anywhere in it, a chat text included, is taken for a
  heartbeat: it is answered with PONG and dropped, whatever the JSON library, the logic
  service and the rest of the message.
\<close>

theorem ping_swallows_message:
  "parse_and_route env (u @ ''PING'' @ v) s =
     (Ret (), s\<lparr>tcp := tcp_send (''PONG'' @ [CHR 0x0A]) (tcp s)\<rparr>)"
proof -
  have "find_sub ''PING'' (u @ ''PING'' @ v) \<noteq> None"
    using find_sub_None sublist_appendI by blast
  then have "str_find (u @ ''PING'' @ v) ''PING'' 0 \<noteq> None" by (simp add: str_find_def)
  then show ?thesis by (simp add: parse_and_route_def tcp_do_def)
qed

definition kills :: "('w, 'j) gw_env \<Rightarrow> string \<Rightarrow> bool" where
  "kills env msg \<longleftrightarrow>
     str_find msg ''PING'' 0 = None \<and>
     (\<exists>root e. json_parse (json env) msg = Inr (Some root) \<and>
        json_has (json env) root ''cmd'' = Inl (StdException e))"

text \<open>Such a message is any text that is JSON, but neither an object nor null.\<close>

lemma kills_document:
  assumes "str_find msg ''PING'' 0 = None" "json_parse (json env) msg = Inr (Some root)"
    and "members_documented (json env) has_members" "\<not> has_members root"
  shows "kills env msg"
  using assms(1,2) members_has [OF assms(3,4)] by (simp add: kills_def)

lemma on_read_kills:
  assumes "kills env msg"
  shows "\<exists>e. on_read env now (Some msg) s =
           (Exc (StdException e), s\<lparr>tcp := (tcp s)\<lparr>reading := False, last_active := now\<rparr>\<rparr>)"
  using assms
  by (auto simp: kills_def on_read_def parse_and_route_def bind_comp_def tcp_do_def lift_sum_def
      throw_def ret_def)

lemma complete_read_kills:
  assumes "kills env msg" "reading (conns p i)" "0 < live p"
  shows "complete_read env i now msg p =
           Some (p\<lparr>conns := (conns p)(i := (conns p i)\<lparr>reading := False, last_active := now\<rparr>),
                   live := live p - 1\<rparr>)"
  using on_read_kills [OF assms(1), of now "\<lparr>tcp = conns p i, net = proc_net p\<rparr>"] assms(2,3)
  by (auto simp: complete_read_def)

lemma complete_reads_dead: "live p = 0 \<Longrightarrow> complete_reads env ms p = Some p"
  by (induction ms) (auto simp: complete_read_def)

text \<open>
  A message that is JSON but neither an object nor null costs a thread of the pool: looking for a
  member in it throws, nothing below the thread's function catches it and the thread ends,
  and the connection is not read any more. As many clients that send one such message as
  there are threads leave no thread to run a handler.
\<close>

theorem malformed_messages_stop_gateway:
  assumes "\<forall>m \<in> set ms. kills env (snd (snd m))" "\<forall>m \<in> set ms. reading (conns p (fst m))"
    and "distinct (map fst ms)"
  shows "\<exists>p'. complete_reads env ms p = Some p' \<and> live p' = live p - length ms"
  using assms
proof (induction ms arbitrary: p)
  case Nil
  then show ?case by simp
next
  case (Cons m ms)
  obtain i now msg where m: "m = (i, now, msg)" by (metis prod.collapse)
  show ?case
  proof (cases "live p = 0")
    case True
    then show ?thesis using complete_reads_dead [OF True, of env "m # ms"] by simp
  next
    case False
    let ?p = "p\<lparr>conns := (conns p)(i := (conns p i)\<lparr>reading := False, last_active := now\<rparr>),
        live := live p - 1\<rparr>"
    have "complete_read env i now msg p = Some ?p"
      using complete_read_kills [of env msg p i now] Cons.prems m False by simp
    moreover have "\<forall>x \<in> set ms. reading (conns ?p (fst x))"
      using Cons.prems(2,3) m by force
    then obtain p' where "complete_reads env ms ?p = Some p'" "live p' = live ?p - length ms"
      using Cons.IH [of ?p] Cons.prems(1,3) by auto
    ultimately show ?thesis using m by simp
  qed
qed

definition toy_gateway :: "(nat, jtree) gw_env" where
  "toy_gateway = \<lparr>json = tree_api [(''[]'', TList []), (''{}'', TMap [])] (\<lambda>d. []), send_rpc = (\<lambda>r w. (Inl ''down'', w)), gw_sleep = (\<lambda>d w. w),
     gw_grpc_built = True\<rparr>"

theorem malformed_messages_stop_gateway_witness:
  "\<exists>p'. complete_reads toy_gateway [(0, 1, ''[]''), (1, 2, ''[]'')]
     \<lparr>live = 2, conns = (\<lambda>i. tcp_start 0 (new_conn 0)), proc_net = 0\<rparr> = Some p' \<and> live p' = 0"
proof -
  have "kills toy_gateway ''[]''"
    by (simp add: kills_def toy_gateway_def str_find_def)
  then show ?thesis
    using malformed_messages_stop_gateway [of "[(0, 1, ''[]''), (1, 2, ''[]'')]" toy_gateway
        "\<lparr>live = 2, conns = (\<lambda>i. tcp_start 0 (new_conn 0)), proc_net = 0\<rparr>"]
    by (simp add: tcp_start_def new_conn_def check_heartbeat_def)
qed

text \<open>
  The same happens to a well-formed message while the logic service is down: the last
  attempt's exception leaves the handler.
\<close>

lemma logic_down_throws:
  assumes "gw_grpc_built env" "\<And>r w. \<exists>e w'. send_rpc env r w = (Inl e, w')"
  shows "fst (forward_to_logic env payload s) \<noteq> Ret ()"
proof
  assume "fst (forward_to_logic env payload s) = Ret ()"
  then obtain s' where "forward_to_logic env payload s = (Ret (), s')" by (metis prod.collapse)
  then obtain n u where "forward_attempt env payload u = (Ret (), s')"
    using assms(1)
    by (auto simp: forward_to_logic_def execute_with_retry_void_eq execute_with_retry_def
        retry_loop_result)
  then obtain req t where "(case send_rpc env req (net t) of
      (Inl e, w) \<Rightarrow> (Exc (StdException (''gRPC Error: '' @ e)), t\<lparr>net := w\<rparr>)
    | (Inr (code, msg, seq), w) \<Rightarrow>
        tcp_do (tcp_send (json_write (json env) [] (JObj [(''code'', JInt code), (''msg'', JStr msg),
          (''seq_id'', JStr seq)]) @ [CHR 0x0A])) (t\<lparr>net := w\<rparr>)) =
    (Ret (), s')"
    unfolding forward_attempt_def Let_def bind_comp_Ret by blast
  moreover obtain e w' where "send_rpc env req (net t) = (Inl e, w')" using assms(2) by blast
  ultimately show False by simp
qed

end
