(* ===== verification/Gateway_Process.thy ===== *)
theory Gateway_Process
  imports Gateway
begin

section \<open>The gateway as a process\<close>

text \<open>
  \<open>GatewayServer\<close>, the accept loops of \<open>TcpServer\<close> and \<open>HttpServer\<close>, the HTTP connections and
  \<open>main\<close> of the gateway: the handlers of theory \<open>Gateway\<close> and those of HTTP connections as
  events the threads of the pool run, and what the process does when there is nothing to
  run any more. A connection gets the next number of its kind when it is accepted.
\<close>

subsection \<open>HTTP connections\<close>

text \<open>
  A connection reads once; the answer is written whatever was read, and then the socket is
  shut down. After an error of the read nothing refers to the connection any more.
\<close>

record web_conn =
  web_reading :: bool
  web_response :: string
  web_writing :: bool
  web_open :: bool

definition web_start :: web_conn where
  "web_start = \<lparr>web_reading = True, web_response = [], web_writing = False, web_open = True\<rparr>"

definition web_read :: "'j json_api \<Rightarrow> string option \<Rightarrow> web_conn \<Rightarrow> web_conn" where
  "web_read api received c =
     (case received of
        None \<Rightarrow> c\<lparr>web_reading := False, web_open := False\<rparr>
      | Some req \<Rightarrow> c\<lparr>web_reading := False, web_response := http_response api req, web_writing := True\<rparr>)"

definition web_written :: "web_conn \<Rightarrow> web_conn" where
  "web_written c = c\<lparr>web_writing := False, web_open := False\<rparr>"

subsection \<open>Events\<close>

datatype gw_event =
  Accepted int
| AcceptedGone
| AcceptFailed
| Arrived nat int string
| ReadFailed nat
| TimerFired nat int
| Written nat bool
| WebAccepted
| WebArrived nat "string option"
| WebWritten nat
| Signal

text \<open>
  The process of theory \<open>Gateway\<close> with the number of TCP connections accepted so far, whether
  the TCP acceptor waits for the next, and the HTTP connections. \<open>AcceptedGone\<close>: the client
  has gone when its connection is started, so that asking the socket for its address throws
  in \<open>Start\<close>; the thread ends and the acceptor is not asked again. An event is handled only if a thread is left and the connection waits
  for it. \<open>Signal\<close> stops the dispatcher: every thread returns.
\<close>

record 'w gateway =
  proc :: "'w process"
  accepted :: nat
  accepting :: bool
  webs :: "web_conn list"

definition update_web :: "nat \<Rightarrow> (web_conn \<Rightarrow> bool) \<Rightarrow> (web_conn \<Rightarrow> web_conn) \<Rightarrow> 'w gateway \<Rightarrow> 'w gateway" where
  "update_web i pending f g =
     (if live (proc g) = 0 \<or> \<not> i < length (webs g) \<or> \<not> pending (webs g ! i) then g
      else g\<lparr>webs := (webs g)[i := f (webs g ! i)]\<rparr>)"

definition update_conn :: "nat \<Rightarrow> (tcp_conn \<Rightarrow> tcp_conn) \<Rightarrow> 'w process \<Rightarrow> 'w process" where
  "update_conn i f p = p\<lparr>conns := (conns p)(i := f (conns p i))\<rparr>"

fun gateway_step :: "('w, 'j) gw_env \<Rightarrow> gw_event \<Rightarrow> 'w gateway \<Rightarrow> 'w gateway option" where
  "gateway_step env (Accepted now) g =
     Some (if live (proc g) = 0 \<or> \<not> accepting g then g
           else g\<lparr>proc := update_conn (accepted g) (\<lambda>_. tcp_start now (new_conn now)) (proc g),
                  accepted := accepted g + 1\<rparr>)"
| "gateway_step env AcceptedGone g =
     Some (if live (proc g) = 0 \<or> \<not> accepting g then g
           else g\<lparr>proc := (proc g)\<lparr>live := live (proc g) - 1\<rparr>, accepting := False\<rparr>)"
| "gateway_step env AcceptFailed g = Some g"
| "gateway_step env (Arrived i now msg) g =
     map_option (\<lambda>p. g\<lparr>proc := p\<rparr>) (complete_read env i now msg (proc g))"
| "gateway_step env (ReadFailed i) g =
     Some (if live (proc g) = 0 \<or> \<not> reading (conns (proc g) i) then g
           else g\<lparr>proc := update_conn i (\<lambda>c. tcp_stop (c\<lparr>reading := False\<rparr>)) (proc g)\<rparr>)"
| "gateway_step env (TimerFired i now) g =
     Some (if live (proc g) = 0 \<or> timer_due (conns (proc g) i) = None then g
           else g\<lparr>proc := update_conn i (on_timer now) (proc g)\<rparr>)"
| "gateway_step env (Written i ok) g =
     Some (if live (proc g) = 0 \<or> in_flight (conns (proc g) i) = 0 then g
           else g\<lparr>proc := update_conn i (on_written ok) (proc g)\<rparr>)"
| "gateway_step env WebAccepted g =
     Some (if live (proc g) = 0 then g else g\<lparr>webs := webs g @ [web_start]\<rparr>)"
| "gateway_step env (WebArrived i received) g =
     Some (update_web i web_reading (web_read (json env) received) g)"
| "gateway_step env (WebWritten i) g = Some (update_web i web_writing web_written g)"
| "gateway_step env Signal g = Some (g\<lparr>proc := (proc g)\<lparr>live := 0\<rparr>\<rparr>)"

primrec gateway_run :: "('w, 'j) gw_env \<Rightarrow> gw_event list \<Rightarrow> 'w gateway \<Rightarrow> 'w gateway option" where
  "gateway_run env [] g = Some g"
| "gateway_run env (e # es) g =
     (case gateway_step env e g of None \<Rightarrow> None | Some g' \<Rightarrow> gateway_run env es g')"

definition no_conn :: tcp_conn where
  "no_conn = \<lparr>is_stopped = True, last_active = 0, write_msg = [], in_flight = 0, started = [],
     reading = False, timer_due = None\<rparr>"

definition gateway_start :: "nat \<Rightarrow> 'w \<Rightarrow> 'w gateway" where
  "gateway_start threads w =
     \<lparr>proc = \<lparr>live = threads, conns = (\<lambda>i. no_conn), proc_net = w\<rparr>, accepted = 0,
      accepting = True, webs = []\<rparr>"

subsection \<open>Main\<close>

text \<open>
  The constructor of the server makes the threads of the pool; \<open>spawn\<close> is what the system does
  for one and throws when it cannot, \<open>k\<close> counts those made. When a later one fails, the
  vector with the running threads is destroyed, which ends the process; when the first
  fails, the exception leaves the constructor.
\<close>

primrec start_pool :: "('w, unit) comp \<Rightarrow> nat \<Rightarrow> nat \<Rightarrow> 'w \<Rightarrow> (unit, 'w) life" where
  "start_pool spawn k 0 w = Ends (Ret ()) w"
| "start_pool spawn k (Suc n) w =
     (case spawn w of
        (Ret _, w') \<Rightarrow> start_pool spawn (Suc k) n w'
      | (Exc e, w') \<Rightarrow> if k = 0 then Ends (Exc e) w' else Aborts w'
      | (Hang, w') \<Rightarrow> Ends Hang w')"

text \<open>
  \<open>Run\<close> waits for the threads of the pool: it returns when each of them has ended, and
  \<open>main\<close> then logs a normal exit and returns 0. \<open>bind_ports\<close> is what the constructors of the
  two acceptors do with their ports.
\<close>

definition gateway_main ::
  "('w, 'j) gw_env \<Rightarrow> (string \<Rightarrow> string option) \<Rightarrow> nat \<Rightarrow> (int \<Rightarrow> int \<Rightarrow> ('w, unit) comp) \<Rightarrow>
     ('w, unit) comp \<Rightarrow> gw_event list \<Rightarrow> 'w \<Rightarrow> (int, 'w gateway) life" where
  "gateway_main env open_file hardware_concurrency bind_ports spawn events w =
     (case load open_file ''gateway/config/gateway_config.yaml'' of
        (False, _) \<Rightarrow> Ends (Ret (- 1)) (gateway_start 0 w)
      | (True, cfg) \<Rightarrow>
          (case gateway_settings cfg hardware_concurrency of
             (tcp_port, http_port, threads) \<Rightarrow>
               (case bind_ports (endpoint_port tcp_port) (endpoint_port http_port) w of
                  (Exc (StdException _), w') \<Rightarrow> Ends (Ret (- 1)) (gateway_start 0 w')
                | (Exc OtherException, w') \<Rightarrow> Aborts (gateway_start 0 w')
                | (Hang, w') \<Rightarrow> Ends Hang (gateway_start 0 w')
                | (Ret _, w') \<Rightarrow>
                    (case start_pool spawn 0 threads w' of
                       Ends (Exc (StdException _)) w'' \<Rightarrow> Ends (Ret (- 1)) (gateway_start 0 w'')
                     | Ends (Exc OtherException) w'' \<Rightarrow> Aborts (gateway_start 0 w'')
                     | Ends Hang w'' \<Rightarrow> Ends Hang (gateway_start 0 w'')
                     | Aborts w'' \<Rightarrow> Aborts (gateway_start 0 w'')
                     | Spins \<Rightarrow> Spins
                     | Ends (Ret _) w'' \<Rightarrow>
                         (case gateway_run env events (gateway_start threads w'') of
                            None \<Rightarrow> Aborts (gateway_start threads w'')
                          | Some g \<Rightarrow> if live (proc g) = 0 then Ends (Ret 0) g else Ends Hang g)))))"

subsection \<open>Every open connection is watched\<close>

text \<open>
  Between handlers that run one at a time an open connection has its timer armed and a closed
  one has none; for handlers that overlap see theory \<open>Gateway_Threads\<close>.
\<close>

definition watched :: "tcp_conn \<Rightarrow> bool" where
  "watched c \<longleftrightarrow> (is_stopped c \<longleftrightarrow> timer_due c = None)"

definition watched_all :: "'w gateway \<Rightarrow> bool" where
  "watched_all g \<longleftrightarrow> (\<forall>i. watched (conns (proc g) i)) \<and> (\<forall>i \<ge> accepted g. conns (proc g) i = no_conn)"

lemma watched_conn:
  "watched no_conn"
  "watched (tcp_start now (new_conn now))"
  "watched (tcp_stop (c\<lparr>reading := False\<rparr>)) = watched (tcp_stop c)"
  "watched c \<Longrightarrow> watched (tcp_stop c)"
  "watched c \<Longrightarrow> watched (on_written ok c)"
  "watched c \<Longrightarrow> watched (on_timer now c)"
  "watched c \<Longrightarrow> watched (tcp_send msg c)"
  by (auto simp: watched_def no_conn_def tcp_start_def new_conn_def check_heartbeat_def tcp_stop_def
      on_written_def on_timer_def tcp_send_def Let_def)

text \<open>No handler waits for ever.\<close>

definition never_hangs :: "('s, 'a) comp \<Rightarrow> bool" where
  "never_hangs m \<longleftrightarrow> (\<forall>s t. m s \<noteq> (Hang, t))"

lemma never_hangs_intros:
  "never_hangs (ret a)" "never_hangs (throw e)" "never_hangs (tcp_do f)" "never_hangs (lift_sum x)"
  "never_hangs m \<Longrightarrow> (\<And>a. never_hangs (k a)) \<Longrightarrow> never_hangs (bind_comp m k)"
  "never_hangs m \<Longrightarrow> never_hangs m' \<Longrightarrow> never_hangs (if c then m else m')"
  "never_hangs m \<Longrightarrow> (\<And>y. never_hangs (k' y)) \<Longrightarrow>
     never_hangs (case z of None \<Rightarrow> m | Some y \<Rightarrow> k' y)"
  by (cases x; auto simp: never_hangs_def ret_def throw_def tcp_do_def lift_sum_def bind_comp_def
      split: prod.splits outcome.splits option.splits sum.splits; fail)+

lemma forward_attempt_never_hangs: "never_hangs (forward_attempt env payload)"
  unfolding forward_attempt_def Let_def field_eq
  by (intro never_hangs_intros)
     (auto simp: never_hangs_def tcp_do_def split: prod.split sum.split)

lemma forward_to_logic_never_hangs: "never_hangs (forward_to_logic env payload)"
proof (cases "gw_grpc_built env")
  case True
  have "forward_to_logic env payload s \<noteq> (Hang, t)" for s t
    using forward_attempt_never_hangs [of env payload] True
    by (auto simp: forward_to_logic_def execute_with_retry_void_eq execute_with_retry_def
        retry_loop_result never_hangs_def)
  then show ?thesis by (simp add: never_hangs_def)
next
  case False
  then show ?thesis
    by (simp add: forward_to_logic_def field_eq) (intro never_hangs_intros)
qed

lemma on_read_never_hangs: "never_hangs (on_read env now chunk)"
  unfolding on_read_def parse_and_route_def field_eq
  by (intro never_hangs_intros forward_to_logic_never_hangs)

lemma keeps_tcp_do [keeps_intros]:
  "(\<And>c. I c \<Longrightarrow> I (f c)) \<Longrightarrow> keeps (\<lambda>s. I (tcp s)) (tcp_do f)"
  by (auto simp: keeps_def tcp_do_def)

lemma watched_forward: "keeps (\<lambda>s. watched (tcp s)) (forward_attempt env payload)"
  unfolding forward_attempt_def Let_def
  by (intro keeps_intros)
     (auto simp: keeps_def tcp_do_def watched_conn split: prod.splits sum.splits)

interpretation gw_rpc: retried "forward_attempt env payload" "gw_pause env" "\<lambda>s. watched (tcp s)"
  for env payload
  by unfold_locales (auto intro: watched_forward simp: gw_pause_def)

lemma watched_reading [simp]:
  "watched (c\<lparr>reading := b\<rparr>) = watched c" "watched (c\<lparr>last_active := now\<rparr>) = watched c"
  by (simp_all add: watched_def)

lemma watched_forward_to_logic: "keeps (\<lambda>s. watched (tcp s)) (forward_to_logic env payload)"
  unfolding forward_to_logic_def execute_with_retry_void_eq
  by (intro keeps_intros gw_rpc.retry_keeps watched_conn)

lemma watched_on_read: "keeps (\<lambda>s. watched (tcp s)) (on_read env now chunk)"
  unfolding on_read_def parse_and_route_def
  by (intro keeps_intros watched_forward_to_logic watched_conn; simp add: watched_conn)

lemma complete_read_watched:
  assumes "complete_read env i now msg p = Some p'" "\<forall>j. watched (conns p j)"
  shows "(\<forall>j. watched (conns p' j)) \<and> (\<forall>j. j \<noteq> i \<longrightarrow> conns p' j = conns p j) \<and>
         (conns p' i = conns p i \<or> reading (conns p i))"
proof (cases "live p = 0 \<or> \<not> reading (conns p i)")
  case False
  obtain r s where s: "on_read env now (Some msg) \<lparr>tcp = conns p i, net = proc_net p\<rparr> = (r, s)"
    by fastforce
  have "r \<noteq> Hang" using on_read_never_hangs s unfolding never_hangs_def by blast
  then have "watched (tcp s)" using keepsD [OF watched_on_read _ s] assms(2) by simp
  moreover have "conns p' = (conns p)(i := tcp s)"
    using assms(1) False s by (auto simp: complete_read_def Let_def split: outcome.splits exn.splits)
  ultimately show ?thesis using assms(2) False by simp
qed (use assms in \<open>auto simp: complete_read_def\<close>)

lemma gateway_step_watched:
  assumes step: "gateway_step env e g = Some g'" and inv: "watched_all g"
  shows "watched_all g'"
proof (cases e)
  case (Arrived i now msg)
  then obtain p where p: "complete_read env i now msg (proc g) = Some p" "g' = g\<lparr>proc := p\<rparr>"
    using step by auto
  have w: "\<forall>j. watched (conns (proc g) j)" and n: "\<forall>j \<ge> accepted g. conns (proc g) j = no_conn"
    using inv by (simp_all add: watched_all_def)
  note cr = complete_read_watched [OF p(1) w]
  have "conns p j = no_conn" if "accepted g \<le> j" for j
  proof (cases "j = i")
    case True
    then have "\<not> reading (conns (proc g) i)" using n that by (simp add: no_conn_def)
    then show ?thesis using cr n that True by auto
  qed (use cr n that in auto)
  with cr p(2) show ?thesis by (simp add: watched_all_def)
qed (use step inv in \<open>auto simp: watched_all_def update_conn_def update_web_def watched_conn no_conn_def
       split: if_splits\<close>)

lemma watched_start: "watched_all (gateway_start threads w)"
  by (simp add: watched_all_def gateway_start_def watched_conn)

lemma gateway_run_watched_from:
  "gateway_run env events h = Some g \<Longrightarrow> watched_all h \<Longrightarrow> watched_all g"
  by (induction events arbitrary: h) (auto split: option.splits dest: gateway_step_watched)

lemma gateway_run_watched:
  assumes "gateway_run env events (gateway_start threads w) = Some g"
  shows "watched_all g"
  by (rule gateway_run_watched_from [OF assms watched_start])

subsection \<open>A few messages end the gateway\<close>

lemma gateway_run_append:
  "gateway_run env (es @ fs) g =
     (case gateway_run env es g of None \<Rightarrow> None | Some g' \<Rightarrow> gateway_run env fs g')"
  by (induction es arbitrary: g) (auto split: option.split)

lemma gateway_run_reads:
  "gateway_run env (map (\<lambda>(i, now, msg). Arrived i now msg) ms) g =
     map_option (\<lambda>p. g\<lparr>proc := p\<rparr>) (complete_reads env ms (proc g))"
proof (induction ms arbitrary: g)
  case (Cons m ms)
  obtain i now msg where "m = (i, now, msg)" by (metis prod.collapse)
  with Cons show ?case by (auto simp: option.map_comp comp_def split: option.split)
qed simp

lemma gateway_run_accepts:
  assumes "live (proc g) \<noteq> 0" "accepting g"
  shows "\<exists>g'. gateway_run env (replicate k (Accepted now)) g = Some g' \<and>
           live (proc g') = live (proc g) \<and> (\<forall>i < accepted g. conns (proc g') i = conns (proc g) i) \<and>
           (\<forall>i. accepted g \<le> i \<and> i < accepted g + k \<longrightarrow> reading (conns (proc g') i))"
  using assms
proof (induction k arbitrary: g)
  case (Suc k)
  let ?h = "g\<lparr>proc := update_conn (accepted g) (\<lambda>_. tcp_start now (new_conn now)) (proc g),
      accepted := accepted g + 1\<rparr>"
  obtain g' where g': "gateway_run env (replicate k (Accepted now)) ?h = Some g'"
    "live (proc g') = live (proc ?h)" "\<forall>i < accepted ?h. conns (proc g') i = conns (proc ?h) i"
    "\<forall>i. accepted ?h \<le> i \<and> i < accepted ?h + k \<longrightarrow> reading (conns (proc g') i)"
    using Suc.IH [of ?h] Suc.prems by (auto simp: update_conn_def)
  have "reading (conns (proc g') i)" if "accepted g \<le> i" "i < accepted g + Suc k" for i
  proof (cases "i = accepted g")
    case True
    with g'(3) show ?thesis by (simp add: update_conn_def tcp_start_def check_heartbeat_def new_conn_def)
  qed (use g'(4) that in auto)
  with g' Suc.prems show ?case by (intro exI [of _ g']) (simp add: update_conn_def)
qed auto

text \<open>
  C27. The gateway of any configuration that can be loaded, whose ports are free and whose
  threads can be started, exits when as many clients as it has threads connect and each sends
  one message that is JSON but neither an object nor null (and has no PING in it), the text
  \<open>7\<close> for instance: the last thread ends with the last of them, \<open>Run\<close> returns and \<open>main\<close>
  reports a normal exit.
\<close>

theorem malformed_messages_exit_gateway:
  assumes "load open_file ''gateway/config/gateway_config.yaml'' = (True, cfg)"
    and "gateway_settings cfg cores = (tcp_port, http_port, threads)"
    and "bind_ports (endpoint_port tcp_port) (endpoint_port http_port) w = (Ret (), w1)"
    and "start_pool spawn 0 threads w1 = Ends (Ret ()) w2"
    and "members_documented (json env) has_members" "json_parse (json env) msg = Inr (Some root)"
    and "\<not> has_members root" "str_find msg ''PING'' 0 = None"
  shows "\<exists>g. gateway_main env open_file cores bind_ports spawn
           (replicate threads (Accepted now) @ map (\<lambda>i. Arrived i now msg) [0..<threads]) w =
         Ends (Ret 0) g"
proof -
  have kills: "kills env msg" by (rule kills_document [OF assms(8,6,5,7)])
  have n: "0 < threads" using assms(2) by (auto simp: gateway_settings_def Let_def split: if_splits)
  let ?g0 = "gateway_start threads w2"
  obtain g where g: "gateway_run env (replicate threads (Accepted now)) ?g0 = Some g"
    "live (proc g) = threads" "\<forall>i < threads. reading (conns (proc g) i)"
    using gateway_run_accepts [of ?g0 env threads now] n by (auto simp: gateway_start_def)
  let ?ms = "map (\<lambda>i. (i, now, msg)) [0..<threads]"
  obtain p where p: "complete_reads env ?ms (proc g) = Some p" "live p = live (proc g) - length ?ms"
    using malformed_messages_stop_gateway [of ?ms env "proc g"] kills g(3)
    by (auto simp: comp_def)
  have "map (\<lambda>i. Arrived i now msg) [0..<threads] = map (\<lambda>(i, now, msg). Arrived i now msg) ?ms"
    by simp
  then have "gateway_run env (replicate threads (Accepted now) @ map (\<lambda>i. Arrived i now msg) [0..<threads])
      ?g0 = Some (g\<lparr>proc := p\<rparr>)"
    by (simp only: gateway_run_append g(1) gateway_run_reads) (simp add: p(1))
  with assms(1-4) p(2) g(2) show ?thesis by (simp add: gateway_main_def)
qed

text \<open>Threads that can all be started.\<close>

lemma start_pool_free: "start_pool (ret ()) k n w = Ends (Ret ()) w"
  by (induction n arbitrary: k) (simp_all add: ret_def)

theorem malformed_messages_exit_gateway_witness:
  "\<exists>g events. gateway_main toy_gateway (\<lambda>f. Some []) 8 (\<lambda>t h. ret ()) (ret ()) events 0 = Ends (Ret 0) g"
proof -
  have l: "load (\<lambda>f. Some []) ''gateway/config/gateway_config.yaml'' = (True, [])"
    by code_simp
  obtain t h n where s: "gateway_settings [] 8 = (t, h, n)" by (metis prod.collapse)
  have b: "ret () 0 = (Ret (), 0 :: nat)" by (simp add: ret_def)
  have d: "members_documented (json toy_gateway) tree_members"
    by (simp add: toy_gateway_def tree_api_documented)
  have m: "json_parse (json toy_gateway) ''[]'' = Inr (Some (TList []))" "\<not> tree_members (TList [])"
    "str_find ''[]'' ''PING'' 0 = None"
    by (simp_all add: toy_gateway_def str_find_def)
  from malformed_messages_exit_gateway [where bind_ports = "\<lambda>t h. ret ()",
      OF l s b start_pool_free d m]
  show ?thesis by blast
qed

subsection \<open>Threads that cannot be started\<close>

lemma start_pool_append:
  "start_pool spawn i k w = Ends (Ret ()) w' \<Longrightarrow>
     start_pool spawn i (k + n) w = start_pool spawn (i + k) n w'"
  by (induction k arbitrary: i w) (auto split: prod.splits outcome.splits if_splits)

text \<open>
  A negative \<open>thread_pool_size\<close> is converted to a number of threads near \<open>2 ^ 64\<close>: the gateway
  starts threads until the system refuses one, and is then terminated, without the report
  and the exit code that the handler in \<open>main\<close> has for failures.
\<close>

theorem negative_pool_size_aborts:
  assumes "load open_file ''gateway/config/gateway_config.yaml'' = (True, cfg)"
    and "get_int cfg ''server.thread_pool_size'' 0 < 0"
    and "\<And>t h. bind_ports t h w = (Ret (), w1)"
    and "start_pool spawn 0 k w1 = Ends (Ret ()) w2" "0 < k" "k < 2 ^ 63" "spawn w2 = (Exc e, w3)"
  shows "gateway_main env open_file cores bind_ports spawn events w = Aborts (gateway_start 0 w3)"
proof -
  obtain t h n where s: "gateway_settings cfg cores = (t, h, n)" by (metis prod.collapse)
  let ?i = "get_int cfg ''server.thread_pool_size'' 0"
  have "- (2 ^ 31) \<le> ?i" using get_int_range [of 0 cfg "''server.thread_pool_size''"] by simp
  then have "?i mod 2 ^ 64 = ?i + 2 ^ 64"
    using assms(2) by (intro int_mod_pos_eq [where q = "- 1"]) auto
  then have u: "unat (word_of_int ?i :: 64 word) = nat (?i + 2 ^ 64)"
    by (simp add: unat_eq_nat_uint uint_word_of_int)
  then have "n = nat (?i + 2 ^ 64)"
    using s \<open>- (2 ^ 31) \<le> ?i\<close> by (auto simp: gateway_settings_def Let_def split: if_splits)
  then have "k < n" using assms(6) \<open>- (2 ^ 31) \<le> ?i\<close> by simp
  then obtain m where n: "n = k + Suc m" using less_imp_Suc_add by auto
  have "start_pool spawn 0 n w1 = Aborts w3"
    using start_pool_append [OF assms(4), of "Suc m"] assms(5,7) by (simp add: n)
  then show ?thesis using assms(1,3) s by (simp add: gateway_main_def)
qed

theorem negative_pool_size_aborts_witness:
  "gateway_main toy_gateway (\<lambda>f. Some (''server:'' @ [CHR 0x0A] @ ''  thread_pool_size: -1'')) 8
     (\<lambda>t h. ret ()) (\<lambda>w. if w < 1 then (Ret (), w + 1) else (Exc (StdException ''limit''), w)) [] 0 =
   Aborts (gateway_start 0 (1 :: nat))"
proof -
  let ?spawn = "\<lambda>w. if w < 1 then (Ret (), w + 1) else (Exc (StdException ''limit''), w) :: unit outcome \<times> nat"
  have l: "load (\<lambda>f. Some (''server:'' @ [CHR 0x0A] @ ''  thread_pool_size: -1''))
      ''gateway/config/gateway_config.yaml'' = (True, [(''server.thread_pool_size'', ''-1'')])"
    by code_simp
  have i: "get_int [(''server.thread_pool_size'', ''-1'')] ''server.thread_pool_size'' 0 < 0"
    by code_simp
  have s: "start_pool ?spawn 0 1 0 = Ends (Ret ()) 1" "?spawn 1 = (Exc (StdException ''limit''), 1)"
    by simp_all
  show ?thesis
    by (rule negative_pool_size_aborts [OF l i _ s(1) _ _ s(2)]) (simp_all add: ret_def)
qed

subsection \<open>A client that vanishes ends the accepting\<close>

lemma gateway_step_not_accepting:
  assumes "gateway_step env e g = Some h" "\<not> accepting g"
  shows "\<not> accepting h \<and> accepted h = accepted g \<and> live (proc h) \<le> live (proc g)"
proof (cases e)
  case (Arrived i now msg)
  with assms obtain p where "complete_read env i now msg (proc g) = Some p" "h = g\<lparr>proc := p\<rparr>"
    by auto
  with assms(2) show ?thesis
    by (auto simp: complete_read_def Let_def split: if_splits prod.splits outcome.splits exn.splits)
qed (use assms in \<open>auto simp: update_conn_def update_web_def split: if_splits\<close>)

lemma gateway_run_not_accepting:
  "gateway_run env es g = Some h \<Longrightarrow> \<not> accepting g \<Longrightarrow>
     \<not> accepting h \<and> accepted h = accepted g \<and> live (proc h) \<le> live (proc g)"
proof (induction es arbitrary: g)
  case (Cons e es)
  then obtain g' where g': "gateway_step env e g = Some g'" "gateway_run env es g' = Some h"
    by (auto split: option.splits)
  from gateway_step_not_accepting [OF g'(1) Cons.prems(2)] Cons.IH [OF g'(2)] show ?case by auto
qed simp

text \<open>
  C28. One client that resets its connection before the gateway starts it is enough to shut the
  gateway's port: asking for the client's address throws out of the accept handler, which
  ends a thread and does not ask the acceptor again. No connection is accepted from then on,
  whatever happens, though the process goes on while a thread is left.
\<close>

theorem vanished_client_ends_accepting:
  assumes "gateway_run env es (gateway_start threads w) = Some g" "0 < live (proc g)" "accepting g"
    and "gateway_run env (es @ AcceptedGone # fs) (gateway_start threads w) = Some h"
  shows "accepted h = accepted g \<and> \<not> accepting h \<and> live (proc h) < live (proc g)"
proof -
  let ?k = "g\<lparr>proc := (proc g)\<lparr>live := live (proc g) - 1\<rparr>, accepting := False\<rparr>"
  have "gateway_run env fs ?k = Some h" using assms by (simp add: gateway_run_append)
  from gateway_run_not_accepting [OF this] assms(2) show ?thesis by auto
qed

theorem vanished_client_ends_accepting_witness:
  "\<exists>h. gateway_run toy_gateway ([Accepted 100] @ AcceptedGone # [Accepted 101]) (gateway_start 2 0) =
     Some h \<and> accepted h = 1 \<and> live (proc h) = 1"
proof -
  obtain g where g: "gateway_run toy_gateway [Accepted 100] (gateway_start 2 0) = Some g"
    "live (proc g) = 2" "accepting g" "accepted g = 1"
    by (simp add: gateway_start_def update_conn_def)
  obtain h where h: "gateway_run toy_gateway ([Accepted 100] @ AcceptedGone # [Accepted 101])
      (gateway_start 2 0) = Some h" "live (proc h) = 1"
    by (simp add: gateway_start_def update_conn_def)
  from vanished_client_ends_accepting [OF g(1) _ g(3) h(1)] g h show ?thesis by auto
qed

end
