(* ===== verification/Gateway_Writes.thy ===== *)
theory Gateway_Writes
  imports Gateway_Process
begin

section \<open>What a client of the gateway receives\<close>

text \<open>
  \<open>TcpConnection::Send\<close> assigns the text to the one member \<open>write_msg_\<close> and starts an
  \<open>async_write\<close> on its bytes. Here the write itself is modelled: the block of memory the
  string owns, the writes that have been started and not completed, and the bytes the client
  has received. A write remembers the block and the range it was started on; what it
  transmits is what the block holds when the operating system takes the bytes.
\<close>

subsection \<open>The buffer and the writes\<close>

text \<open>
  The block of a \<open>std::string\<close>: the assignment of a text that fits the capacity overwrites
  the block (with the terminating zero), a longer one moves the string to a new block of a
  capacity that is the library's choice (\<open>grow\<close>), and the old block is freed.
\<close>

record text_block =
  blk_no :: nat
  blk_cap :: nat
  blk_mem :: string

definition assign_text :: "(nat \<Rightarrow> nat \<Rightarrow> nat) \<Rightarrow> string \<Rightarrow> text_block \<Rightarrow> text_block" where
  "assign_text grow msg b =
     (if length msg \<le> blk_cap b
      then b\<lparr>blk_mem := msg @ [CHR 0x00] @ drop (length msg + 1) (blk_mem b)\<rparr>
      else \<lparr>blk_no = blk_no b + 1, blk_cap = grow (blk_cap b) (length msg),
            blk_mem = msg @ [CHR 0x00]\<rparr>)"

record async_write =
  wr_block :: nat
  wr_from :: nat
  wr_end :: nat

record 'w wire =
  gate :: "'w gw"
  block :: text_block
  pending :: "async_write list"
  received :: string

definition transmitted :: "async_write \<Rightarrow> bool" where
  "transmitted p \<longleftrightarrow> wr_from p = wr_end p"

text \<open>The writes of a \<open>Send\<close>, and of all the calls of \<open>Send\<close> a handler made.\<close>

definition start_write :: "(nat \<Rightarrow> nat \<Rightarrow> nat) \<Rightarrow> string \<Rightarrow> 'w wire \<Rightarrow> 'w wire" where
  "start_write grow msg w =
     (let b = assign_text grow msg (block w)
      in w\<lparr>block := b,
           pending := pending w @ [\<lparr>wr_block = blk_no b, wr_from = 0, wr_end = length msg\<rparr>]\<rparr>)"

definition after_handler :: "(nat \<Rightarrow> nat \<Rightarrow> nat) \<Rightarrow> 'w gw \<Rightarrow> 'w wire \<Rightarrow> 'w wire" where
  "after_handler grow s w =
     fold (start_write grow) (drop (length (started (tcp (gate w)))) (started (tcp s)))
       (w\<lparr>gate := s\<rparr>)"

definition on_conn :: "(tcp_conn \<Rightarrow> tcp_conn) \<Rightarrow> 'w wire \<Rightarrow> 'w wire" where
  "on_conn f w = w\<lparr>gate := (gate w)\<lparr>tcp := f (tcp (gate w))\<rparr>\<rparr>"

subsection \<open>Steps\<close>

text \<open>
  What happens on a connection, in any order: a chunk arrives and is handled, the read fails,
  the timer fires, the operating system takes some bytes of a started write, a write
  completes or fails, the rest of the system moves. A write whose block was freed transmits
  any bytes. A \<open>patient\<close> client sends only when it has received all that was written to it.
\<close>

inductive wire_step ::
  "('w, 'j) gw_env \<Rightarrow> (nat \<Rightarrow> nat \<Rightarrow> nat) \<Rightarrow> bool \<Rightarrow> 'w wire \<Rightarrow> 'w wire \<Rightarrow> bool"
  for env grow patient where
  arrived: "reading (tcp (gate w)) \<Longrightarrow> chunk \<noteq> [] \<Longrightarrow> length chunk \<le> 1024 \<Longrightarrow>
     (patient \<Longrightarrow> \<forall>p \<in> set (pending w). transmitted p) \<Longrightarrow>
     on_read env now (Some chunk) (gate w) = (r, s) \<Longrightarrow> r \<noteq> Exc OtherException \<Longrightarrow>
     wire_step env grow patient w (after_handler grow s w)"
| read_failed: "reading (tcp (gate w)) \<Longrightarrow> on_read env now None (gate w) = (r, s) \<Longrightarrow>
     wire_step env grow patient w (after_handler grow s w)"
| timer: "timer_due (tcp (gate w)) = Some d \<Longrightarrow> d \<le> now \<Longrightarrow>
     wire_step env grow patient w (on_conn (on_timer now) w)"
| transmit: "i < length (pending w) \<Longrightarrow> p = pending w ! i \<Longrightarrow> \<not> is_stopped (tcp (gate w)) \<Longrightarrow>
     0 < n \<Longrightarrow> wr_from p + n \<le> wr_end p \<Longrightarrow> length bytes = n \<Longrightarrow>
     (wr_block p = blk_no (block w) \<Longrightarrow> bytes = substr (blk_mem (block w)) (wr_from p) n) \<Longrightarrow>
     wire_step env grow patient w
       (w\<lparr>pending := (pending w)[i := p\<lparr>wr_from := wr_from p + n\<rparr>], received := received w @ bytes\<rparr>)"
| written: "i < length (pending w) \<Longrightarrow> (ok \<Longrightarrow> transmitted (pending w ! i)) \<Longrightarrow>
     wire_step env grow patient w
       (on_conn (on_written ok) (w\<lparr>pending := take i (pending w) @ drop (Suc i) (pending w)\<rparr>))"
| elsewhere: "wire_step env grow patient w (w\<lparr>gate := (gate w)\<lparr>net := u\<rparr>\<rparr>)"

abbreviation wire_reach ::
  "('w, 'j) gw_env \<Rightarrow> (nat \<Rightarrow> nat \<Rightarrow> nat) \<Rightarrow> bool \<Rightarrow> 'w wire \<Rightarrow> 'w wire \<Rightarrow> bool" where
  "wire_reach env grow patient \<equiv> (wire_step env grow patient)\<^sup>*\<^sup>*"

text \<open>An accepted connection; \<open>b\<close> is the block of the empty string.\<close>

definition fresh_wire :: "int \<Rightarrow> text_block \<Rightarrow> 'w \<Rightarrow> 'w wire" where
  "fresh_wire now b u = \<lparr>gate = \<lparr>tcp = tcp_start now (new_conn now), net = u\<rparr>, block = b,
     pending = [], received = []\<rparr>"

subsection \<open>A handler sends at most once\<close>

text \<open>
  \<open>quiet c d\<close>: nothing was sent between \<open>c\<close> and \<open>d\<close>. A computation \<open>sends_once\<close> if it is quiet
  or returns after one \<open>Send\<close>.
\<close>

definition quiet :: "tcp_conn \<Rightarrow> tcp_conn \<Rightarrow> bool" where
  "quiet c d \<longleftrightarrow> started d = started c \<and> is_stopped d = is_stopped c"

definition sent_one :: "tcp_conn \<Rightarrow> tcp_conn \<Rightarrow> bool" where
  "sent_one c d \<longleftrightarrow> \<not> is_stopped c \<and> \<not> is_stopped d \<and> (\<exists>msg. started d = started c @ [msg])"

definition sends_once :: "('w gw, 'a) comp \<Rightarrow> bool" where
  "sends_once m \<longleftrightarrow>
     (\<forall>s r t. m s = (r, t) \<longrightarrow> quiet (tcp s) (tcp t) \<or> (\<exists>a. r = Ret a) \<and> sent_one (tcp s) (tcp t))"

definition silent :: "('w gw, 'a) comp \<Rightarrow> bool" where
  "silent m \<longleftrightarrow> (\<forall>s r t. m s = (r, t) \<longrightarrow> quiet (tcp s) (tcp t))"

lemma quiet_refl [simp]: "quiet c c"
  by (simp add: quiet_def)

lemma quiet_trans: "quiet c d \<Longrightarrow> quiet d e \<Longrightarrow> quiet c e"
  by (simp add: quiet_def)

lemma quiet_sent_one: "quiet c d \<Longrightarrow> sent_one d e \<Longrightarrow> sent_one c e"
  "sent_one c d \<Longrightarrow> quiet d e \<Longrightarrow> sent_one c e"
  by (auto simp: quiet_def sent_one_def)

lemma sends_onceD:
  "sends_once m \<Longrightarrow> m s = (r, t) \<Longrightarrow>
     quiet (tcp s) (tcp t) \<or> (\<exists>a. r = Ret a) \<and> sent_one (tcp s) (tcp t)"
  by (simp add: sends_once_def)

lemma silentD: "silent m \<Longrightarrow> m s = (r, t) \<Longrightarrow> quiet (tcp s) (tcp t)"
  by (simp add: silent_def)

lemma sends_once_send: "sends_once (tcp_do (tcp_send msg))"
  by (auto simp: sends_once_def tcp_do_def tcp_send_def quiet_def sent_one_def)

lemma sends_once_bind:
  assumes "silent m" "\<And>a. sends_once (f a)"
  shows "sends_once (bind_comp m f)"
  unfolding sends_once_def
proof (intro allI impI)
  fix s r t
  assume b: "bind_comp m f s = (r, t)"
  obtain q u where m: "m s = (q, u)" by fastforce
  with assms(1) have "quiet (tcp s) (tcp u)" by (rule silentD)
  with b m show "quiet (tcp s) (tcp t) \<or> (\<exists>a. r = Ret a) \<and> sent_one (tcp s) (tcp t)"
    by (auto simp: bind_comp_def split: outcome.splits dest!: sends_onceD [OF assms(2)]
        intro: quiet_trans quiet_sent_one)
qed

lemma silent_lift_sum: "silent (lift_sum x)"
  by (auto simp: silent_def lift_sum_def throw_def ret_def split: sum.splits)

lemma silent_field: "silent (field api get root key)"
  by (simp add: field_eq silent_lift_sum)

lemma silent_ret: "silent (ret a)"
  by (simp add: silent_def ret_def)

lemma silent_if: "silent m \<Longrightarrow> silent n \<Longrightarrow> silent (if b then m else n)"
  by simp

lemmas sends_intros = sends_once_bind sends_once_send silent_lift_sum silent_field silent_ret silent_if

lemma forward_attempt_sends_once: "sends_once (forward_attempt env payload)"
  unfolding forward_attempt_def Let_def
  by (intro sends_intros)
     (auto simp: sends_once_def tcp_do_def tcp_send_def quiet_def sent_one_def
       split: prod.splits sum.splits)

lemma failing_quiet:
  "sends_once func \<Longrightarrow> failing func (gw_pause env d) n s t \<Longrightarrow> quiet (tcp s) (tcp t)"
proof (induction n arbitrary: s)
  case (Suc n)
  then obtain e u where u: "func s = (Exc e, u)" "failing func (gw_pause env d) n (gw_pause env d u) t"
    by (auto split: prod.splits outcome.splits)
  have "quiet (tcp s) (tcp u)" using sends_onceD [OF Suc.prems(1) u(1)] by simp
  moreover have "quiet (tcp u) (tcp t)"
    using Suc.IH [OF Suc.prems(1) u(2)] by (simp add: gw_pause_def)
  ultimately show ?case by (rule quiet_trans)
qed simp

lemma sends_once_retry:
  assumes "sends_once func"
  shows "sends_once (execute_with_retry_void (gw_pause env) n d func)"
  unfolding sends_once_def
proof (intro allI impI)
  fix s r t
  assume "execute_with_retry_void (gw_pause env) n d func s = (r, t)"
  then obtain k u where u: "failing func (gw_pause env d) k s u" "func u = (r, t)"
    by (auto simp: execute_with_retry_void_eq execute_with_retry_def retry_loop_result)
  from failing_quiet [OF assms u(1)] sends_onceD [OF assms u(2)]
  show "quiet (tcp s) (tcp t) \<or> (\<exists>a. r = Ret a) \<and> sent_one (tcp s) (tcp t)"
    by (blast intro: quiet_trans quiet_sent_one)
qed

lemma sends_once_if: "sends_once m \<Longrightarrow> sends_once n \<Longrightarrow> sends_once (if b then m else n)"
  by simp

lemma sends_once_option:
  "sends_once m \<Longrightarrow> (\<And>y. sends_once (f y)) \<Longrightarrow> sends_once (case x of None \<Rightarrow> m | Some y \<Rightarrow> f y)"
  by (cases x) simp_all

lemma parse_and_route_sends_once: "sends_once (parse_and_route env raw)"
  unfolding parse_and_route_def forward_to_logic_def
  by (intro sends_intros sends_once_if sends_once_option sends_once_retry
      forward_attempt_sends_once)

lemma on_read_sends_once:
  assumes "on_read env now (Some chunk) s = (r, t)"
  shows "quiet (tcp s) (tcp t) \<or> sent_one (tcp s) (tcp t)"
proof -
  define s1 where "s1 = s\<lparr>tcp := (tcp s)\<lparr>reading := False, last_active := now\<rparr>\<rparr>"
  obtain q u where p: "parse_and_route env chunk s1 = (q, u)" by fastforce
  have "quiet (tcp s) (tcp s1)" by (simp add: s1_def quiet_def)
  moreover have "quiet (tcp s1) (tcp u) \<or> sent_one (tcp s1) (tcp u)"
    using sends_onceD [OF parse_and_route_sends_once p] by blast
  moreover have "quiet (tcp u) (tcp t)"
    using assms p
    by (auto simp: on_read_def bind_comp_def tcp_do_def quiet_def s1_def split: outcome.splits)
  ultimately show ?thesis by (blast intro: quiet_trans quiet_sent_one)
qed

subsection \<open>A patient client\<close>

text \<open>
  At most the last write is not transmitted; it was started on the present block, whose
  bytes are its text, and the client has all earlier texts and what was taken of this one.
\<close>

definition in_transit :: "'w wire \<Rightarrow> bool" where
  "in_transit w \<longleftrightarrow>
     (\<exists>ps p ms m. pending w = ps @ [p] \<and> (\<forall>q \<in> set ps. transmitted q) \<and>
        started (tcp (gate w)) = ms @ [m] \<and> wr_block p = blk_no (block w) \<and>
        wr_from p \<le> wr_end p \<and> wr_end p = length m \<and> take (length m) (blk_mem (block w)) = m \<and>
        received w = concat ms @ take (wr_from p) m)"

definition served :: "'w wire \<Rightarrow> bool" where
  "served w \<longleftrightarrow>
     prefix (received w) (concat (started (tcp (gate w)))) \<and>
     (is_stopped (tcp (gate w)) \<or> in_transit w \<or>
      (\<forall>p \<in> set (pending w). transmitted p) \<and>
        received w = concat (started (tcp (gate w))))"

lemma in_transit_done:
  "in_transit w \<Longrightarrow> \<forall>p \<in> set (pending w). transmitted p \<Longrightarrow>
     received w = concat (started (tcp (gate w)))"
  by (auto simp: in_transit_def transmitted_def)

lemma take_assign_text: "take (length msg) (blk_mem (assign_text grow msg b)) = msg"
  by (simp add: assign_text_def)

lemma served_cong:
  assumes "served w" "quiet (tcp (gate w)) (tcp s)"
  shows "served (w\<lparr>gate := s\<rparr>)"
  using assms by (simp add: served_def in_transit_def quiet_def)

lemma served_stopped:
  assumes "served w" "is_stopped c" "started c = started (tcp (gate w))"
  shows "served (w\<lparr>gate := (gate w)\<lparr>tcp := c\<rparr>, pending := ps\<rparr>)"
  using assms by (simp add: served_def)

lemma served_sent:
  assumes "\<forall>p \<in> set (pending w). transmitted p" "received w = concat (started (tcp (gate w)))"
    and "started (tcp s) = started (tcp (gate w)) @ [msg]"
  shows "served (after_handler grow s w)"
proof -
  let ?w = "start_write grow msg (w\<lparr>gate := s\<rparr>)"
  have "in_transit ?w"
    unfolding in_transit_def
    by (intro exI [of _ "pending w"] exI [of _ "last (pending ?w)"]
        exI [of _ "started (tcp (gate w))"] exI [of _ msg])
      (use assms in \<open>simp add: start_write_def Let_def take_assign_text\<close>)
  moreover have "received ?w = received w" "gate ?w = s" by (simp_all add: start_write_def Let_def)
  ultimately have "served ?w" using assms by (simp add: served_def)
  moreover have "after_handler grow s w = ?w" using assms(3) by (simp add: after_handler_def)
  ultimately show ?thesis by simp
qed

lemma served_arrived:
  assumes "served w" "\<forall>p \<in> set (pending w). transmitted p"
    and "on_read env now (Some chunk) (gate w) = (r, s)"
  shows "served (after_handler grow s w)"
  using on_read_sends_once [OF assms(3)]
proof
  assume q: "quiet (tcp (gate w)) (tcp s)"
  then have "after_handler grow s w = w\<lparr>gate := s\<rparr>"
    by (simp add: after_handler_def quiet_def)
  then show ?thesis using served_cong [OF assms(1) q] by simp
next
  assume o: "sent_one (tcp (gate w)) (tcp s)"
  then have "received w = concat (started (tcp (gate w)))"
    using assms(1,2) in_transit_done [of w] by (auto simp: served_def sent_one_def)
  with o assms(2) show ?thesis by (auto simp: sent_one_def intro: served_sent)
qed

lemma served_transmit:
  assumes "served w" "i < length (pending w)" "p = pending w ! i" "\<not> is_stopped (tcp (gate w))"
    and "0 < n" "wr_from p + n \<le> wr_end p"
    and "wr_block p = blk_no (block w) \<Longrightarrow> bytes = substr (blk_mem (block w)) (wr_from p) n"
  shows "served (w\<lparr>pending := (pending w)[i := p\<lparr>wr_from := wr_from p + n\<rparr>],
                   received := received w @ bytes\<rparr>)"
    (is "served ?w")
proof -
  have "\<not> transmitted p" "p \<in> set (pending w)" using assms(2,3,5,6) by (auto simp: transmitted_def)
  then obtain ps q ms m where q: "pending w = ps @ [q]" "\<forall>q \<in> set ps. transmitted q"
    "started (tcp (gate w)) = ms @ [m]" "wr_block q = blk_no (block w)" "wr_end q = length m"
    "take (length m) (blk_mem (block w)) = m" "received w = concat ms @ take (wr_from q) m"
    using assms(1,4) by (auto simp: served_def in_transit_def)
  have i: "i = length ps"
  proof (rule ccontr)
    assume "i \<noteq> length ps"
    then have "p \<in> set ps" using assms(2,3) q(1) by (simp add: nth_append)
    then show False using q(2) \<open>\<not> transmitted p\<close> by blast
  qed
  then have p: "p = q" using assms(3) q(1) by simp
  have "take n (drop (wr_from p) (take (length m) (blk_mem (block w)))) =
      take n (drop (wr_from p) (blk_mem (block w)))"
    using assms(6) q(5) p by (simp add: drop_take min_def)
  then have "take n (drop (wr_from p) m) = bytes"
    using assms(7) q(4,6) p by (simp add: substr_def)
  then have b: "take (wr_from p) m @ bytes = take (wr_from p + n) m" by (simp add: take_add)
  have "in_transit ?w"
    unfolding in_transit_def
    by (intro exI [of _ ps] exI [of _ "p\<lparr>wr_from := wr_from p + n\<rparr>"] exI [of _ ms] exI [of _ m])
       (use q i p b assms(6) in \<open>simp add: list_update_append\<close>)
  moreover have "prefix (received ?w) (concat (started (tcp (gate ?w))))"
    using q p b take_is_prefix [of "wr_from p + n" m] by simp
  ultimately show ?thesis by (simp add: served_def)
qed

lemma served_written:
  assumes "served w" "i < length (pending w)" "ok \<Longrightarrow> transmitted (pending w ! i)"
  shows "served (on_conn (on_written ok)
                  (w\<lparr>pending := take i (pending w) @ drop (Suc i) (pending w)\<rparr>))"
    (is "served ?w")
proof (cases "ok \<and> \<not> is_stopped (tcp (gate w))")
  case False
  then have "is_stopped (tcp (gate ?w))"
    by (auto simp: on_conn_def on_written_def Let_def tcp_stop_def)
  moreover have "started (tcp (gate ?w)) = started (tcp (gate w))" "received ?w = received w"
    by (simp_all add: on_conn_def on_written_def Let_def tcp_stop_def)
  ultimately show ?thesis using assms(1) by (simp add: served_def)
next
  case True
  have sub: "set (pending ?w) \<subseteq> set (pending w)"
    by (auto simp: on_conn_def dest: in_set_takeD in_set_dropD)
  have same: "started (tcp (gate ?w)) = started (tcp (gate w))" "received ?w = received w"
    "block ?w = block w" "pending ?w = take i (pending w) @ drop (Suc i) (pending w)"
    using True by (simp_all add: on_conn_def on_written_def Let_def)
  have "in_transit ?w \<or> (\<forall>p \<in> set (pending ?w). transmitted p) \<and>
          received ?w = concat (started (tcp (gate ?w)))"
  proof (cases "\<forall>p \<in> set (pending w). transmitted p")
    case everything: True
    then have "received w = concat (started (tcp (gate w)))"
      using assms(1) True in_transit_done [of w] by (auto simp: served_def)
    with everything sub same show ?thesis by (metis subsetD)
  next
    case False
    then obtain ps p ms m where p: "pending w = ps @ [p]" "\<forall>q \<in> set ps. transmitted q"
      "started (tcp (gate w)) = ms @ [m]" "wr_block p = blk_no (block w)" "wr_from p \<le> wr_end p"
      "wr_end p = length m" "take (length m) (blk_mem (block w)) = m"
      "received w = concat ms @ take (wr_from p) m"
      using assms(1) True by (auto simp: served_def in_transit_def)
    have "i \<noteq> length ps"
    proof
      assume "i = length ps"
      then have "transmitted p" using assms(3) True p(1) by simp
      with False p(1,2) show False by auto
    qed
    then have "i < length ps" using assms(2) p(1) by simp
    then have "pending ?w = (take i ps @ drop (Suc i) ps) @ [p]" using same(4) p(1) by simp
    moreover have "\<forall>q \<in> set (take i ps @ drop (Suc i) ps). transmitted q"
      using p(2) by (auto dest: in_set_takeD in_set_dropD)
    ultimately have "in_transit ?w"
      unfolding in_transit_def same using p(3-8) by blast
    then show ?thesis ..
  qed
  with assms(1) same show ?thesis by (simp add: served_def)
qed

lemma served_step:
  assumes "wire_step env grow True w w'" "served w"
  shows "served w'"
  using assms
proof (induction rule: wire_step.induct)
  case (arrived w chunk now r s)
  then show ?case by (blast intro: served_arrived)
next
  case (read_failed w now r s)
  then have s: "s = gate w\<lparr>tcp := tcp_stop (tcp (gate w)\<lparr>reading := False\<rparr>)\<rparr>"
    by (simp add: on_read_def tcp_do_def)
  then have "started (tcp s) = started (tcp (gate w))" "is_stopped (tcp s)"
    by (simp_all add: tcp_stop_def)
  with read_failed.prems show ?case by (simp add: after_handler_def served_def)
next
  case (timer w d now)
  let ?c = "on_timer now (tcp (gate w))"
  have started: "started ?c = started (tcp (gate w))"
    by (simp add: on_timer_def Let_def tcp_stop_def check_heartbeat_def)
  show ?case
  proof (cases "is_stopped ?c")
    case True
    then show ?thesis using timer.prems started by (simp add: served_def on_conn_def)
  next
    case False
    then have "is_stopped ?c = is_stopped (tcp (gate w))"
      by (auto simp: on_timer_def Let_def tcp_stop_def check_heartbeat_def split: if_splits)
    then have "quiet (tcp (gate w)) (tcp (gate w\<lparr>tcp := ?c\<rparr>))" using started by (simp add: quiet_def)
    from served_cong [OF timer.prems this] show ?thesis by (simp add: on_conn_def)
  qed
next
  case (transmit i w p n bytes)
  then show ?case by (intro served_transmit) auto
next
  case (written i w ok)
  then show ?case by (intro served_written) auto
next
  case (elsewhere w u)
  then show ?case using served_cong [of w "gate w\<lparr>net := u\<rparr>"] by simp
qed

lemma served_reach: "wire_reach env grow True v w \<Longrightarrow> served v \<Longrightarrow> served w"
  by (induction rule: rtranclp_induct) (auto intro: served_step)

lemma served_fresh: "served (fresh_wire now b u)"
  by (simp add: served_def fresh_wire_def tcp_start_def new_conn_def check_heartbeat_def)

text \<open>What is left of the last write can be transmitted in one go.\<close>

lemma served_completes:
  assumes "served w" "\<not> is_stopped (tcp (gate w))"
  shows "\<exists>w'. wire_reach env grow patient w w' \<and> gate w' = gate w \<and>
           received w' = concat (started (tcp (gate w)))"
proof (cases "\<forall>p \<in> set (pending w). transmitted p")
  case True
  then have "received w = concat (started (tcp (gate w)))"
    using assms in_transit_done [of w] by (auto simp: served_def)
  then show ?thesis by blast
next
  case False
  then obtain ps p ms m where p: "pending w = ps @ [p]" "\<forall>q \<in> set ps. transmitted q"
    "started (tcp (gate w)) = ms @ [m]" "wr_block p = blk_no (block w)" "wr_from p \<le> wr_end p"
    "wr_end p = length m" "take (length m) (blk_mem (block w)) = m"
    "received w = concat ms @ take (wr_from p) m"
    using assms by (auto simp: served_def in_transit_def)
  then have less: "wr_from p < length m" using False by (auto simp: transmitted_def)
  let ?n = "length m - wr_from p"
  let ?w = "w\<lparr>pending := (pending w)[length ps := p\<lparr>wr_from := wr_from p + ?n\<rparr>],
              received := received w @ drop (wr_from p) m\<rparr>"
  have bytes: "drop (wr_from p) m = substr (blk_mem (block w)) (wr_from p) ?n"
    using p(7) by (metis drop_take substr_def)
  have "wire_step env grow patient w ?w"
  proof (rule wire_step.transmit)
    show "length ps < length (pending w)" "p = pending w ! length ps" using p(1) by simp_all
    show "0 < ?n" "wr_from p + ?n \<le> wr_end p" using less p(6) by simp_all
    show "length (drop (wr_from p) m) = ?n" by simp
  qed (use assms(2) bytes in \<open>auto simp del: length_drop\<close>)
  moreover have "received ?w = concat (started (tcp (gate w)))" using p(3,8) by simp
  ultimately show ?thesis by (intro exI [of _ ?w]) auto
qed

text \<open>
  C10. A client that waits for its answers gets them: whatever chunks it sends, however the
  operating system splits the writes and whenever the connection ends, what it has received
  is a beginning of the answers in the order they were given, no byte changed; and as long
  as the connection is open the rest of the last answer can follow.
\<close>

theorem patient_client_in_order:
  assumes "wire_reach env grow True (fresh_wire now b u) w"
  shows "prefix (received w) (concat (started (tcp (gate w)))) \<and>
         (\<not> is_stopped (tcp (gate w)) \<longrightarrow>
            (\<exists>w'. wire_reach env grow True w w' \<and> gate w' = gate w \<and>
               received w' = concat (started (tcp (gate w)))))"
proof -
  from assms served_fresh have s: "served w" by (rule served_reach)
  then have "prefix (received w) (concat (started (tcp (gate w))))" by (simp add: served_def)
  with served_completes [OF s] show ?thesis by blast
qed

lemma ping_read:
  "on_read env now (Some ''PING'') \<lparr>tcp = c, net = u\<rparr> =
     (Ret (), \<lparr>tcp = (tcp_send (''PONG'' @ [CHR 0x0A]) (c\<lparr>reading := False, last_active := now\<rparr>))
                 \<lparr>reading := True\<rparr>, net = u\<rparr>)"
  using ping_swallows_message [of env "[]" "[]"]
  by (simp add: on_read_def bind_comp_def tcp_do_def)

definition demo_block :: text_block where
  "demo_block = \<lparr>blk_no = 0, blk_cap = 15, blk_mem = replicate 16 (CHR 0x00)\<rparr>"

theorem patient_client_in_order_witness:
  "\<exists>w. wire_reach toy_gateway max True (fresh_wire 0 demo_block 0) w \<and>
     started (tcp (gate w)) = [''PONG'' @ [CHR 0x0A]] \<and>
     received w = ''PONG'' @ [CHR 0x0A]"
proof -
  let ?v = "fresh_wire 0 demo_block 0 :: nat wire"
  obtain s where s: "on_read toy_gateway 1 (Some ''PING'') (gate ?v) = (Ret (), s)"
    "started (tcp s) = [''PONG'' @ [CHR 0x0A]]" "\<not> is_stopped (tcp s)"
    by (simp add: fresh_wire_def ping_read tcp_send_def tcp_start_def new_conn_def check_heartbeat_def)
  have "wire_step toy_gateway max True ?v (after_handler max s ?v)"
    by (rule wire_step.arrived [OF _ _ _ _ s(1)])
       (simp_all add: fresh_wire_def tcp_start_def new_conn_def check_heartbeat_def)
  then have r: "wire_reach toy_gateway max True ?v (after_handler max s ?v)" by blast
  have g: "gate (after_handler max s ?v) = s"
    using s(2)
    by (simp add: after_handler_def start_write_def Let_def fresh_wire_def tcp_start_def
        new_conn_def check_heartbeat_def)
  obtain w where "wire_reach toy_gateway max True (after_handler max s ?v) w"
    "gate w = s" "received w = concat (started (tcp s))"
    using patient_client_in_order [OF r] s(3) g by auto
  with r s(2) show ?thesis by (intro exI [of _ w]) (auto intro: rtranclp_trans)
qed

subsection \<open>A client that does not wait\<close>

lemma after_handler_sent:
  "started (tcp s) = started (tcp (gate w)) @ [msg] \<Longrightarrow>
     after_handler grow s w = start_write grow msg (w\<lparr>gate := s\<rparr>)"
  by (simp add: after_handler_def)

lemma on_read_Ret_reading:
  "on_read env now (Some chunk) s = (Ret (), t) \<Longrightarrow> reading (tcp t)"
  by (auto simp: on_read_def bind_comp_def tcp_do_def split: outcome.splits prod.splits)

text \<open>The first range read back after the second text was put in its place.\<close>

lemma overwritten:
  assumes "take (length m1) mem = m1"
  shows "take (length m1) (m2 @ [CHR 0x00] @ drop (length m2 + 1) mem) =
         take (length m1) (m2 @ [CHR 0x00] @ drop (length m2 + 1) m1)"
proof -
  have "take (length m1 - (length m2 + 1)) (drop (length m2 + 1) mem) = drop (length m2 + 1) m1"
    using assms by (metis drop_take)
  then show ?thesis by (auto simp: take_Cons' split: nat.splits)
qed

text \<open>
  C24. A second message handled before the answer to the first one has been taken by the
  operating system can destroy that answer. When the second answer fits the buffer it is
  written over the first, and there is a run in which the client receives, where the first
  answer was due, the second's bytes (and, if the second is shorter, a zero and the tail of
  the first), then the second answer. When it does not fit, the string moves to a new block,
  the first write goes on from freed memory, and for any bytes \<open>g\<close> of that length there is a
  run in which the client receives them in place of the first answer. For the server both
  writes succeed.
\<close>

theorem overlapping_answers_garbled:
  assumes "pending w = []" "reading (tcp (gate w))"
    and "c1 \<noteq> []" "length c1 \<le> 1024" "on_read env now1 (Some c1) (gate w) = (Ret (), s1)"
    and "started (tcp s1) = started (tcp (gate w)) @ [m1]" "m1 \<noteq> []"
    and "c2 \<noteq> []" "length c2 \<le> 1024" "on_read env now2 (Some c2) s1 = (Ret (), s2)"
    and "started (tcp s2) = started (tcp s1) @ [m2]" "m2 \<noteq> []"
    and "length g = length m1"
    and "length m2 \<le> blk_cap (assign_text grow m1 (block w)) \<Longrightarrow>
           g = take (length m1) (m2 @ [CHR 0x00] @ drop (length m2 + 1) m1)"
  shows "\<exists>w'. wire_reach env grow False w w' \<and> started (tcp (gate w')) = started (tcp s2) \<and>
           \<not> is_stopped (tcp (gate w')) \<and> pending w' = [] \<and> received w' = received w @ g @ m2"
proof -
  let ?b = "assign_text grow m1 (block w)"
  let ?b2 = "assign_text grow m2 ?b"
  let ?p1 = "\<lparr>wr_block = blk_no ?b, wr_from = 0, wr_end = length m1\<rparr>"
  let ?p2 = "\<lparr>wr_block = blk_no ?b2, wr_from = 0, wr_end = length m2\<rparr>"
  let ?w1 = "w\<lparr>gate := s1, block := ?b, pending := [?p1]\<rparr>"
  let ?w2 = "w\<lparr>gate := s2, block := ?b2, pending := [?p1, ?p2]\<rparr>"
  let ?w3 = "?w2\<lparr>pending := [?p1\<lparr>wr_from := length m1\<rparr>, ?p2], received := received w @ g\<rparr>"
  let ?w4 = "?w2\<lparr>pending := [?p1\<lparr>wr_from := length m1\<rparr>, ?p2\<lparr>wr_from := length m2\<rparr>],
      received := received w @ g @ m2\<rparr>"
  let ?w5 = "on_conn (on_written True) (?w4\<lparr>pending := [?p2\<lparr>wr_from := length m2\<rparr>]\<rparr>)"
  let ?w6 = "on_conn (on_written True) (?w5\<lparr>pending := []\<rparr>)"
  have live: "\<not> is_stopped (tcp s2)"
    using on_read_sends_once [OF assms(10)] assms(11) by (auto simp: quiet_def sent_one_def)
  have g: "g = substr (blk_mem ?b2) 0 (length m1)" if "blk_no ?b = blk_no ?b2"
  proof -
    have fits: "length m2 \<le> blk_cap ?b"
      using that by (auto simp: assign_text_def [of grow m2] split: if_splits)
    then have "blk_mem ?b2 = m2 @ [CHR 0x00] @ drop (length m2 + 1) (blk_mem ?b)"
      by (simp add: assign_text_def [of grow m2])
    moreover have "take (length m1) (m2 @ [CHR 0x00] @ drop (length m2 + 1) (blk_mem ?b)) =
        take (length m1) (m2 @ [CHR 0x00] @ drop (length m2 + 1) m1)"
      by (rule overwritten) (rule take_assign_text)
    ultimately show ?thesis using assms(14) [OF fits] by (simp add: substr_def)
  qed
  let ?step = "wire_step env grow False"
  have "?step w (after_handler grow s1 w)"
    using assms(2-5) by (intro wire_step.arrived) auto
  then have a1: "?step w ?w1"
    using after_handler_sent [OF assms(6)] assms(1) by (simp add: start_write_def Let_def)
  have "?step ?w1 (after_handler grow s2 ?w1)"
    using on_read_Ret_reading [OF assms(5)] assms(8-10)
    by (intro wire_step.arrived [of ?w1 c2 False env now2 "Ret ()" s2]) auto
  then have a2: "?step ?w1 ?w2"
    using after_handler_sent [of s2 ?w1 m2] assms(11) by (simp add: start_write_def Let_def)
  have a3: "?step ?w2 ?w3"
    using wire_step.transmit [of 0 ?w2 ?p1 "length m1" g env grow False] live g assms(7,13) by simp
  have a4: "?step ?w3 ?w4"
    using wire_step.transmit [of 1 ?w3 ?p2 "length m2" m2 env grow False] live assms(12)
      take_assign_text [of m2 grow ?b] by (simp add: substr_def)
  have a5: "?step ?w4 ?w5"
    using wire_step.written [of 0 ?w4 True env grow False] by (simp add: transmitted_def)
  have a6: "?step ?w5 ?w6"
    using wire_step.written [of 0 ?w5 True env grow False]
    by (simp add: transmitted_def on_conn_def)
  have "wire_reach env grow False w ?w6"
    using a1 a2 a3 a4 a5 a6 by (meson rtranclp.rtrancl_refl rtranclp.rtrancl_into_rtrancl)
  then show ?thesis
    using live by (intro exI [of _ ?w6]) (simp add: on_conn_def on_written_def Let_def)
qed

theorem overlapping_answers_garbled_witness:
  "\<exists>w'. wire_reach toy_gateway max False
          (fresh_wire 0 \<lparr>blk_no = 0, blk_cap = 60, blk_mem = []\<rparr> 0) w' \<and>
        started (tcp (gate w')) =
          [''PONG'' @ [CHR 0x0A], error_reply ''400'' ''Invalid JSON protocol''] \<and>
        received w' = take 5 (error_reply ''400'' ''Invalid JSON protocol'') @
          error_reply ''400'' ''Invalid JSON protocol''"
proof -
  let ?v = "fresh_wire 0 \<lparr>blk_no = 0, blk_cap = 60, blk_mem = []\<rparr> 0 :: nat wire"
  let ?m = "error_reply ''400'' ''Invalid JSON protocol''"
  have v: "tcp (gate ?v) = tcp_start 0 (new_conn 0)" "pending ?v = []" "received ?v = []"
    "block ?v = \<lparr>blk_no = 0, blk_cap = 60, blk_mem = []\<rparr>" "reading (tcp (gate ?v))"
    "started (tcp (gate ?v)) = []"
    by (simp_all add: fresh_wire_def tcp_start_def new_conn_def check_heartbeat_def)
  obtain s1 where s1: "on_read toy_gateway 1 (Some ''PING'') (gate ?v) = (Ret (), s1)"
    "started (tcp s1) = [''PONG'' @ [CHR 0x0A]]" "\<not> is_stopped (tcp s1)"
    by (simp add: fresh_wire_def ping_read tcp_send_def tcp_start_def new_conn_def check_heartbeat_def)
  obtain s2 where s2: "on_read toy_gateway 2 (Some ''x'') s1 = (Ret (), s2)"
    "started (tcp s2) = started (tcp s1) @ [?m]"
    using s1(3)
    by (simp add: on_read_def bind_comp_def tcp_do_def parse_and_route_def str_find_def
        toy_gateway_def lift_sum_def ret_def tree_api_def tcp_send_def)
  have l: "length ?m = 46" by (simp add: error_reply_def json_text_def)
  have n: "length (''PONG'' @ [CHR 0x0A]) = 5" by simp
  have g: "length (take 5 ?m) = length (''PONG'' @ [CHR 0x0A])"
    "take 5 ?m = take (length (''PONG'' @ [CHR 0x0A])) (?m @ [CHR 0x00] @ drop (length ?m + 1) (''PONG'' @ [CHR 0x0A]))"
    unfolding n using l by (simp_all only: length_take take_append) simp_all
  show ?thesis
    using overlapping_answers_garbled [OF v(2,5) _ _ s1(1) _ _ _ _ s2(1,2) _ g(1), of max] s1(2) s2(2) v g(2)
    by (auto simp: error_reply_def json_text_def)
qed

subsection \<open>Segments\<close>

text \<open>A chunk that is no JSON by itself and has no PING in it.\<close>

definition fragment :: "('w, 'j) gw_env \<Rightarrow> string \<Rightarrow> bool" where
  "fragment env c \<longleftrightarrow> str_find c ''PING'' 0 = None \<and> json_parse (json env) c = Inr None"

lemma on_read_fragment:
  assumes "fragment env c" "\<not> is_stopped (tcp s)"
  shows "\<exists>d. on_read env now (Some c) s = (Ret (), s\<lparr>tcp := d\<rparr>) \<and> \<not> is_stopped d \<and> reading d \<and>
           started d = started (tcp s) @ [error_reply ''400'' ''Invalid JSON protocol'']"
  using assms
  by (intro exI [of _ "(tcp_send (error_reply ''400'' ''Invalid JSON protocol'')
        (tcp s\<lparr>reading := False, last_active := now\<rparr>))\<lparr>reading := True\<rparr>"])
     (simp add: fragment_def on_read_def parse_and_route_def bind_comp_def tcp_do_def lift_sum_def
       ret_def tcp_send_def)

text \<open>
  C25. What arrives in pieces is never put together: there is no buffer between two reads, so a
  message that the network cuts into pieces none of which the parser accepts by itself, and
  none of which has PING in it, is answered with one error line for every piece, and none of
  it reaches the logic service. (The parser accepts a piece that begins with a value of its
  own, a number or a text in quotes: for those see \<open>malformed_messages_exit_gateway\<close>.)
\<close>

theorem segments_not_joined:
  assumes "\<forall>c \<in> set chunks. fragment env (snd c)" "0 < live p"
    and "\<not> is_stopped (conns p i)" "reading (conns p i)"
  shows "\<exists>p'. complete_reads env (map (\<lambda>(now, c). (i, now, c)) chunks) p = Some p' \<and>
           proc_net p' = proc_net p \<and> live p' = live p \<and>
           started (conns p' i) = started (conns p i) @
             replicate (length chunks) (error_reply ''400'' ''Invalid JSON protocol'')"
  using assms
proof (induction chunks arbitrary: p)
  case Nil
  then show ?case by simp
next
  case (Cons ch chunks)
  obtain now c where ch: "ch = (now, c)" by fastforce
  obtain d where d: "on_read env now (Some c) \<lparr>tcp = conns p i, net = proc_net p\<rparr> =
      (Ret (), \<lparr>tcp = d, net = proc_net p\<rparr>)" "\<not> is_stopped d" "reading d"
    "started d = started (conns p i) @ [error_reply ''400'' ''Invalid JSON protocol'']"
    using on_read_fragment [of env c "\<lparr>tcp = conns p i, net = proc_net p\<rparr>" now] Cons.prems ch by auto
  let ?p = "p\<lparr>conns := (conns p)(i := d)\<rparr>"
  have "complete_read env i now c p = Some ?p"
    using d Cons.prems(2,4) by (simp add: complete_read_def)
  moreover obtain p' where "complete_reads env (map (\<lambda>(now, c). (i, now, c)) chunks) ?p = Some p'"
    "proc_net p' = proc_net p" "live p' = live p"
    "started (conns p' i) = started (conns ?p i) @
       replicate (length chunks) (error_reply ''400'' ''Invalid JSON protocol'')"
    using Cons.IH [of ?p] Cons.prems d by auto
  ultimately show ?case using ch d(4) by simp
qed

theorem segments_not_joined_witness:
  "\<exists>p'. complete_reads toy_gateway [(0, 1, ''{''), (0, 2, ''}'')]
     \<lparr>live = 1, conns = (\<lambda>i. tcp_start 0 (new_conn 0)), proc_net = 0\<rparr> = Some p' \<and> proc_net p' = 0 \<and>
     started (conns p' 0) = replicate 2 (error_reply ''400'' ''Invalid JSON protocol'')"
proof -
  let ?p = "\<lparr>live = 1, conns = (\<lambda>i. tcp_start 0 (new_conn 0)), proc_net = 0\<rparr> :: nat process"
  have f: "\<forall>c \<in> set [(1, ''{''), (2, ''}'')]. fragment toy_gateway (snd c)"
    by (simp add: fragment_def toy_gateway_def str_find_def tree_api_def)
  have p: "0 < live ?p" "\<not> is_stopped (conns ?p 0)" "reading (conns ?p 0)" "started (conns ?p 0) = []"
    by (simp_all add: tcp_start_def new_conn_def check_heartbeat_def)
  from segments_not_joined [OF f p(1-3)] p(4) show ?thesis by (auto simp: numeral_2_eq_2)
qed

end
