(* ===== verification/Gateway_Threads.thy ===== *)
theory Gateway_Threads
  imports Gateway_Writes
begin

section \<open>A connection of the gateway under concurrent threads\<close>

text \<open>
  All threads of the pool run the same \<open>io_context\<close>, and the handlers of a \<open>TcpConnection\<close> are
  not bound to a strand: the handler of a read, that of the timer and those of writes may run
  at the same time on different threads. Theory \<open>Gateway\<close> takes a handler as one function;
  here it is split at every access to an atomic member and every call on the socket and on
  the timer, and the threads interleave.
\<close>

subsection \<open>Threads and steps\<close>

text \<open>
  What a thread does next. \<open>Starting\<close>: \<open>DoRead\<close> of \<open>Start\<close>; \<open>Received t\<close>: store the time in
  \<open>last_active_time_\<close>; \<open>Routing\<close>: \<open>ParseAndRouteMessage\<close> up to the test of \<open>is_stopped_\<close> in
  \<open>Send\<close>; \<open>Sending\<close>: \<open>write_msg_\<close> and \<open>async_write\<close>; \<open>Rereading\<close>: \<open>DoRead\<close>; \<open>Expired\<close>: the
  test of \<open>is_stopped_\<close> in the timer's handler; \<open>Comparing t\<close>: load the last time and
  compare; \<open>Rechecking\<close>: the test in \<open>CheckHeartbeat\<close>; \<open>Arming\<close>: \<open>expires_after\<close> and
  \<open>async_wait\<close>; \<open>Continuing\<close>: the part of \<open>async_write\<close> that starts the write of the rest when the
  system took only some of the bytes, which asio runs on a thread of the pool; \<open>Swapping\<close>: the \<open>compare_exchange_strong\<close> of \<open>Stop\<close>; \<open>Cancelling\<close> and
  \<open>Closing\<close>: its calls on the timer and on the socket. \<open>Gone\<close>: a handler threw.
\<close>

datatype job =
  Free | Gone
| Starting
| Received int | Routing | Sending | Rereading | Continuing
| Expired | Comparing int | Rechecking | Arming
| Swapping | Cancelling | Closing

datatype read_state = NoRead | Waiting | HasData
datatype timer_state = Unarmed | Armed | Aborted

record conn_threads =
  ct_stopped :: bool
  ct_last :: int
  ct_read :: read_state
  ct_timer :: timer_state
  ct_writes :: nat
  ct_ready :: nat
  ct_open :: bool
  ct_closes :: nat
  ct_jobs :: "job list"

text \<open>
  \<open>ct_writes\<close> counts the writes that wait for the system, \<open>ct_ready\<close> those of which it took a part
  and whose continuation waits for a thread. The step of a thread: what it does to the connection and its next job. \<open>sends\<close> says
  whether the message is answered, \<open>throws\<close> whether its handling throws.
\<close>

fun job_step ::
  "bool \<Rightarrow> bool \<Rightarrow> job \<Rightarrow> conn_threads \<Rightarrow> (job \<times> conn_threads) option" where
  "job_step sends throws Starting s = Some (Rechecking, s\<lparr>ct_read := Waiting\<rparr>)"
| "job_step sends throws (Received now) s = Some (Routing, s\<lparr>ct_last := now\<rparr>)"
| "job_step sends throws Routing s =
     Some (if throws then Gone else if sends \<and> \<not> ct_stopped s then Sending else Rereading, s)"
| "job_step sends throws Sending s = Some (Rereading, s\<lparr>ct_writes := ct_writes s + 1\<rparr>)"
| "job_step sends throws Rereading s = Some (Free, s\<lparr>ct_read := Waiting\<rparr>)"
| "job_step sends throws Continuing s = Some (Free, s\<lparr>ct_writes := ct_writes s + 1\<rparr>)"
| "job_step sends throws (Comparing now) s =
     Some (if now - ct_last s > heartbeat_timeout then Swapping else Rechecking, s)"
| "job_step sends throws Rechecking s = Some (if ct_stopped s then Free else Arming, s)"
| "job_step sends throws Arming s = Some (Free, s\<lparr>ct_timer := Armed\<rparr>)"
| "job_step sends throws Swapping s =
     Some (if ct_stopped s then (Free, s) else (Cancelling, s\<lparr>ct_stopped := True\<rparr>))"
| "job_step sends throws Cancelling s =
     Some (Closing, if ct_timer s = Armed then s\<lparr>ct_timer := Aborted\<rparr> else s)"
| "job_step sends throws Closing s =
     Some (Free, s\<lparr>ct_open := False, ct_closes := ct_closes s + 1\<rparr>)"
| "job_step sends throws _ s = None"

text \<open>
  The steps: data arrives while the socket is open; a free thread takes the handler of a read
  that has data or failed, of the timer when it fired or was aborted, of a write that ended;
  the system takes a part of a write while the socket is open, and a free thread takes its
  continuation; the timer's
  handler reads the clock after its test of \<open>is_stopped_\<close>; a busy thread goes on.
\<close>

inductive conn_step :: "conn_threads \<Rightarrow> conn_threads \<Rightarrow> bool" where
  data: "ct_read s = Waiting \<Longrightarrow> ct_open s \<Longrightarrow> conn_step s (s\<lparr>ct_read := HasData\<rparr>)"
| got: "i < length (ct_jobs s) \<Longrightarrow> ct_jobs s ! i = Free \<Longrightarrow> ct_read s = HasData \<Longrightarrow>
     conn_step s (s\<lparr>ct_read := NoRead, ct_jobs := (ct_jobs s)[i := Received now]\<rparr>)"
| broken: "i < length (ct_jobs s) \<Longrightarrow> ct_jobs s ! i = Free \<Longrightarrow> ct_read s = Waiting \<Longrightarrow>
     conn_step s (s\<lparr>ct_read := NoRead, ct_jobs := (ct_jobs s)[i := Swapping]\<rparr>)"
| fired: "i < length (ct_jobs s) \<Longrightarrow> ct_jobs s ! i = Free \<Longrightarrow> ct_timer s = Armed \<Longrightarrow>
     conn_step s (s\<lparr>ct_timer := Unarmed, ct_jobs := (ct_jobs s)[i := Expired]\<rparr>)"
| aborted: "i < length (ct_jobs s) \<Longrightarrow> ct_jobs s ! i = Free \<Longrightarrow> ct_timer s = Aborted \<Longrightarrow>
     conn_step s (s\<lparr>ct_timer := Unarmed\<rparr>)"
| sent: "i < length (ct_jobs s) \<Longrightarrow> ct_jobs s ! i = Free \<Longrightarrow> 0 < ct_writes s \<Longrightarrow>
     conn_step s (s\<lparr>ct_writes := ct_writes s - 1\<rparr>)"
| unsent: "i < length (ct_jobs s) \<Longrightarrow> ct_jobs s ! i = Free \<Longrightarrow> 0 < ct_writes s \<Longrightarrow>
     conn_step s (s\<lparr>ct_writes := ct_writes s - 1, ct_jobs := (ct_jobs s)[i := Swapping]\<rparr>)"
| part: "0 < ct_writes s \<Longrightarrow> ct_open s \<Longrightarrow>
     conn_step s (s\<lparr>ct_writes := ct_writes s - 1, ct_ready := ct_ready s + 1\<rparr>)"
| rest: "i < length (ct_jobs s) \<Longrightarrow> ct_jobs s ! i = Free \<Longrightarrow> 0 < ct_ready s \<Longrightarrow>
     conn_step s (s\<lparr>ct_ready := ct_ready s - 1, ct_jobs := (ct_jobs s)[i := Continuing]\<rparr>)"
| tested: "i < length (ct_jobs s) \<Longrightarrow> ct_jobs s ! i = Expired \<Longrightarrow>
     conn_step s (s\<lparr>ct_jobs := (ct_jobs s)[i := if ct_stopped s then Free else Comparing now]\<rparr>)"
| busy: "i < length (ct_jobs s) \<Longrightarrow> job_step sends throws (ct_jobs s ! i) s = Some (j, t) \<Longrightarrow>
     conn_step s (t\<lparr>ct_jobs := (ct_jobs s)[i := j]\<rparr>)"

inductive_cases conn_stepE: "conn_step s t"

text \<open>
  The connection when the accept handler calls \<open>DoRead\<close> of \<open>Start\<close> on one of the \<open>n\<close> threads.
\<close>

definition accepted_at :: "int \<Rightarrow> nat \<Rightarrow> conn_threads" where
  "accepted_at now n =
     \<lparr>ct_stopped = False, ct_last = now, ct_read = NoRead, ct_timer = Unarmed, ct_writes = 0,
      ct_ready = 0, ct_open = True, ct_closes = 0, ct_jobs = Starting # replicate (n - 1) Free\<rparr>"

inductive interleaved :: "int \<Rightarrow> nat \<Rightarrow> conn_threads \<Rightarrow> bool" for now0 n where
  accepted: "interleaved now0 n (accepted_at now0 n)"
| stepped: "interleaved now0 n s \<Longrightarrow> conn_step s t \<Longrightarrow> interleaved now0 n t"

subsection \<open>Counting threads\<close>

definition tally :: "(job \<Rightarrow> bool) \<Rightarrow> job list \<Rightarrow> nat" where
  "tally P js = length (filter P js)"

lemma tally_simps [simp]: "tally P [] = 0" "tally P (j # js) = of_bool (P j) + tally P js"
  by (simp_all add: tally_def)

lemma tally_update:
  "i < length js \<Longrightarrow> tally P (js[i := j]) + of_bool (P (js ! i)) = tally P js + of_bool (P j)"
proof (induction js arbitrary: i)
  case (Cons k js)
  then show ?case by (cases i) auto
qed simp

lemma tally_replicate [simp]: "\<not> P j \<Longrightarrow> tally P (replicate n j) = 0"
  by (simp add: tally_def)

lemma tally_pos: "i < length js \<Longrightarrow> P (js ! i) \<Longrightarrow> 0 < tally P js"
  by (auto simp: tally_def length_greater_0_conv filter_empty_conv)

lemma tally_two:
  "i < length js \<Longrightarrow> j < length js \<Longrightarrow> i \<noteq> j \<Longrightarrow> P (js ! i) \<Longrightarrow> P (js ! j) \<Longrightarrow> 2 \<le> tally P js"
proof (induction js arbitrary: i j)
  case (Cons k js)
  show ?case
  proof (cases i)
    case 0
    then obtain j' where "j = Suc j'" using Cons.prems(3) by (cases j) auto
    with 0 Cons.prems have "P k" "0 < tally P js" by (auto intro: tally_pos)
    then show ?thesis by simp
  next
    case i: (Suc i')
    show ?thesis
    proof (cases j)
      case 0
      with i Cons.prems have "P k" "0 < tally P js" by (auto intro: tally_pos)
      then show ?thesis by simp
    next
      case (Suc j')
      with i Cons.prems have "2 \<le> tally P js" using Cons.IH [of i' j'] by auto
      then show ?thesis by simp
    qed
  qed
qed simp

subsection \<open>One reader, one timer, one that closes\<close>

fun reads :: "job \<Rightarrow> bool" where
  "reads Starting = True" | "reads (Received now) = True" | "reads Routing = True"
| "reads Sending = True" | "reads Rereading = True" | "reads _ = False"

fun beats :: "job \<Rightarrow> bool" where
  "beats Starting = True" | "beats Expired = True" | "beats (Comparing now) = True"
| "beats Rechecking = True" | "beats Arming = True" | "beats _ = False"

fun closes :: "job \<Rightarrow> bool" where
  "closes Cancelling = True" | "closes Closing = True" | "closes _ = False"

definition swaps :: "job \<Rightarrow> bool" where
  "swaps j \<longleftrightarrow> j = Swapping"

lemma swaps_simps [simp]:
  "swaps Swapping" "\<not> swaps Free" "\<not> swaps Gone" "\<not> swaps Starting" "\<not> swaps (Received t)"
  "\<not> swaps Routing" "\<not> swaps Sending" "\<not> swaps Rereading" "\<not> swaps Continuing" "\<not> swaps Expired"
  "\<not> swaps (Comparing t)" "\<not> swaps Rechecking" "\<not> swaps Arming" "\<not> swaps Cancelling" "\<not> swaps Closing"
  by (simp_all add: swaps_def)

text \<open>
  The read of a connection is pending or handled by one thread, and so is the timer; the
  thread whose exchange succeeded, and no other, cancels the timer and closes the socket;
  while the connection is not stopped the timer is armed, being handled, or about to be
  stopped.
\<close>

definition one_reader :: "nat \<Rightarrow> conn_threads \<Rightarrow> bool" where
  "one_reader r s \<longleftrightarrow> r + of_bool (ct_read s \<noteq> NoRead) \<le> 1"

definition one_timer :: "nat \<Rightarrow> conn_threads \<Rightarrow> bool" where
  "one_timer b s \<longleftrightarrow> b + of_bool (ct_timer s \<noteq> Unarmed) \<le> 1"

definition one_close :: "nat \<Rightarrow> conn_threads \<Rightarrow> bool" where
  "one_close c s \<longleftrightarrow>
     ct_closes s + c = of_bool (ct_stopped s) \<and> (ct_open s \<longleftrightarrow> ct_closes s = 0)"

definition watched_by :: "nat \<Rightarrow> nat \<Rightarrow> conn_threads \<Rightarrow> bool" where
  "watched_by b w s \<longleftrightarrow>
     (ct_timer s = Aborted \<longrightarrow> ct_stopped s) \<and>
     (ct_stopped s \<or> ct_timer s \<noteq> Unarmed \<or> 0 < b + w)"

definition one_at_a_time :: "conn_threads \<Rightarrow> bool" where
  "one_at_a_time s \<longleftrightarrow>
     one_reader (tally reads (ct_jobs s)) s \<and> one_timer (tally beats (ct_jobs s)) s \<and>
     one_close (tally closes (ct_jobs s)) s \<and>
     watched_by (tally beats (ct_jobs s)) (tally swaps (ct_jobs s)) s"

lemmas counted_defs = one_reader_def one_timer_def one_close_def watched_by_def

lemma busy_reader:
  assumes "job_step sends throws k s = Some (j, t)" "one_reader r s"
    and "r' + of_bool (reads k) = r + of_bool (reads j)"
  shows "one_reader r' (t\<lparr>ct_jobs := js\<rparr>)"
  using assms by (cases k) (auto simp: one_reader_def split: if_splits)

lemma busy_timer:
  assumes "job_step sends throws k s = Some (j, t)" "one_timer b s"
    and "b' + of_bool (beats k) = b + of_bool (beats j)"
  shows "one_timer b' (t\<lparr>ct_jobs := js\<rparr>)"
  using assms by (cases k) (auto simp: one_timer_def split: if_splits)

lemma busy_close:
  assumes "job_step sends throws k s = Some (j, t)" "one_close c s"
    and "c' + of_bool (closes k) = c + of_bool (closes j)"
  shows "one_close c' (t\<lparr>ct_jobs := js\<rparr>)"
  using assms by (cases k) (auto simp: one_close_def split: if_splits)

lemma busy_watched:
  assumes "job_step sends throws k s = Some (j, t)" "watched_by b w s" "one_close c s"
    "of_bool (closes k) \<le> c"
    and "b' + of_bool (beats k) = b + of_bool (beats j)"
    and "w' + of_bool (swaps k) = w + of_bool (swaps j)"
  shows "watched_by b' w' (t\<lparr>ct_jobs := js\<rparr>)"
  using assms by (cases k) (auto simp: watched_by_def one_close_def of_bool_def split: if_splits)

lemma one_at_a_time_accepted: "one_at_a_time (accepted_at now n)"
  by (simp add: one_at_a_time_def counted_defs accepted_at_def)

text \<open>A step that gives thread \<open>i\<close> the job \<open>j\<close> is checked for each of the four counts.\<close>

lemma one_at_a_time_update:
  assumes "one_at_a_time s" "i < length (ct_jobs s)" "ct_jobs t = (ct_jobs s)[i := j]"
    and "\<And>r r'. one_reader r s \<Longrightarrow> r' + of_bool (reads (ct_jobs s ! i)) = r + of_bool (reads j) \<Longrightarrow>
       one_reader r' t"
    and "\<And>b b'. one_timer b s \<Longrightarrow> b' + of_bool (beats (ct_jobs s ! i)) = b + of_bool (beats j) \<Longrightarrow>
       one_timer b' t"
    and "\<And>c c'. one_close c s \<Longrightarrow> c' + of_bool (closes (ct_jobs s ! i)) = c + of_bool (closes j) \<Longrightarrow>
       one_close c' t"
    and "\<And>b w b' w' c. watched_by b w s \<Longrightarrow> one_close c s \<Longrightarrow>
       of_bool (closes (ct_jobs s ! i)) \<le> c \<Longrightarrow>
       b' + of_bool (beats (ct_jobs s ! i)) = b + of_bool (beats j) \<Longrightarrow>
       w' + of_bool (swaps (ct_jobs s ! i)) = w + of_bool (swaps j) \<Longrightarrow> watched_by b' w' t"
  shows "one_at_a_time t"
proof -
  have "one_reader (tally reads (ct_jobs s)) s" "one_timer (tally beats (ct_jobs s)) s"
    and c: "one_close (tally closes (ct_jobs s)) s"
    and w: "watched_by (tally beats (ct_jobs s)) (tally swaps (ct_jobs s)) s"
    using assms(1) by (simp_all add: one_at_a_time_def)
  note up = tally_update [OF assms(2)]
  show ?thesis
    unfolding one_at_a_time_def assms(3)
    using assms(4) [OF \<open>one_reader _ s\<close> up] assms(5) [OF \<open>one_timer _ s\<close> up] assms(6) [OF c up]
      assms(7) [OF w c _ up up] tally_pos [OF assms(2), of closes]
    by (simp add: of_bool_def Suc_le_eq)
qed

lemma one_at_a_time_busy:
  assumes "one_at_a_time s" "i < length (ct_jobs s)"
    and "job_step sends throws (ct_jobs s ! i) s = Some (j, t)"
  shows "one_at_a_time (t\<lparr>ct_jobs := (ct_jobs s)[i := j]\<rparr>)"
  by (rule one_at_a_time_update [OF assms(1,2)], simp)
    (rule busy_reader busy_timer busy_close busy_watched, rule assms(3), assumption+)+

lemma one_at_a_time_step: "conn_step s t \<Longrightarrow> one_at_a_time s \<Longrightarrow> one_at_a_time t"
proof (induction rule: conn_step.induct)
  case (busy i s sends throws j t)
  show ?case by (rule one_at_a_time_busy [OF busy(3,1,2)])
next
  case (tested i s now)
  show ?case
    by (rule one_at_a_time_update [OF tested(3,1)], simp)
       (use tested(2) in \<open>auto simp add: counted_defs split: if_splits\<close>)
next
  case (got i s now)
  show ?case
    by (rule one_at_a_time_update [OF got(4,1)], simp) (use got(2,3) in \<open>simp_all add: counted_defs\<close>)
next
  case (broken i s)
  show ?case
    by (rule one_at_a_time_update [OF broken(4,1)], simp) (use broken(2,3) in \<open>auto simp add: counted_defs\<close>)
next
  case (rest i s)
  show ?case
    by (rule one_at_a_time_update [OF rest(4,1)], simp) (use rest(2,3) in \<open>simp_all add: counted_defs\<close>)
next
  case (fired i s)
  show ?case
    by (rule one_at_a_time_update [OF fired(4,1)], simp) (use fired(2,3) in \<open>simp_all add: counted_defs\<close>)
next
  case (unsent i s)
  show ?case
    by (rule one_at_a_time_update [OF unsent(4,1)], simp) (use unsent(2,3) in \<open>auto simp add: counted_defs\<close>)
qed (auto simp: one_at_a_time_def counted_defs)

lemma interleaved_one_at_a_time: "interleaved now0 n s \<Longrightarrow> one_at_a_time s"
  by (induction rule: interleaved.induct) (auto intro: one_at_a_time_accepted one_at_a_time_step)

subsection \<open>Two runs\<close>

text \<open>Three steps after the accept the read waits and the timer is armed.\<close>

definition two_threads :: "int \<Rightarrow> job \<Rightarrow> job \<Rightarrow> nat \<Rightarrow> conn_threads" where
  "two_threads now a b n =
     \<lparr>ct_stopped = False, ct_last = now, ct_read = Waiting, ct_timer = Unarmed, ct_writes = 0,
      ct_ready = 0, ct_open = True, ct_closes = 0, ct_jobs = a # b # replicate n Free\<rparr>"

lemma step_to: "interleaved now0 n s \<Longrightarrow> conn_step s t' \<Longrightarrow> t' = t \<Longrightarrow> interleaved now0 n t"
  by (auto intro: interleaved.stepped)

lemma armed_reachable:
  "interleaved now0 (Suc (Suc n)) (two_threads now0 Free Free n\<lparr>ct_timer := Armed\<rparr>)"
proof -
  let ?i = "interleaved now0 (Suc (Suc n))"
  have "?i (accepted_at now0 (Suc (Suc n)))" by (rule interleaved.accepted)
  then have "?i (two_threads now0 Rechecking Free n)"
    by (rule step_to [OF _ conn_step.busy [of 0]])
      (simp add: accepted_at_def two_threads_def)+
  then have "?i (two_threads now0 Arming Free n)"
    by (rule step_to [OF _ conn_step.busy [of 0]]) (simp add: two_threads_def)+
  then show ?thesis
    by (rule step_to [OF _ conn_step.busy [of 0]]) (simp add: two_threads_def)+
qed

lemma timing_out:
  "interleaved now0 (Suc (Suc n)) (two_threads now0 Free Swapping n)"
proof -
  let ?i = "interleaved now0 (Suc (Suc n))"
  have "?i (two_threads now0 Free Free n\<lparr>ct_timer := Armed\<rparr>)" by (rule armed_reachable)
  then have "?i (two_threads now0 Free Expired n)"
    by (rule step_to [OF _ conn_step.fired [of 1]]) (simp add: two_threads_def)+
  then have "?i (two_threads now0 Free (Comparing (now0 + 31)) n)"
    by (rule step_to [OF _ conn_step.tested [of 1 _ "now0 + 31"]]) (simp add: two_threads_def)+
  then show ?thesis
    by (rule step_to [OF _ conn_step.busy [of 1]])
      (simp add: two_threads_def heartbeat_timeout_def)+
qed

text \<open>A message is received, and the connection timed out at the same time.\<close>

definition racing :: "int \<Rightarrow> nat \<Rightarrow> conn_threads" where
  "racing now n = two_threads (now + 31) Rereading Closing n\<lparr>ct_read := NoRead, ct_stopped := True\<rparr>"

lemma racing_reachable: "interleaved now0 (Suc (Suc m)) (racing now0 m)"
proof -
  let ?i = "interleaved now0 (Suc (Suc m))"
  let ?late = "two_threads (now0 + 31)"
  have "?i (two_threads now0 Free Swapping m)" by (rule timing_out)
  then have "?i (two_threads now0 Free Swapping m\<lparr>ct_read := HasData\<rparr>)"
    by (rule step_to [OF _ conn_step.data]) (simp add: two_threads_def)+
  then have "?i (two_threads now0 (Received (now0 + 31)) Swapping m\<lparr>ct_read := NoRead\<rparr>)"
    by (rule step_to [OF _ conn_step.got [of 0 _ "now0 + 31"]]) (simp add: two_threads_def)+
  then have "?i (?late Routing Swapping m\<lparr>ct_read := NoRead\<rparr>)"
    by (rule step_to [OF _ conn_step.busy [of 0]]) (simp add: two_threads_def)+
  then have "?i (?late Rereading Swapping m\<lparr>ct_read := NoRead\<rparr>)"
    by (rule step_to [OF _ conn_step.busy [of 0 _ False False]]) (simp add: two_threads_def)+
  then have "?i (?late Rereading Cancelling m\<lparr>ct_read := NoRead, ct_stopped := True\<rparr>)"
    by (rule step_to [OF _ conn_step.busy [of 1]]) (simp add: two_threads_def)+
  then have "?i (?late Rereading Closing m\<lparr>ct_read := NoRead, ct_stopped := True\<rparr>)"
    by (rule step_to [OF _ conn_step.busy [of 1]]) (simp add: two_threads_def)+
  then show ?thesis by (simp add: racing_def)
qed

subsection \<open>The socket is closed once\<close>

lemma socket_state:
  assumes "interleaved now0 n s"
  shows "ct_closes s + tally closes (ct_jobs s) = of_bool (ct_stopped s) \<and>
    (ct_open s \<longleftrightarrow> ct_closes s = 0)"
  using interleaved_one_at_a_time [OF assms] by (simp add: one_at_a_time_def one_close_def)

text \<open>
  C12. Whatever the order of the threads' steps, the socket of a connection is closed at most
  once, by the one thread whose exchange in \<open>Stop\<close> succeeded: the closings done and the
  threads about to do one are together one when the connection is stopped and none before.
  The socket is open until then.
\<close>

theorem socket_closed_once:
  assumes "interleaved now0 n s"
  shows "ct_closes s + tally closes (ct_jobs s) = of_bool (ct_stopped s) \<and>
    (ct_open s \<longleftrightarrow> ct_closes s = 0)"
  by (rule socket_state [OF assms])

theorem socket_closed_once_witness:
  "ct_closes (racing 100 0) + tally closes (ct_jobs (racing 100 0)) = 1 \<and> ct_open (racing 100 0)"
proof -
  have r: "interleaved 100 2 (racing 100 0)"
    using racing_reachable [of 100 0] by (simp add: numeral_2_eq_2)
  show ?thesis
    using socket_closed_once [OF r] by (simp add: racing_def two_threads_def)
qed



subsection \<open>Which threads may use the same object\<close>

text \<open>
  What a step uses of the members that are not atomic; asio's sockets and timers and
  \<open>std::string\<close> must not be used by two threads at the same time.
\<close>

datatype part = Socket | Timer | Buffer

fun uses :: "job \<Rightarrow> part set" where
  "uses Starting = {Socket}"
| "uses Sending = {Socket, Buffer}"
| "uses Rereading = {Socket}"
| "uses Continuing = {Socket, Buffer}"
| "uses Arming = {Timer}"
| "uses Cancelling = {Timer}"
| "uses Closing = {Socket}"
| "uses _ = {}"

lemma uses_counted: "p \<in> uses j \<Longrightarrow> \<not> closes j \<Longrightarrow> j \<noteq> Continuing \<Longrightarrow> if p = Timer then beats j else reads j"
  by (cases j) auto

text \<open>
  C11. The handlers of a connection are not doubled: when two threads are about to use the same
  of its socket, its timer and its write buffer, one of them is in \<open>Stop\<close> or continues a
  partial write. That no two start a read or a write of an answer, or arm the timer, at the
  same time rests on nothing but the order in which the handlers start the next operation.
\<close>

theorem handlers_not_doubled:
  assumes "interleaved now0 n s" "i < length (ct_jobs s)" "j < length (ct_jobs s)" "i \<noteq> j"
    and "p \<in> uses (ct_jobs s ! i)" "p \<in> uses (ct_jobs s ! j)"
  shows "closes (ct_jobs s ! i) \<or> closes (ct_jobs s ! j) \<or>
    ct_jobs s ! i = Continuing \<or> ct_jobs s ! j = Continuing"
proof (rule ccontr)
  assume "\<not> ?thesis"
  with assms(5,6) have "if p = Timer then beats (ct_jobs s ! i) \<and> beats (ct_jobs s ! j)
      else reads (ct_jobs s ! i) \<and> reads (ct_jobs s ! j)"
    using uses_counted by (simp split: if_splits)
  then have "2 \<le> tally beats (ct_jobs s) \<or> 2 \<le> tally reads (ct_jobs s)"
    using tally_two [OF assms(2,3,4)] by (metis (full_types))
  then show False
    using interleaved_one_at_a_time [OF assms(1)]
    by (auto simp: one_at_a_time_def one_reader_def one_timer_def)
qed

theorem handlers_not_doubled_witness:
  "interleaved 100 2 (racing 100 0) \<and> Socket \<in> uses (ct_jobs (racing 100 0) ! 0) \<and>
   closes (ct_jobs (racing 100 0) ! 1)"
proof -
  let ?s = "racing 100 0"
  have r: "interleaved 100 2 ?s" using racing_reachable [of 100 0] by (simp add: numeral_2_eq_2)
  have "closes (ct_jobs ?s ! 0) \<or> closes (ct_jobs ?s ! 1) \<or> ct_jobs ?s ! 0 = Continuing \<or>
      ct_jobs ?s ! 1 = Continuing"
    by (rule handlers_not_doubled [OF r, of 0 1 Socket]) (simp_all add: racing_def two_threads_def)
  with r show ?thesis by (simp add: racing_def two_threads_def)
qed

text \<open>
  C29. \<open>Stop\<close> does overlap: with two threads there is a run to a moment at which one thread, its
  client's message just received, is about to write or to read again on the socket that
  another is about to close, the connection having been silent for too long before.
\<close>

theorem stop_overlaps_read:
  assumes "2 \<le> n"
  shows "\<exists>s. interleaved now0 n s \<and> ct_jobs s ! 0 = Rereading \<and> ct_jobs s ! 1 = Closing \<and>
    now0 + heartbeat_timeout < ct_last s \<and> ct_open s"
proof -
  obtain m where n: "n = Suc (Suc m)" using assms by (metis Suc_le_D numeral_2_eq_2 Suc_le_mono)
  show ?thesis
    unfolding n by (rule exI [of _ "racing now0 m"], rule conjI [OF racing_reachable])
      (simp add: racing_def two_threads_def heartbeat_timeout_def)
qed

theorem stop_overlaps_read_witness:
  "\<exists>s. interleaved 100 4 s \<and> ct_jobs s ! 0 = Rereading \<and> ct_jobs s ! 1 = Closing"
  using stop_overlaps_read [of 4 100] by auto

text \<open>Two messages, and a partial write of the answer to the first.\<close>

definition answering :: "int \<Rightarrow> nat \<Rightarrow> conn_threads" where
  "answering now n = two_threads now Sending Continuing n\<lparr>ct_read := NoRead, ct_timer := Armed\<rparr>"

lemma answering_reachable: "interleaved now0 (Suc (Suc m)) (answering now0 m)"
proof -
  let ?i = "interleaved now0 (Suc (Suc m))"
  let ?s = "\<lambda>a b. two_threads now0 a b m\<lparr>ct_timer := Armed\<rparr>"
  have "?i (?s Free Free)" by (rule armed_reachable)
  then have "?i (?s Free Free\<lparr>ct_read := HasData\<rparr>)"
    by (rule step_to [OF _ conn_step.data]) (simp add: two_threads_def)+
  then have "?i (?s (Received now0) Free\<lparr>ct_read := NoRead\<rparr>)"
    by (rule step_to [OF _ conn_step.got [of 0 _ now0]]) (simp add: two_threads_def)+
  then have "?i (?s Routing Free\<lparr>ct_read := NoRead\<rparr>)"
    by (rule step_to [OF _ conn_step.busy [of 0]]) (simp add: two_threads_def)+
  then have "?i (?s Sending Free\<lparr>ct_read := NoRead\<rparr>)"
    by (rule step_to [OF _ conn_step.busy [of 0 _ True False]]) (simp add: two_threads_def)+
  then have "?i (?s Rereading Free\<lparr>ct_read := NoRead, ct_writes := 1\<rparr>)"
    by (rule step_to [OF _ conn_step.busy [of 0]]) (simp add: two_threads_def)+
  then have "?i (?s Free Free\<lparr>ct_writes := 1\<rparr>)"
    by (rule step_to [OF _ conn_step.busy [of 0]]) (simp add: two_threads_def)+
  then have "?i (?s Free Free\<lparr>ct_ready := 1\<rparr>)"
    by (rule step_to [OF _ conn_step.part]) (simp add: two_threads_def)+
  then have "?i (?s Free Continuing)"
    by (rule step_to [OF _ conn_step.rest [of 1]]) (simp add: two_threads_def)+
  then have "?i (?s Free Continuing\<lparr>ct_read := HasData\<rparr>)"
    by (rule step_to [OF _ conn_step.data]) (simp add: two_threads_def)+
  then have "?i (?s (Received now0) Continuing\<lparr>ct_read := NoRead\<rparr>)"
    by (rule step_to [OF _ conn_step.got [of 0 _ now0]]) (simp add: two_threads_def)+
  then have "?i (?s Routing Continuing\<lparr>ct_read := NoRead\<rparr>)"
    by (rule step_to [OF _ conn_step.busy [of 0]]) (simp add: two_threads_def)+
  then have "?i (?s Sending Continuing\<lparr>ct_read := NoRead\<rparr>)"
    by (rule step_to [OF _ conn_step.busy [of 0 _ True False]]) (simp add: two_threads_def)+
  then show ?thesis unfolding answering_def
    by (rule back_subst [of ?i]) (simp add: two_threads_def)
qed

text \<open>
  Answers overlap: with two threads there is a run to a moment at which one thread assigns
  the answer to a second message to the write buffer and starts to write it, while another
  goes on writing the rest of the first answer from the same buffer to the same socket. The
  connection is open and no thread is in \<open>Stop\<close>.
\<close>

theorem answers_overlap:
  assumes "2 \<le> n"
  shows "\<exists>s. interleaved now0 n s \<and> ct_jobs s ! 0 = Sending \<and> ct_jobs s ! 1 = Continuing \<and>
    \<not> ct_stopped s \<and> tally closes (ct_jobs s) = 0"
proof -
  obtain m where n: "n = Suc (Suc m)" using assms by (metis Suc_le_D numeral_2_eq_2 Suc_le_mono)
  show ?thesis
    unfolding n by (rule exI [of _ "answering now0 m"], rule conjI [OF answering_reachable])
      (simp add: answering_def two_threads_def)
qed

theorem answers_overlap_witness:
  "\<exists>s. interleaved 100 4 s \<and> ct_jobs s ! 0 = Sending \<and> ct_jobs s ! 1 = Continuing"
  using answers_overlap [of 4 100] by auto

subsection \<open>A closed connection is released\<close>

text \<open>
  Handlers keep a connection alive: each pending operation holds a shared pointer to it. The
  steps a stopped connection can still take, for a job and for the pending operations.
\<close>

fun job_weight :: "job \<Rightarrow> nat" where
  "job_weight Starting = 5"
| "job_weight (Received now) = 8"
| "job_weight Routing = 7"
| "job_weight Sending = 6"
| "job_weight Rereading = 3"
| "job_weight Continuing = 3"
| "job_weight Expired = 1"
| "job_weight (Comparing now) = 2"
| "job_weight Rechecking = 1"
| "job_weight Arming = 3"
| "job_weight Swapping = 1"
| "job_weight Cancelling = 2"
| "job_weight Closing = 1"
| "job_weight _ = 0"

definition pending_weight :: "conn_threads \<Rightarrow> nat" where
  "pending_weight s =
     (case ct_read s of NoRead \<Rightarrow> 0 | Waiting \<Rightarrow> 2 | HasData \<Rightarrow> 9) +
     (case ct_timer s of Unarmed \<Rightarrow> 0 | Armed \<Rightarrow> 2 | Aborted \<Rightarrow> 1) + 2 * ct_writes s + 4 * ct_ready s"

definition weight :: "conn_threads \<Rightarrow> nat" where
  "weight s = pending_weight s + sum_list (map job_weight (ct_jobs s))"

lemma sum_list_job_update:
  "i < length js \<Longrightarrow> sum_list (map f (js[i := j])) + f (js ! i) = sum_list (map f js) + (f j :: nat)"
proof (induction js arbitrary: i)
  case (Cons k js)
  then show ?case by (cases i) auto
qed simp

lemma busy_weight:
  assumes "job_step sends throws k s = Some (j, t)" "ct_stopped s"
  shows "pending_weight t + job_weight j < pending_weight s + job_weight k"
  using assms
  by (cases k) (auto simp: pending_weight_def split: if_splits read_state.splits timer_state.splits)

lemma weight_update:
  assumes "i < length (ct_jobs s)" "ct_jobs t = (ct_jobs s)[i := j]"
    and "pending_weight t + job_weight j < pending_weight s + job_weight (ct_jobs s ! i)"
  shows "weight t < weight s"
  using assms sum_list_job_update [OF assms(1), of job_weight j] by (simp add: weight_def)


lemma conn_step_weight:
  assumes "conn_step s t" "ct_stopped s" "\<not> ct_open s"
  shows "weight t < weight s \<and> ct_stopped t \<and> \<not> ct_open t"
  using assms
proof (induction rule: conn_step.induct)
  case (busy i s sends throws j t)
  have "weight (t\<lparr>ct_jobs := (ct_jobs s)[i := j]\<rparr>) < weight s"
    by (rule weight_update [OF busy(1)])
       (use busy_weight [OF busy(2,3)] in \<open>simp_all add: pending_weight_def\<close>)
  moreover have "ct_stopped t \<and> \<not> ct_open t"
    using busy(2,3,4) by (cases "ct_jobs s ! i") (auto split: if_splits)
  ultimately show ?case by simp
next
  case (tested i s now)
  then show ?case by (intro conjI weight_update [of i]) (simp add: pending_weight_def)+
next
  case (got i s now)
  then show ?case by (intro conjI weight_update [of i]) (simp add: pending_weight_def)+
next
  case (broken i s)
  then show ?case by (intro conjI weight_update [of i]) (simp add: pending_weight_def)+
next
  case (rest i s)
  then show ?case by (intro conjI weight_update [of i]) (simp add: pending_weight_def)+
next
  case (fired i s)
  then show ?case by (intro conjI weight_update [of i]) (simp add: pending_weight_def)+
next
  case (unsent i s)
  then show ?case by (intro conjI weight_update [of i]) (simp add: pending_weight_def)+
qed (simp_all add: weight_def pending_weight_def)

lemma conn_steps_weight:
  "(conn_step ^^ k) s t \<Longrightarrow> ct_stopped s \<Longrightarrow> \<not> ct_open s \<Longrightarrow>
     k + weight t \<le> weight s \<and> ct_stopped t \<and> \<not> ct_open t"
proof (induction k arbitrary: t)
  case (Suc k)
  then obtain u where "(conn_step ^^ k) s u" "conn_step u t" by (auto elim: relcompp.cases)
  with Suc.IH [of u] Suc.prems(2,3) conn_step_weight [of u t] show ?case by auto
qed simp

lemma job_weight_le: "job_weight j \<le> 8"
  by (cases j) auto

lemma weight_le: "weight s \<le> 11 + 2 * ct_writes s + 4 * ct_ready s + 8 * length (ct_jobs s)"
proof -
  have "sum_list (map job_weight js) \<le> 8 * length js" for js
    by (induction js) (auto intro: add_mono job_weight_le)
  moreover have "pending_weight s \<le> 11 + 2 * ct_writes s + 4 * ct_ready s"
    by (simp add: pending_weight_def split: read_state.split timer_state.split)
  ultimately show ?thesis unfolding weight_def by (meson add_mono order_trans)
qed

lemma job_step_total:
  "j \<noteq> Free \<Longrightarrow> j \<noteq> Gone \<Longrightarrow> j \<noteq> Expired \<Longrightarrow> \<exists>k t. job_step sends throws j s = Some (k, t)"
  by (cases j) simp_all

lemma stuck_jobs:
  assumes "\<And>t. \<not> conn_step s t" "j \<in> set (ct_jobs s)"
  shows "j = Free \<or> j = Gone"
proof (rule ccontr)
  assume j: "\<not> ?thesis"
  obtain i where i: "i < length (ct_jobs s)" "ct_jobs s ! i = j"
    using assms(2) by (auto simp: in_set_conv_nth)
  show False
  proof (cases "j = Expired")
    case True
    then show ?thesis using assms(1) conn_step.tested [OF i(1)] i(2) by blast
  next
    case False
    then obtain k t where "job_step False False j s = Some (k, t)" using j job_step_total by blast
    then show ?thesis using assms(1) conn_step.busy [OF i(1)] i(2) by blast
  qed
qed

text \<open>
  C13. Once the socket of a connection is closed, the connection is released: the threads take at
  most so many more steps for it, in whatever order, and when none is possible and a thread is
  left to run handlers, no read, timer or write is pending and no thread is at work on it, so
  that nothing holds the shared pointer.
\<close>

theorem closed_connection_released:
  assumes "interleaved now0 n s" "\<not> ct_open s" "(conn_step ^^ k) s t"
  shows "k \<le> 11 + 2 * ct_writes s + 4 * ct_ready s + 8 * length (ct_jobs s) \<and>
    ((\<forall>u. \<not> conn_step t u) \<and> Free \<in> set (ct_jobs t) \<longrightarrow>
       ct_read t = NoRead \<and> ct_timer t = Unarmed \<and> ct_writes t = 0 \<and> ct_ready t = 0 \<and>
       set (ct_jobs t) \<subseteq> {Free, Gone})"
proof (intro conjI impI)
  have stopped: "ct_stopped s"
    using socket_state [OF assms(1)] assms(2) by (cases "ct_stopped s") auto
  show "k \<le> 11 + 2 * ct_writes s + 4 * ct_ready s + 8 * length (ct_jobs s)"
    using conn_steps_weight [OF assms(3) stopped assms(2)] weight_le [of s] by linarith
next
  assume t: "(\<forall>u. \<not> conn_step t u) \<and> Free \<in> set (ct_jobs t)"
  then obtain i where i: "i < length (ct_jobs t)" "ct_jobs t ! i = Free"
    by (auto simp: in_set_conv_nth)
  show "ct_read t = NoRead"
    using t conn_step.got [OF i] conn_step.broken [OF i] by (cases "ct_read t") blast+
  show "ct_timer t = Unarmed"
    using t conn_step.fired [OF i] conn_step.aborted [OF i] by (cases "ct_timer t") blast+
  show "ct_writes t = 0" using t conn_step.sent [OF i] by blast
  show "ct_ready t = 0" using t conn_step.rest [OF i] by blast
  show "set (ct_jobs t) \<subseteq> {Free, Gone}" using t stuck_jobs [of t] by blast
qed

theorem closed_connection_released_witness:
  "\<exists>s t. interleaved 100 2 s \<and> \<not> ct_open s \<and> conn_step s t \<and>
     (1::nat) \<le> 11 + 2 * ct_writes s + 4 * ct_ready s + 8 * length (ct_jobs s)"
proof -
  let ?s = "racing 100 0\<lparr>ct_open := False, ct_closes := 1, ct_jobs := [Rereading, Free]\<rparr>"
  have "interleaved 100 2 (racing 100 0)"
    using racing_reachable [of 100 0] by (simp add: numeral_2_eq_2)
  then have s: "interleaved 100 2 ?s"
    by (rule step_to [OF _ conn_step.busy [of 1]]) (simp add: racing_def two_threads_def)+
  have t: "conn_step ?s (?s\<lparr>ct_read := Waiting, ct_jobs := [Free, Free]\<rparr>)"
    using conn_step.busy [of 0 ?s False False Free "?s\<lparr>ct_read := Waiting\<rparr>"] by simp
  have "(1::nat) \<le> 11 + 2 * ct_writes ?s + 4 * ct_ready ?s + 8 * length (ct_jobs ?s)"
    using closed_connection_released [OF s, of 1] t by (simp add: relcompp_apply)
  with s t show ?thesis by (intro exI conjI) (assumption | simp)+
qed

subsection \<open>One thread alone runs the handlers\<close>

text \<open>
  \<open>agrees s c\<close>: the connection \<open>c\<close> of theory \<open>Gateway\<close> is the one of \<open>s\<close>, whose threads do the
  steps of its handlers.
\<close>

definition agrees :: "conn_threads \<Rightarrow> tcp_conn \<Rightarrow> bool" where
  "agrees s c \<longleftrightarrow>
     ct_stopped s = is_stopped c \<and> ct_last s = last_active c \<and> ct_writes s + ct_ready s = in_flight c \<and>
     (ct_read s \<noteq> NoRead \<longleftrightarrow> reading c) \<and> (ct_timer s = Armed \<longleftrightarrow> timer_due c \<noteq> None)"

text \<open>The threads' steps from \<open>s\<close>, after which thread \<open>i\<close> has the job \<open>j\<close>, end in \<open>c\<close>.\<close>

definition runs_to :: "conn_threads \<Rightarrow> nat \<Rightarrow> job \<Rightarrow> tcp_conn \<Rightarrow> bool" where
  "runs_to s i j c \<longleftrightarrow>
     (\<exists>t. conn_step\<^sup>*\<^sup>* s t \<and> agrees t c \<and> ct_jobs t = (ct_jobs s)[i := j])"

lemma runs_to_refl: "agrees s c \<Longrightarrow> ct_jobs s ! i = j \<Longrightarrow> runs_to s i j c"
  unfolding runs_to_def by (intro exI [of _ s]) auto

lemma runs_to_step:
  assumes "conn_step s t" "ct_jobs t = (ct_jobs s)[i := k]" "runs_to t i j c"
  shows "runs_to s i j c"
  using assms by (auto simp: runs_to_def intro: converse_rtranclp_into_rtranclp)

lemma runs_to_busy:
  assumes "i < length (ct_jobs s)" "job_step sends throws (ct_jobs s ! i) s = Some (k, t)"
    and "runs_to (t\<lparr>ct_jobs := (ct_jobs s)[i := k]\<rparr>) i j c"
  shows "runs_to s i j c"
  by (rule runs_to_step [OF conn_step.busy [OF assms(1,2)] _ assms(3)]) simp

lemma run_stop:
  assumes "i < length (ct_jobs s)" "ct_jobs s ! i = Swapping" "agrees s c"
  shows "runs_to s i Free (tcp_stop c)"
proof (cases "is_stopped c")
  case True
  show ?thesis
    by (rule runs_to_busy [OF assms(1)])
      (use assms True in \<open>auto simp: agrees_def tcp_stop_def intro!: runs_to_refl\<close>)
next
  case False
  have s: "job_step True True (ct_jobs s ! i) s = Some (Cancelling, s\<lparr>ct_stopped := True\<rparr>)"
    using assms(2,3) False by (simp add: agrees_def)
  show ?thesis
    by (rule runs_to_busy [OF assms(1) s], rule runs_to_busy, use assms(1) in simp, use assms(1) in simp,
        rule runs_to_busy, use assms(1) in simp, use assms(1) in simp, rule runs_to_refl)
      (use assms False in \<open>auto simp: agrees_def tcp_stop_def\<close>)
qed

lemma run_timer:
  assumes "i < length (ct_jobs s)" "ct_jobs s ! i = Free" "agrees s c" "timer_due c \<noteq> None"
  shows "runs_to s i Free (on_timer now c)"
proof -
  let ?s = "\<lambda>j. s\<lparr>ct_timer := Unarmed, ct_jobs := (ct_jobs s)[i := j]\<rparr>"
  let ?c = "c\<lparr>timer_due := None\<rparr>"
  have a: "agrees (?s j) ?c" for j using assms(3) by (simp add: agrees_def)
  have "conn_step s (?s Expired)"
    using assms by (intro conn_step.fired) (simp_all add: agrees_def)
  moreover have "conn_step (?s Expired) (?s (if ct_stopped s then Free else Comparing now))"
    using conn_step.tested [of i "?s Expired" now] assms(1) by simp
  moreover have "runs_to (?s (if ct_stopped s then Free else Comparing now)) i Free (on_timer now c)"
  proof (cases "is_stopped c")
    case True
    then show ?thesis
      using a assms(1,3) by (intro runs_to_refl) (auto simp: on_timer_def agrees_def)
  next
    case False
    then have n: "\<not> ct_stopped s" using assms(3) by (simp add: agrees_def)
    show ?thesis
    proof (cases "now - last_active c > heartbeat_timeout")
      case True
      then have "runs_to (?s (Comparing now)) i Free (tcp_stop ?c)"
        using assms(1,3) a
        by (intro runs_to_busy [of i "?s (Comparing now)" True True Swapping "?s (Comparing now)"] run_stop)
          (auto simp: agrees_def)
      then show ?thesis using True False n by (simp add: on_timer_def)
    next
      case late: False
      have "runs_to (?s Arming) i Free (check_heartbeat now ?c)"
        using assms(1,3) n
        by (intro runs_to_busy [of i "?s Arming" True True Free "?s Arming\<lparr>ct_timer := Armed\<rparr>"] runs_to_refl)
          (auto simp: agrees_def check_heartbeat_def)
      then have "runs_to (?s Rechecking) i Free (check_heartbeat now ?c)"
        using assms(1) n
        by (intro runs_to_busy [of i "?s Rechecking" True True Arming "?s Rechecking"]) auto
      then have "runs_to (?s (Comparing now)) i Free (check_heartbeat now ?c)"
        using assms(1,3) late
        by (intro runs_to_busy [of i "?s (Comparing now)" True True Rechecking "?s (Comparing now)"])
          (auto simp: agrees_def)
      then show ?thesis using late False n by (simp add: on_timer_def)
    qed
  qed
  ultimately show ?thesis
    using runs_to_step [of s "?s Expired" i Expired] runs_to_step [of "?s Expired" _ i] by simp
qed

lemma run_written:
  assumes "i < length (ct_jobs s)" "ct_jobs s ! i = Free" "agrees s c" "0 < ct_writes s"
  shows "runs_to s i Free (on_written ok c)"
proof (cases ok)
  case True
  have "conn_step s (s\<lparr>ct_writes := ct_writes s - 1\<rparr>)"
    using assms by (intro conn_step.sent) (auto simp: agrees_def)
  then show ?thesis
    by (rule runs_to_step [where k = Free])
      (use assms True list_update_id [of "ct_jobs s" i] in
        \<open>auto simp: agrees_def on_written_def intro!: runs_to_refl\<close>)
next
  case False
  have "conn_step s (s\<lparr>ct_writes := ct_writes s - 1, ct_jobs := (ct_jobs s)[i := Swapping]\<rparr>)"
    using assms by (intro conn_step.unsent) (auto simp: agrees_def)
  then show ?thesis
    by (rule runs_to_step [where k = Swapping])
      (use assms False in \<open>auto simp: agrees_def on_written_def intro!: run_stop\<close>)
qed

lemma run_broken:
  assumes "i < length (ct_jobs s)" "ct_jobs s ! i = Free" "agrees s c" "ct_read s = Waiting"
  shows "runs_to s i Free (tcp_stop (c\<lparr>reading := False\<rparr>))"
proof -
  have "conn_step s (s\<lparr>ct_read := NoRead, ct_jobs := (ct_jobs s)[i := Swapping]\<rparr>)"
    using assms by (intro conn_step.broken) auto
  then show ?thesis
    by (rule runs_to_step [where k = Swapping])
      (use assms in \<open>auto simp: agrees_def intro!: run_stop\<close>)
qed

text \<open>What routing a message does to the connection: nothing, or one \<open>Send\<close> and it returns.\<close>

definition only_sends :: "tcp_conn \<Rightarrow> tcp_conn \<Rightarrow> bool" where
  "only_sends b c \<longleftrightarrow> last_active c = last_active b \<and> reading c = reading b \<and>
     timer_due c = timer_due b \<and>
     in_flight c + length (started b) = in_flight b + length (started c)"

lemma only_sends_refl [simp]: "only_sends c c"
  by (simp add: only_sends_def)

lemma only_sends_send: "only_sends b c \<Longrightarrow> only_sends b (tcp_send msg c)"
  by (auto simp: only_sends_def tcp_send_def)

lemma only_sends_forward: "keeps (\<lambda>s. only_sends b (tcp s)) (forward_attempt env payload)"
  unfolding forward_attempt_def Let_def
  by (intro keeps_intros)
     (auto simp: keeps_def tcp_do_def only_sends_send split: prod.splits sum.splits)

interpretation gw_sends: retried "forward_attempt env payload" "gw_pause env"
  "\<lambda>s. only_sends b (tcp s)" for env payload b
  by unfold_locales (auto intro: only_sends_forward simp: gw_pause_def)

lemma only_sends_route: "keeps (\<lambda>s. only_sends b (tcp s)) (parse_and_route env msg)"
  unfolding parse_and_route_def forward_to_logic_def execute_with_retry_void_eq
  by (intro keeps_intros gw_sends.retry_keeps only_sends_send)

lemma parse_and_route_never_hangs: "never_hangs (parse_and_route env msg)"
  unfolding parse_and_route_def field_eq
  by (intro never_hangs_intros forward_to_logic_never_hangs)

text \<open>The connection after routing, seen by the threads: a write more or not.\<close>

lemma routed:
  assumes "parse_and_route env msg s = (r, t)" "agrees q (tcp s)"
  shows "agrees q (tcp t) \<or>
    (\<exists>a. r = Ret a) \<and> \<not> ct_stopped q \<and> agrees (q\<lparr>ct_writes := ct_writes q + 1\<rparr>) (tcp t)"
proof -
  have "r \<noteq> Hang" using parse_and_route_never_hangs assms(1) unfolding never_hangs_def by blast
  then have o: "only_sends (tcp s) (tcp t)"
    using keepsD [OF only_sends_route [of "tcp s"] _ assms(1)] by simp
  from sends_onceD [OF parse_and_route_sends_once assms(1)] show ?thesis
  proof
    assume "quiet (tcp s) (tcp t)"
    with o assms(2) have "agrees q (tcp t)" by (simp add: only_sends_def quiet_def agrees_def)
    then show ?thesis ..
  next
    assume w: "(\<exists>a. r = Ret a) \<and> sent_one (tcp s) (tcp t)"
    with o assms(2) have "agrees (q\<lparr>ct_writes := ct_writes q + 1\<rparr>) (tcp t)"
      by (auto simp: only_sends_def sent_one_def agrees_def)
    with w assms(2) show ?thesis by (auto simp: sent_one_def agrees_def)
  qed
qed

lemma run_routed:
  assumes "i < length (ct_jobs s)" "ct_jobs s ! i = Rereading" "agrees s c"
  shows "runs_to s i Free (c\<lparr>reading := True\<rparr>)"
  by (rule runs_to_busy [OF assms(1), of True True Free "s\<lparr>ct_read := Waiting\<rparr>"])
    (use assms in \<open>auto simp: agrees_def intro!: runs_to_refl\<close>)

lemma run_received:
  assumes "i < length (ct_jobs s)" "ct_jobs s ! i = Free" "agrees s c" "ct_read s = HasData"
    and "on_read env now (Some msg) \<lparr>tcp = c, net = w\<rparr> = (r, u)"
  shows "runs_to s i (case r of Ret a \<Rightarrow> Free | _ \<Rightarrow> Gone) (tcp u)"
proof -
  let ?s = "\<lambda>j. s\<lparr>ct_read := NoRead, ct_last := now, ct_jobs := (ct_jobs s)[i := j]\<rparr>"
  let ?c = "c\<lparr>reading := False, last_active := now\<rparr>"
  obtain q t where p: "parse_and_route env msg \<lparr>tcp = ?c, net = w\<rparr> = (q, t)" by fastforce
  have a: "agrees (?s j) ?c" for j using assms(3) by (simp add: agrees_def)
  have got: "conn_step s (s\<lparr>ct_read := NoRead, ct_jobs := (ct_jobs s)[i := Received now]\<rparr>)"
    using assms by (intro conn_step.got) auto
  have received: "runs_to s i j d" if "runs_to (?s Routing) i j d" for j d
    by (rule runs_to_step [OF got, of i "Received now"], simp)
      (rule runs_to_busy [of i _ True True Routing "?s (Received now)"], use assms(1) that in simp_all)
  have routing: "runs_to (?s Routing) i j d"
    if "runs_to (?s (if throws then Gone else if sends \<and> \<not> ct_stopped s then Sending else Rereading)) i j d"
    for sends throws j d
    by (rule runs_to_busy [of i _ sends throws
          "if throws then Gone else if sends \<and> \<not> ct_stopped s then Sending else Rereading" "?s Routing"])
      (use assms(1) that in simp_all)
  have never: "q \<noteq> Hang"
    using parse_and_route_never_hangs p unfolding never_hangs_def by blast
  show ?thesis
  proof (cases q)
    case (Ret x)
    then have u: "r = Ret ()" "tcp u = (tcp t)\<lparr>reading := True\<rparr>"
      using assms(5) p by (auto simp: on_read_def bind_comp_def tcp_do_def)
    from routed [OF p, of "?s Routing"] a
    consider "agrees (?s Routing) (tcp t)"
      | "\<not> ct_stopped s" "agrees (?s Routing\<lparr>ct_writes := ct_writes s + 1\<rparr>) (tcp t)" by auto
    then have "runs_to (?s Routing) i Free ((tcp t)\<lparr>reading := True\<rparr>)"
    proof cases
      case 1
      then have "agrees (?s Rereading) (tcp t)" by (simp add: agrees_def)
      then have "runs_to (?s Rereading) i Free ((tcp t)\<lparr>reading := True\<rparr>)"
        using run_routed [of i "?s Rereading"] assms(1) by (simp add: runs_to_def)
      then show ?thesis using routing [of False False] by simp
    next
      case 2
      let ?q = "s\<lparr>ct_read := NoRead, ct_last := now, ct_writes := ct_writes s + 1,
        ct_jobs := (ct_jobs s)[i := Rereading]\<rparr>"
      from 2 have "agrees ?q (tcp t)" by (simp add: agrees_def)
      then have "runs_to ?q i Free ((tcp t)\<lparr>reading := True\<rparr>)"
        using run_routed [of i ?q] assms(1) by (simp add: runs_to_def)
      then have "runs_to (?s Sending) i Free ((tcp t)\<lparr>reading := True\<rparr>)"
        by (intro runs_to_busy [of i "?s Sending" True True Rereading
              "?s Sending\<lparr>ct_writes := ct_writes s + 1\<rparr>"]) (use assms(1) in simp_all)
      then show ?thesis using routing [of False True] 2(1) by simp
    qed
    then show ?thesis using received u by simp
  next
    case (Exc e)
    then have u: "r = Exc e" "tcp u = tcp t"
      using assms(5) p by (auto simp: on_read_def bind_comp_def tcp_do_def)
    have "agrees (?s Routing) (tcp t)" using routed [OF p, of "?s Routing"] a Exc by simp
    then have "runs_to (?s Gone) i Gone (tcp t)"
      using assms(1) by (intro runs_to_refl) (auto simp: agrees_def)
    then show ?thesis using received [OF routing [of True]] u by simp
  qed (use never in simp)
qed

text \<open>
  The two models of a connection agree: when a thread is free and runs the handler of the timer,
  of a write or of a read to its end, with no step of another thread in between, there is a
  run that takes the connection to what the handler of theory \<open>Gateway\<close> gives, the thread being
  free again, or lost when the handler throws.
\<close>

lemma handlers_are_runs:
  assumes "i < length (ct_jobs s)" "ct_jobs s ! i = Free" "agrees s c"
  shows "(timer_due c \<noteq> None \<longrightarrow> runs_to s i Free (on_timer now c)) \<and>
    (0 < ct_writes s \<longrightarrow> runs_to s i Free (on_written ok c)) \<and>
    (ct_read s = Waiting \<longrightarrow>
       runs_to s i Free (tcp (snd (on_read env now None \<lparr>tcp = c, net = w\<rparr>)))) \<and>
    (ct_read s = HasData \<and> on_read env now (Some msg) \<lparr>tcp = c, net = w\<rparr> = (r, u) \<longrightarrow>
       runs_to s i (case r of Ret a \<Rightarrow> Free | _ \<Rightarrow> Gone) (tcp u))"
  using run_timer [OF assms] run_written [OF assms] run_broken [OF assms]
    run_received [OF assms, of env now msg w r u]
  by (simp add: on_read_def tcp_do_def)

end
