(* ===== verification/Gateway_Exit.thy ===== *)
theory Gateway_Exit
  imports Gateway_Process
begin

section \<open>The end of the gateway process\<close>

text \<open>
  What happens after \<open>main\<close> of the gateway returned: the destructors of the objects with static
  storage, among them \<open>g_server\<close> and the \<open>Logger\<close>, and with the server those of its connections
  (\<open>gateway/main.cpp\<close>, \<open>gateway_server.cpp\<close>, \<open>tcp_server.cpp\<close>).
\<close>

subsection \<open>Signals\<close>

text \<open>\<open>Stop\<close>: the dispatcher stops, and no thread runs a handler any more.\<close>

definition server_stop :: "'w gateway \<Rightarrow> 'w gateway" where
  "server_stop g = g\<lparr>proc := (proc g)\<lparr>live := 0\<rparr>\<rparr>"

text \<open>Before \<open>g_server\<close> is assigned a signal is dropped.\<close>

definition signal_handler :: "'w gateway option \<Rightarrow> 'w gateway option" where
  "signal_handler g_server =
     (case g_server of None \<Rightarrow> None | Some g \<Rightarrow> Some (server_stop g))"

lemma signal_step: "gateway_step env Signal g = signal_handler (Some g)"
  by (simp add: signal_handler_def server_stop_def)

subsection \<open>Objects with static storage\<close>

text \<open>
  They are destroyed in the reverse order of their construction. \<open>g_server\<close> is a null pointer
  before \<open>main\<close> starts; the configuration and the logger are static variables of functions,
  constructed at the first call, in \<open>main\<close>.
\<close>

datatype static_object = ServerPointer | ConfigInstance | LoggerInstance

definition construction_order :: "static_object list" where
  "construction_order = [ServerPointer, ConfigInstance, LoggerInstance]"

text \<open>
  \<open>at_exit\<close>: the gateway that \<open>g_server\<close> owns; \<open>logger_alive\<close>; \<open>dead_logs\<close>: the log calls made
  after the destruction of the logger.
\<close>

record 'w exit_state =
  at_exit :: "'w gateway"
  logger_alive :: bool
  dead_logs :: nat

text \<open>
  The destructor of a connection: \<open>Stop\<close>, which logs the closing of a socket that is open.
  Destroying the dispatcher drops the pending handlers, and with them what they hold.
\<close>

definition held :: "tcp_conn \<Rightarrow> bool" where
  "held c \<longleftrightarrow> reading c \<or> 0 < in_flight c \<or> timer_due c \<noteq> None"

definition drop_handlers :: "tcp_conn \<Rightarrow> tcp_conn" where
  "drop_handlers c = c\<lparr>reading := False, in_flight := 0, timer_due := None\<rparr>"

definition destroy_conn :: "nat \<Rightarrow> 'w exit_state \<Rightarrow> 'w exit_state" where
  "destroy_conn i x =
     (let c = conns (proc (at_exit x)) i
      in if \<not> held c then x
         else x\<lparr>at_exit := (at_exit x)\<lparr>proc := update_conn i (\<lambda>c. tcp_stop (drop_handlers c)) (proc (at_exit x))\<rparr>,
                dead_logs := dead_logs x + (if is_stopped c \<or> logger_alive x then 0 else 1)\<rparr>)"

definition destroy_server :: "'w exit_state \<Rightarrow> 'w exit_state" where
  "destroy_server x =
     (let x = x\<lparr>at_exit := server_stop (at_exit x)\<rparr>
      in fold destroy_conn [0..<accepted (at_exit x)] x)"

fun destroy_static :: "static_object \<Rightarrow> 'w exit_state \<Rightarrow> 'w exit_state" where
  "destroy_static ServerPointer x = destroy_server x"
| "destroy_static ConfigInstance x = x"
| "destroy_static LoggerInstance x = x\<lparr>logger_alive := False\<rparr>"

definition process_exit :: "'w gateway \<Rightarrow> 'w exit_state" where
  "process_exit g =
     fold destroy_static (rev construction_order)
       \<lparr>at_exit = g, logger_alive = True, dead_logs = 0\<rparr>"

subsection \<open>Destroying the connections\<close>

lemma destroy_conns:
  assumes "\<not> logger_alive x" "\<And>i. watched (conns (proc (at_exit x)) i)"
  shows "\<not> logger_alive (fold destroy_conn [0..<n] x) \<and>
    (\<forall>i < n. is_stopped (conns (proc (at_exit (fold destroy_conn [0..<n] x))) i)) \<and>
    (\<forall>i \<ge> n. conns (proc (at_exit (fold destroy_conn [0..<n] x))) i = conns (proc (at_exit x)) i) \<and>
    dead_logs (fold destroy_conn [0..<n] x) =
      dead_logs x + length (filter (\<lambda>i. \<not> is_stopped (conns (proc (at_exit x)) i)) [0..<n])"
proof (induction n)
  case (Suc n)
  let ?y = "fold destroy_conn [0..<n] x"
  have c: "conns (proc (at_exit ?y)) n = conns (proc (at_exit x)) n" using Suc by simp
  have h: "held (conns (proc (at_exit x)) n) \<or> is_stopped (conns (proc (at_exit x)) n)"
    using assms(2) [of n] by (auto simp: held_def watched_def)
  show ?case
    using Suc c h
    by (auto simp: destroy_conn_def Let_def update_conn_def tcp_stop_def drop_handlers_def less_Suc_eq)
qed (use assms(1) in simp)

lemma gateway_main_watched:
  assumes "gateway_main env open_file cores bind_ports spawn events w = Ends (Ret code) g"
  shows "watched_all g"
  using assms watched_start
  by (auto simp: gateway_main_def split: prod.splits bool.splits outcome.splits exn.splits
      life.splits option.splits if_splits intro: gateway_run_watched)

text \<open>
  C30. When the gateway ends, by a signal or because it ran out of threads, each connection still
  open is closed only by the destructor of \<open>g_server\<close>, which runs after that of the logger:
  every one of them logs its closing through the destroyed logger. The exit is clean only
  when no connection was open.
\<close>

theorem exit_logs_after_logger:
  assumes "gateway_main env open_file cores bind_ports spawn events w = Ends (Ret code) g"
  shows "dead_logs (process_exit g) =
      length (filter (\<lambda>i. \<not> is_stopped (conns (proc g) i)) [0..<accepted g]) \<and>
    (\<forall>i < accepted g. is_stopped (conns (proc (at_exit (process_exit g))) i))"
proof -
  let ?x = "\<lparr>at_exit = server_stop g, logger_alive = False, dead_logs = 0\<rparr>"
  have x: "process_exit g = fold destroy_conn [0..<accepted g] ?x"
    by (simp add: process_exit_def construction_order_def destroy_server_def server_stop_def)
  have "watched (conns (proc (at_exit ?x)) i)" for i
    using gateway_main_watched [OF assms] by (simp add: watched_all_def server_stop_def)
  from destroy_conns [of ?x "accepted g", OF _ this] show ?thesis
    by (simp add: x server_stop_def)
qed

theorem exit_logs_after_logger_witness:
  "\<exists>g. gateway_main toy_gateway (\<lambda>f. Some []) 8 (\<lambda>t h. ret ()) (ret ()) [Accepted 100, Signal] 0 = Ends (Ret 0) g \<and>
     dead_logs (process_exit g) = 1"
proof -
  have l: "load (\<lambda>f. Some []) ''gateway/config/gateway_config.yaml'' = (True, [])"
    by code_simp
  obtain t h n where s: "gateway_settings [] 8 = (t, h, n)" by (metis prod.collapse)
  then have "0 < n" by (auto simp: gateway_settings_def Let_def split: if_splits)
  with l s obtain g where g: "gateway_main toy_gateway (\<lambda>f. Some []) 8 (\<lambda>t h. ret ()) (ret ())
      [Accepted 100, Signal] 0 = Ends (Ret 0) g" "accepted g = 1" "\<not> is_stopped (conns (proc g) 0)"
    by (simp add: gateway_main_def start_pool_free) (simp add: ret_def start_pool_free gateway_start_def update_conn_def tcp_start_def
        new_conn_def check_heartbeat_def)
  from exit_logs_after_logger [OF g(1)] g show ?thesis by auto
qed

end
