(* ===== verification/Delivery.thy ===== *)
theory Delivery
  imports Chat_Logic Gateway_Process
begin

section \<open>A message from the gateway through the logic service\<close>

text \<open>
  The gateway's RPC (\<open>ForwardToLogicService\<close>) ends in the logic service's \<open>SendMessage\<close>: the
  two models joined. What is between them is generated code and gRPC, of which is used that
  a call that succeeds carries the request and the response as they are. How a call fares is
  a parameter \<open>fate\<close>: it is carried both ways, it is lost before it reaches the service, or it
  is overdue: the service handles it, but the gateway's deadline of three seconds passes
  before the answer. (A handling that is still going on when the call is repeated would run
  beside the second one; here it is over by then.)
\<close>

datatype fate = Carried | Lost string | Overdue string

definition request_from :: "rpc_req \<Rightarrow> send_req" where
  "request_from r = \<lparr>send_msg_id = rpc_msg_id r, send_sender_id = rpc_sender r,
     send_receiver_id = rpc_receiver r, send_session_type = rpc_session_type r,
     send_msg_type = rpc_msg_type r, send_content = rpc_content r\<rparr>"

definition logic_rpc ::
  "('w \<Rightarrow> fate) \<Rightarrow> 'w logic_env \<Rightarrow> chat_msg \<Rightarrow> rpc_req \<Rightarrow> 'w \<Rightarrow>
     (string + (int \<times> string \<times> string)) \<times> 'w" where
  "logic_rpc fate lenv uninit r w =
     (case fate w of
        Lost e \<Rightarrow> (Inl e, w)
      | Overdue e \<Rightarrow> (Inl e, snd (send_message lenv uninit (request_from r) w))
      | Carried \<Rightarrow>
          (case send_message lenv uninit (request_from r) w of
             (Ret resp, w') \<Rightarrow> (Inr (resp_code resp, resp_msg resp, resp_seq_id resp), w')
           | (_, w') \<Rightarrow> (Inl ''unknown'', w')))"

definition joined ::
  "('w, 'j) gw_env \<Rightarrow> ('w \<Rightarrow> fate) \<Rightarrow> 'w logic_env \<Rightarrow> chat_msg \<Rightarrow> ('w, 'j) gw_env" where
  "joined env fate lenv uninit = env\<lparr>send_rpc := logic_rpc fate lenv uninit\<rparr>"

text \<open>The payload has the six fields, and they read as the request says.\<close>

definition reads_as :: "'j json_api \<Rightarrow> 'j \<Rightarrow> rpc_req \<Rightarrow> bool" where
  "reads_as api payload r \<longleftrightarrow>
     field_value api (json_string api) payload ''msg_id'' = Inr (rpc_msg_id r) \<and>
     field_value api (json_u64 api) payload ''sender_id'' = Inr (rpc_sender r) \<and>
     field_value api (json_u64 api) payload ''receiver_id'' = Inr (rpc_receiver r) \<and>
     field_value api (json_int api) payload ''session_type'' = Inr (rpc_session_type r) \<and>
     field_value api (json_int api) payload ''msg_type'' = Inr (rpc_msg_type r) \<and>
     field_value api (json_string api) payload ''content'' = Inr (rpc_content r)"

text \<open>A message of a client that asks to send: no heartbeat, a command and a payload.\<close>

definition asks_to_send :: "'j json_api \<Rightarrow> string \<Rightarrow> rpc_req \<Rightarrow> bool" where
  "asks_to_send api raw r \<longleftrightarrow>
     str_find raw ''PING'' 0 = None \<and>
     (\<exists>root payload. json_parse api raw = Inr (Some root) \<and>
        json_has api root ''cmd'' = Inr True \<and> json_has api root ''payload'' = Inr True \<and>
        field_value api (json_string api) root ''cmd'' = Inr ''send_msg'' \<and>
        json_get api root ''payload'' = Inr payload \<and> reads_as api payload r)"

definition answer_line :: "'j json_api \<Rightarrow> int \<Rightarrow> string \<Rightarrow> string \<Rightarrow> string" where
  "answer_line api code msg seq =
     json_write api [] (JObj [(''code'', JInt code), (''msg'', JStr msg), (''seq_id'', JStr seq)]) @
     [CHR 0x0A]"

lemma forward_attempt_reads:
  assumes "reads_as (json env) payload r"
  shows "forward_attempt env payload s =
     (case send_rpc env r (net s) of
        (Inl e, w) \<Rightarrow> (Exc (StdException (''gRPC Error: '' @ e)), s\<lparr>net := w\<rparr>)
      | (Inr (code, msg, seq), w) \<Rightarrow>
          tcp_do (tcp_send (answer_line (json env) code msg seq)) (s\<lparr>net := w\<rparr>))"
  using assms
  by (cases r) (simp add: reads_as_def forward_attempt_def field_eq answer_line_def
      split: prod.split sum.split)

lemma parse_and_route_send:
  assumes "asks_to_send (json env) raw r"
  shows "\<exists>payload. parse_and_route env raw = forward_to_logic env payload \<and> reads_as (json env) payload r"
  using assms
  by (auto simp: asks_to_send_def parse_and_route_def field_eq)

text \<open>
  C15. A client that asks to send on an open connection gets exactly one answer line, from one call
  of the logic service, when both are built with the generated code and that service answers
  the first call within the deadline: code 0 with the sequence number the message service
  gave to the message with the client's identifier and receiver, or code 500. The connection
  is read again after it. (A call that is lost or overdue is made again, see
  \<open>overdue_call_repeated\<close>.)
\<close>

theorem client_gets_one_answer:
  assumes "asks_to_send (json env) raw r" "gw_grpc_built env" "grpc_built lenv"
    and "fate (net s) = Carried" "\<not> is_stopped (tcp s)"
  shows "\<exists>resp w m.
           send_message lenv uninit (request_from r) (net s) = (Ret resp, w) \<and>
           on_read (joined env fate lenv uninit) now (Some raw) s =
             (Ret (), \<lparr>tcp = (tcp_send (answer_line (json env) (resp_code resp) (resp_msg resp)
                                 (resp_seq_id resp))
                               (tcp s\<lparr>reading := False, last_active := now\<rparr>))\<lparr>reading := True\<rparr>,
                       net = w\<rparr>) \<and>
           (resp_code resp = 0 \<or> resp_code resp = 500) \<and>
           (resp_code resp = 0 \<longrightarrow> (\<exists>u saved. save_rpc lenv (request_of m) u = (Inr saved, w) \<and>
              resp_code saved = 0 \<and> resp_seq_id saved = resp_seq_id resp \<and>
              msg_id m = rpc_msg_id r \<and> receiver_id m = rpc_receiver r))"
proof -
  let ?env = "joined env fate lenv uninit"
  have j: "json ?env = json env" "gw_grpc_built ?env" using assms(2) by (simp_all add: joined_def)
  obtain payload where p: "parse_and_route ?env raw = forward_to_logic ?env payload"
    "reads_as (json ?env) payload r"
    using parse_and_route_send [of ?env raw r] assms(1) j by auto
  obtain resp w m where a: "send_message lenv uninit (request_from r) (net s) = (Ret resp, w)"
    "resp_code resp = 0 \<or> resp_code resp = 500"
    "resp_code resp = 0 \<longrightarrow> (\<exists>u saved. save_rpc lenv (request_of m) u = (Inr saved, w) \<and>
       resp_code saved = 0 \<and> resp_seq_id saved = resp_seq_id resp \<and>
       msg_id m = send_msg_id (request_from r) \<and> receiver_id m = send_receiver_id (request_from r))"
    using send_message_answers [OF assms(3)] by metis
  let ?s = "s\<lparr>tcp := tcp s\<lparr>reading := False, last_active := now\<rparr>\<rparr>"
  let ?line = "answer_line (json env) (resp_code resp) (resp_msg resp) (resp_seq_id resp)"
  have "send_rpc ?env r (net s) = (Inr (resp_code resp, resp_msg resp, resp_seq_id resp), w)"
    using a(1) assms(4) by (simp add: joined_def logic_rpc_def)
  then have "forward_attempt ?env payload ?s =
      (Ret (), \<lparr>tcp = tcp_send ?line (tcp ?s), net = w\<rparr>)"
    using forward_attempt_reads [OF p(2), of ?s] j by (simp add: tcp_do_def)
  then have "forward_to_logic ?env payload ?s = (Ret (), \<lparr>tcp = tcp_send ?line (tcp ?s), net = w\<rparr>)"
    using j(2)
    by (simp add: forward_to_logic_def execute_with_retry_void_eq execute_with_retry_def
        retry_loop.simps)
  then have "on_read ?env now (Some raw) s =
      (Ret (), \<lparr>tcp = (tcp_send ?line (tcp s\<lparr>reading := False, last_active := now\<rparr>))\<lparr>reading := True\<rparr>,
        net = w\<rparr>)"
    using p(1) by (simp add: on_read_def bind_comp_def tcp_do_def)
  with a show ?thesis
    by (intro exI [of _ resp] exI [of _ w] exI [of _ m]) (simp add: request_from_def)
qed

text \<open>
  C16. A call that is overdue is made again half a second later, though the logic service handles
  it: when the first handling is over by then and the second call is answered in time, the
  service has handled the client's message twice, and the client gets one answer line, which
  is that of the second.
\<close>

theorem overdue_call_repeated:
  assumes "asks_to_send (json env) raw r" "gw_grpc_built env" "grpc_built lenv"
    and "fate (net s) = Overdue e" "send_message lenv uninit (request_from r) (net s) = (first, w1)"
    and "fate (gw_sleep env 500 w1) = Carried"
  shows "\<exists>resp w2.
           send_message lenv uninit (request_from r) (gw_sleep env 500 w1) = (Ret resp, w2) \<and>
           on_read (joined env fate lenv uninit) now (Some raw) s =
             (Ret (), \<lparr>tcp = (tcp_send (answer_line (json env) (resp_code resp) (resp_msg resp)
                                 (resp_seq_id resp))
                               (tcp s\<lparr>reading := False, last_active := now\<rparr>))\<lparr>reading := True\<rparr>,
                       net = w2\<rparr>)"
proof -
  let ?env = "joined env fate lenv uninit"
  have j: "json ?env = json env" "gw_grpc_built ?env" "gw_sleep ?env = gw_sleep env"
    using assms(2) by (simp_all add: joined_def)
  obtain payload where p: "parse_and_route ?env raw = forward_to_logic ?env payload"
    "reads_as (json ?env) payload r"
    using parse_and_route_send [of ?env raw r] assms(1) j by auto
  obtain resp w2 where a: "send_message lenv uninit (request_from r) (gw_sleep env 500 w1) = (Ret resp, w2)"
    using send_message_answers [OF assms(3)] by metis
  let ?s = "s\<lparr>tcp := tcp s\<lparr>reading := False, last_active := now\<rparr>\<rparr>"
  let ?line = "answer_line (json env) (resp_code resp) (resp_msg resp) (resp_seq_id resp)"
  have "send_rpc ?env r (net s) = (Inl e, w1)"
    using assms(4,5) by (simp add: joined_def logic_rpc_def)
  then have one: "forward_attempt ?env payload ?s =
      (Exc (StdException (''gRPC Error: '' @ e)), ?s\<lparr>net := w1\<rparr>)"
    using forward_attempt_reads [OF p(2), of ?s] by simp
  have "send_rpc ?env r (gw_sleep env 500 w1) =
      (Inr (resp_code resp, resp_msg resp, resp_seq_id resp), w2)"
    using a assms(6) by (simp add: joined_def logic_rpc_def)
  then have two: "forward_attempt ?env payload (gw_pause ?env 500 (?s\<lparr>net := w1\<rparr>)) =
      (Ret (), \<lparr>tcp = tcp_send ?line (tcp ?s), net = w2\<rparr>)"
    using forward_attempt_reads [OF p(2), of "gw_pause ?env 500 (?s\<lparr>net := w1\<rparr>)"] j
    by (simp add: gw_pause_def tcp_do_def)
  have "forward_to_logic ?env payload ?s = (Ret (), \<lparr>tcp = tcp_send ?line (tcp ?s), net = w2\<rparr>)"
    using j(2) one two
    by (simp add: forward_to_logic_def execute_with_retry_void_eq execute_with_retry_def
        retry_loop_unfold [of _ _ _ 0] retry_loop_unfold [of _ _ _ 1])
  then have "on_read ?env now (Some raw) s =
      (Ret (), \<lparr>tcp = (tcp_send ?line (tcp s\<lparr>reading := False, last_active := now\<rparr>))\<lparr>reading := True\<rparr>,
        net = w2\<rparr>)"
    using p(1) by (simp add: on_read_def bind_comp_def tcp_do_def)
  with a show ?thesis by blast
qed

subsection \<open>An instance\<close>

definition hello_text :: string where
  "hello_text = ''hello''"

definition hello_request :: rpc_req where
  "hello_request = \<lparr>rpc_msg_id = ''m1'', rpc_sender = 1, rpc_receiver = 2, rpc_session_type = 1,
     rpc_msg_type = 1, rpc_content = ''hi''\<rparr>"

definition hello_json :: "jtree json_api" where
  "hello_json = tree_api [(hello_text, TMap [(''cmd'', TText ''send_msg''), (''payload'', TMap
     [(''msg_id'', TText ''m1''), (''sender_id'', TNum 1), (''receiver_id'', TNum 2),
      (''session_type'', TNum 1), (''msg_type'', TNum 1), (''content'', TText ''hi'')])])] (\<lambda>d. ''{}'')"

definition hello_gateway :: "(nat, jtree) gw_env" where
  "hello_gateway = toy_gateway\<lparr>json := hello_json\<rparr>"

theorem client_gets_one_answer_witness:
  "\<exists>line w t. on_read (joined hello_gateway (\<lambda>w. Carried) demo_env demo_msg) 5 (Some hello_text)
       \<lparr>tcp = tcp_start 0 (new_conn 0), net = 1\<rparr> = (Ret (), \<lparr>tcp = t, net = w\<rparr>) \<and>
     started t = [line] \<and> reading t"
proof -
  have a: "asks_to_send (json hello_gateway) hello_text hello_request"
    by (simp add: asks_to_send_def hello_gateway_def hello_json_def hello_text_def str_find_def
        field_value_def reads_as_def tree_u64_def hello_request_def tree_api_def)
  have b: "gw_grpc_built hello_gateway" "grpc_built demo_env"
    by (simp_all add: hello_gateway_def toy_gateway_def demo_env_def)
  let ?s = "\<lparr>tcp = tcp_start 0 (new_conn 0), net = 1\<rparr> :: nat gw"
  have c: "\<not> is_stopped (tcp ?s)" by (simp add: tcp_start_def new_conn_def check_heartbeat_def)
  show ?thesis
    using client_gets_one_answer [OF a b, of "\<lambda>w. Carried" ?s demo_msg 5] c
    by (auto simp: tcp_send_def tcp_start_def new_conn_def check_heartbeat_def)
qed

theorem overdue_call_repeated_witness:
  "\<exists>line w t. on_read (joined hello_gateway (\<lambda>w. if w = 0 then Overdue ''deadline'' else Carried)
         demo_env demo_msg) 5 (Some hello_text) \<lparr>tcp = tcp_start 0 (new_conn 0), net = 0\<rparr> =
       (Ret (), \<lparr>tcp = t, net = w\<rparr>) \<and> started t = [line]"
proof -
  have a: "asks_to_send (json hello_gateway) hello_text hello_request"
    by (simp add: asks_to_send_def hello_gateway_def hello_json_def hello_text_def str_find_def
        field_value_def reads_as_def tree_u64_def hello_request_def tree_api_def)
  have b: "gw_grpc_built hello_gateway" "grpc_built demo_env"
    by (simp_all add: hello_gateway_def toy_gateway_def demo_env_def)
  let ?s = "\<lparr>tcp = tcp_start 0 (new_conn 0), net = 0\<rparr> :: nat gw"
  let ?fate = "\<lambda>w::nat. if w = 0 then Overdue ''deadline'' else Carried"
  obtain first w1 where f: "send_message demo_env demo_msg (request_from hello_request) (net ?s) = (first, w1)"
    by fastforce
  moreover have "snd (send_message demo_env demo_msg (request_from hello_request) 0) = 1" by code_simp
  ultimately have "w1 = 1" by simp
  moreover have "gw_sleep hello_gateway d w = w" for d w by (simp add: hello_gateway_def toy_gateway_def)
  ultimately have c: "?fate (gw_sleep hello_gateway 500 w1) = Carried" by simp
  show ?thesis
    using overdue_call_repeated [OF a b, of ?fate ?s "''deadline''" demo_msg first w1 5] f c
    by (auto simp: tcp_send_def tcp_start_def new_conn_def check_heartbeat_def)
qed

end
