(* ===== verification/Message_Queue.thy ===== *)
theory Message_Queue
  imports Prelude
begin

section \<open>The RabbitMQ client\<close>

text \<open>
  \<open>RabbitMQClient\<close> (\<open>common/src/mq/rabbitmq_client.cpp\<close>): connecting, publishing and the
  endless loop of \<open>Subscribe\<close>, which acknowledges a message after its callback returned
  and puts it back into the queue when the callback threw. The calls of the AMQP library
  are parameters on the state of the broker; the callback acts on the state of the
  application. The locale \<open>total_callback\<close> is what a subscriber promises its queue: a
  callback that always returns.
\<close>

subsection \<open>The client\<close>

record ('b, 't, 'e) amqp =
  channel_create :: "string \<Rightarrow> int \<Rightarrow> string \<Rightarrow> string \<Rightarrow> ('b, unit) comp"
  basic_publish :: "string \<Rightarrow> string \<Rightarrow> string \<Rightarrow> ('b, unit) comp"
  basic_consume :: "string \<Rightarrow> string \<Rightarrow> bool \<Rightarrow> bool \<Rightarrow> bool \<Rightarrow> nat \<Rightarrow> ('b, 't) comp"
  basic_consume_message :: "'t \<Rightarrow> int \<Rightarrow> ('b, 'e option) comp"
  basic_ack :: "'e \<Rightarrow> ('b, unit) comp"
  basic_reject :: "'e \<Rightarrow> bool \<Rightarrow> ('b, unit) comp"
  message_body :: "'e \<Rightarrow> string"

text \<open>\<open>has_channel\<close>: \<open>channel_\<close> is not null.\<close>

record ('b, 's) mq =
  broker :: 'b
  app :: 's
  has_channel :: bool

definition on_broker :: "('b, 'a) comp \<Rightarrow> (('b, 's) mq, 'a) comp" where
  "on_broker m s = (case m (broker s) of (r, b) \<Rightarrow> (r, s\<lparr>broker := b\<rparr>))"

definition on_app :: "('s, 'a) comp \<Rightarrow> (('b, 's) mq, 'a) comp" where
  "on_app m s = (case m (app s) of (r, a) \<Rightarrow> (r, s\<lparr>app := a\<rparr>))"

definition set_channel :: "(('b, 's) mq, unit) comp" where
  "set_channel s = (Ret (), s\<lparr>has_channel := True\<rparr>)"

definition connect ::
  "('b, 't, 'e) amqp \<Rightarrow> string \<Rightarrow> int \<Rightarrow> string \<Rightarrow> string \<Rightarrow> (('b, 's) mq, bool) comp" where
  "connect ops host port user pass =
     catch_std
       (bind_comp (on_broker (channel_create ops host port user pass)) (\<lambda>_.
        bind_comp set_channel (\<lambda>_. ret True)))
       (\<lambda>w. ret False)"

definition publish ::
  "('b, 't, 'e) amqp \<Rightarrow> string \<Rightarrow> string \<Rightarrow> string \<Rightarrow> (('b, 's) mq, bool) comp" where
  "publish ops exchange routing_key message s =
     (if \<not> has_channel s then (Ret False, s)
      else catch_std
             (bind_comp (on_broker (basic_publish ops exchange routing_key message)) (\<lambda>_. ret True))
             (\<lambda>w. ret False) s)"

text \<open>One round of the loop of \<open>Subscribe\<close>.\<close>

definition consume_step ::
  "('b, 't, 'e) amqp \<Rightarrow> (string \<Rightarrow> ('s, unit) comp) \<Rightarrow> 't \<Rightarrow> (('b, 's) mq, unit) comp" where
  "consume_step ops callback consumer_tag =
     bind_comp (on_broker (basic_consume_message ops consumer_tag (- 1))) (\<lambda>received.
       case received of
         None \<Rightarrow> ret ()
       | Some envelope \<Rightarrow>
           catch_std
             (bind_comp (on_app (callback (message_body ops envelope))) (\<lambda>_.
                on_broker (basic_ack ops envelope)))
             (\<lambda>w. on_broker (basic_reject ops envelope True)))"

text \<open>
  The loop: it ends only when a round throws or waits for ever. \<open>None\<close> is a loop that goes
  on for ever.
\<close>

partial_function (option) repeat_forever ::
  "('s, unit) comp \<Rightarrow> 's \<Rightarrow> (unit outcome \<times> 's) option" where
  "repeat_forever m s =
     (case m s of
        (Ret _, s') \<Rightarrow> repeat_forever m s'
      | (Exc e, s') \<Rightarrow> Some (Exc e, s')
      | (Hang, s') \<Rightarrow> Some (Hang, s'))"

text \<open>The end of \<open>try { loop; return true; } catch (const std::exception&) { return false; }\<close>.\<close>

definition after_loop :: "(unit outcome \<times> 's) option \<Rightarrow> (bool outcome \<times> 's) option" where
  "after_loop r =
     map_option (\<lambda>(q, s).
       case q of
         Ret _ \<Rightarrow> (Ret True, s)
       | Exc (StdException _) \<Rightarrow> (Ret False, s)
       | Exc OtherException \<Rightarrow> (Exc OtherException, s)
       | Hang \<Rightarrow> (Hang, s)) r"

definition subscribe ::
  "('b, 't, 'e) amqp \<Rightarrow> string \<Rightarrow> (string \<Rightarrow> ('s, unit) comp) \<Rightarrow> ('b, 's) mq \<Rightarrow>
     (bool outcome \<times> ('b, 's) mq) option" where
  "subscribe ops queue_name callback s =
     (if \<not> has_channel s then Some (Ret False, s)
      else
        (case on_broker (basic_consume ops queue_name [] True False False 100) s of
           (Exc (StdException _), s') \<Rightarrow> Some (Ret False, s')
         | (Exc OtherException, s') \<Rightarrow> Some (Exc OtherException, s')
         | (Hang, s') \<Rightarrow> Some (Hang, s')
         | (Ret consumer_tag, s') \<Rightarrow>
             after_loop (repeat_forever (consume_step ops callback consumer_tag) s')))"

subsection \<open>The loop in rounds\<close>

text \<open>The first \<open>n\<close> rounds, if none of them throws or waits.\<close>

primrec rounds :: "nat \<Rightarrow> ('s, unit) comp \<Rightarrow> ('s, unit) comp" where
  "rounds 0 m = ret ()"
| "rounds (Suc n) m = bind_comp m (\<lambda>_. rounds n m)"

lemma repeat_forever_SomeD:
  assumes returns: "repeat_forever m s = Some y"
  shows "\<exists>n s'. rounds n m s = (Ret (), s') \<and> m s' = y \<and> fst y \<noteq> Ret ()"
proof (rule repeat_forever.raw_induct [where P = "\<lambda>m s y. \<exists>n s'. rounds n m s = (Ret (), s') \<and>
    m s' = y \<and> fst y \<noteq> Ret ()", OF _ returns])
  fix f :: "('a, unit) comp \<Rightarrow> 'a \<Rightarrow> (unit outcome \<times> 'a) option" and m s y
  assume IH: "\<And>m s y. f m s = Some y \<Longrightarrow>
      \<exists>n s'. rounds n m s = (Ret (), s') \<and> m s' = y \<and> fst y \<noteq> Ret ()"
    and eq: "(case m s of (Ret x, s') \<Rightarrow> f m s' | (Exc e, s') \<Rightarrow> Some (Exc e, s')
      | (Hang, s') \<Rightarrow> Some (Hang, s')) = Some y"
  obtain q u where q: "m s = (q, u)" by fastforce
  show "\<exists>n s'. rounds n m s = (Ret (), s') \<and> m s' = y \<and> fst y \<noteq> Ret ()"
  proof (cases "q = Ret ()")
    case True
    with q eq obtain n s' where "rounds n m u = (Ret (), s')" "m s' = y" "fst y \<noteq> Ret ()"
      using IH by fastforce
    then show ?thesis using q True by (intro exI [of _ "Suc n"]) (simp add: bind_comp_def)
  next
    case False
    with q eq have "m s = y" "fst y \<noteq> Ret ()" by (cases q; auto)+
    then show ?thesis by (intro exI [of _ 0] exI [of _ s]) (simp add: ret_def)
  qed
qed

lemma repeat_forever_SomeI:
  "rounds n m s = (Ret (), s') \<Longrightarrow> m s' = (r, t) \<Longrightarrow> r \<noteq> Ret () \<Longrightarrow>
     repeat_forever m s = Some (r, t)"
proof (induction n arbitrary: s)
  case 0
  then show ?case by (subst repeat_forever.simps) (auto simp: ret_def split: outcome.split)
next
  case (Suc n)
  then obtain x u where "m s = (Ret x, u)" "rounds n m u = (Ret (), s')"
    by (auto simp: bind_comp_Ret)
  with Suc show ?case by (subst repeat_forever.simps) simp
qed

lemma rounds_snoc: "rounds (Suc n) m = bind_comp (rounds n m) (\<lambda>_. m)"
proof (induction n)
  case (Suc n)
  have "rounds (Suc (Suc n)) m = bind_comp m (\<lambda>_. bind_comp (rounds n m) (\<lambda>_. m))"
    by (subst rounds.simps, subst Suc) (rule refl)
  also have "\<dots> = bind_comp (bind_comp m (\<lambda>_. rounds n m)) (\<lambda>_. m)" by (rule bind_assoc [symmetric])
  finally show ?case by simp
qed simp

lemma repeat_forever_None:
  assumes "\<And>n. \<exists>s'. rounds n m s = (Ret (), s')"
  shows "repeat_forever m s = None"
proof (rule ccontr)
  assume "repeat_forever m s \<noteq> None"
  then obtain y where "repeat_forever m s = Some y" by blast
  from repeat_forever_SomeD [OF this]
  obtain n s' where n: "rounds n m s = (Ret (), s')" "m s' = y" "fst y \<noteq> Ret ()"
    by blast
  obtain u where "bind_comp (rounds n m) (\<lambda>_. m) s = (Ret (), u)"
    using assms [of "Suc n"] by (auto simp only: rounds_snoc)
  with n show False by (simp add: bind_comp_def)
qed

lemma rounds_invariant:
  assumes step: "\<And>s r t. I s \<Longrightarrow> m s = (r, t) \<Longrightarrow> I t" and I: "I s" and run: "rounds n m s = (r, t)"
  shows "I t"
  using I run
proof (induction n arbitrary: s)
  case (Suc n)
  obtain q u where q: "m s = (q, u)" by fastforce
  with Suc.prems step have "I u" by blast
  with Suc q show ?case by (cases q) (auto simp: bind_comp_def)
qed (simp add: ret_def)

text \<open>Whatever every round keeps holds when the loop is left.\<close>

lemma repeat_forever_invariant:
  assumes step: "\<And>s r t. I s \<Longrightarrow> m s = (r, t) \<Longrightarrow> I t" and I: "I s"
    and run: "repeat_forever m s = Some (r, t)"
  shows "I t"
proof -
  obtain n s' where "rounds n m s = (Ret (), s')" "m s' = (r, t)"
    using repeat_forever_SomeD [OF run] by blast
  then show ?thesis using rounds_invariant [of I m, OF _ I] step by blast
qed

subsection \<open>Outcomes of \<open>Subscribe\<close>\<close>

text \<open>
  \<open>Subscribe\<close> never returns true: it goes on, waits, or returns false after the library
  or the broker failed; a callback that throws something that is no \<open>std::exception\<close> is
  the only way an exception leaves it, unless the library throws such a thing.
\<close>

theorem subscribe_never_true:
  "subscribe ops queue_name callback s \<noteq> Some (Ret True, t)"
proof
  assume returns: "subscribe ops queue_name callback s = Some (Ret True, t)"
  then obtain tag s' where "after_loop (repeat_forever (consume_step ops callback tag) s') =
      Some (Ret True, t)"
    by (auto simp: subscribe_def split: if_splits prod.splits outcome.splits exn.splits)
  then obtain q u where "repeat_forever (consume_step ops callback tag) s' = Some (q, u)"
    and q: "(case q of Ret _ \<Rightarrow> (Ret True, u) | Exc (StdException _) \<Rightarrow> (Ret False, u)
         | Exc OtherException \<Rightarrow> (Exc OtherException, u) | Hang \<Rightarrow> (Hang, u)) = (Ret True, t)"
    unfolding after_loop_def by auto
  then have "q \<noteq> Ret ()" using repeat_forever_SomeD by fastforce
  with q show False by (auto split: outcome.splits exn.splits)
qed

subsection \<open>What is acknowledged\<close>

text \<open>
  \<open>acked\<close> lists the deliveries the broker counts as acknowledged. Nothing is assumed of
  when the library or the broker fails, only that a delivery is counted by the call of
  \<open>BasicAck\<close> for it.
\<close>

definition acks_on_request :: "('b, 't, 'e) amqp \<Rightarrow> ('b \<Rightarrow> 'e list) \<Rightarrow> bool" where
  "acks_on_request ops acked \<longleftrightarrow>
     (\<forall>t b. acked (snd (basic_consume_message ops t (- 1) b)) = acked b) \<and>
     (\<forall>e b. acked (snd (basic_ack ops e b)) = acked b \<or>
            acked (snd (basic_ack ops e b)) = acked b @ [e]) \<and>
     (\<forall>e b. acked (snd (basic_reject ops e True b)) = acked b)"

text \<open>
  \<open>handled\<close> is any record the application keeps of the bodies it finished with: a callback
  that returns adds its message, one that throws or waits adds nothing.
\<close>

definition records_handled :: "(string \<Rightarrow> ('s, unit) comp) \<Rightarrow> ('s \<Rightarrow> string list) \<Rightarrow> bool" where
  "records_handled callback handled \<longleftrightarrow>
     (\<forall>body a r a'. callback body a = (r, a') \<longrightarrow>
        handled a' = (if r = Ret () then handled a @ [body] else handled a))"

lemma consume_step_acks:
  assumes ops: "acks_on_request ops acked" and cb: "records_handled callback handled"
    and step: "consume_step ops callback tag s = (r, t)"
  shows "acked (broker t) = acked (broker s) \<and>
           (handled (app t) = handled (app s) \<or> (\<exists>m. handled (app t) = handled (app s) @ [m])) \<or>
         (\<exists>e. acked (broker t) = acked (broker s) @ [e] \<and>
           handled (app t) = handled (app s) @ [message_body ops e])"
proof -
  obtain q b where q: "basic_consume_message ops tag (- 1) (broker s) = (q, b)" by fastforce
  then have b: "acked b = acked (broker s)" using ops unfolding acks_on_request_def by (metis snd_conv)
  show ?thesis
  proof (cases "\<exists>e. q = Ret (Some e)")
    case False
    with q step b show ?thesis
      by (auto simp: consume_step_def bind_comp_def on_broker_def ret_def
          split: outcome.splits option.splits)
  next
    case True
    then obtain e where e: "q = Ret (Some e)" by blast
    obtain p a where p: "callback (message_body ops e) (app s) = (p, a)" by fastforce
    then have a: "handled a =
        (if p = Ret () then handled (app s) @ [message_body ops e] else handled (app s))"
      using cb unfolding records_handled_def by blast
    obtain qa ba where qa: "basic_ack ops e b = (qa, ba)" by fastforce
    then have ba: "acked ba = acked b \<or> acked ba = acked b @ [e]"
      using ops unfolding acks_on_request_def by (metis snd_conv)
    have rej: "acked (snd (basic_reject ops e True c)) = acked c" for c
      using ops unfolding acks_on_request_def by blast
    show ?thesis
      using step q e p a qa ba b rej [of b] rej [of ba]
      by (cases p; cases qa)
         (auto simp: consume_step_def bind_comp_def catch_std_def on_broker_def on_app_def
           split: prod.splits exn.splits)
  qed
qed

text \<open>
  C18. At least once: after any number of rounds, whatever fails on the way, the messages
  acknowledged are messages whose callback had returned before, in that order. A message
  whose callback throws or waits is not acknowledged.
\<close>

theorem acknowledged_after_handling:
  assumes "acks_on_request ops acked" "records_handled callback handled"
    and "rounds n (consume_step ops callback tag) s = (r, t)"
  shows "\<exists>es ms. acked (broker t) = acked (broker s) @ es \<and>
           handled (app t) = handled (app s) @ ms \<and> subseq (map (message_body ops) es) ms"
proof (rule rounds_invariant [of "\<lambda>u. \<exists>es ms. acked (broker u) = acked (broker s) @ es \<and>
    handled (app u) = handled (app s) @ ms \<and> subseq (map (message_body ops) es) ms", OF _ _ assms(3)])
  fix u r v
  assume "\<exists>es ms. acked (broker u) = acked (broker s) @ es \<and>
      handled (app u) = handled (app s) @ ms \<and> subseq (map (message_body ops) es) ms"
    and step: "consume_step ops callback tag u = (r, v)"
  then obtain es ms where u: "acked (broker u) = acked (broker s) @ es"
    "handled (app u) = handled (app s) @ ms" "subseq (map (message_body ops) es) ms" by blast
  have more: "subseq (map (message_body ops) es) (ms @ [m])" for m
    using u(3) subseq_order.trans by blast
  have both: "subseq (map (message_body ops) (es @ [e])) (ms @ [message_body ops e])" for e
    using u(3) by (simp add: list_emb_append_mono)
  consider "acked (broker v) = acked (broker u)" "handled (app v) = handled (app u)"
    | m where "acked (broker v) = acked (broker u)" "handled (app v) = handled (app u) @ [m]"
    | e where "acked (broker v) = acked (broker u) @ [e]"
        "handled (app v) = handled (app u) @ [message_body ops e]"
    using consume_step_acks [OF assms(1,2) step] by blast
  then show "\<exists>es ms. acked (broker v) = acked (broker s) @ es \<and>
      handled (app v) = handled (app s) @ ms \<and> subseq (map (message_body ops) es) ms"
  proof cases
    case 1
    with u show ?thesis by metis
  next
    case (2 m)
    with u more [of m] show ?thesis by (intro exI [of _ es] exI [of _ "ms @ [m]"]) simp
  next
    case (3 e)
    with u both [of e] show ?thesis
      by (intro exI [of _ "es @ [e]"] exI [of _ "ms @ [message_body ops e]"]) simp
  qed
qed auto

subsection \<open>A broker that works\<close>

text \<open>
  The documented behaviour of a queue with one consumer while nothing fails. \<open>ready\<close> are
  the messages waiting for delivery to the loop, \<open>held\<close> the deliveries it has not settled.
  Publishers may add messages at any time, unless the broker is \<open>quiet\<close>. A message put
  back comes again at some later point: which one depends on what was prefetched.
\<close>

definition delivers ::
  "('b, 't, 'e) amqp \<Rightarrow> 't \<Rightarrow> ('b \<Rightarrow> 'e list) \<Rightarrow> ('b \<Rightarrow> 'e list) \<Rightarrow> ('b \<Rightarrow> 'e list) \<Rightarrow> bool \<Rightarrow> bool"
where
  "delivers ops tag ready held acked quiet \<longleftrightarrow>
     (\<forall>b e es. ready b = e # es \<longrightarrow>
        (\<exists>b' new. basic_consume_message ops tag (- 1) b = (Ret (Some e), b') \<and>
           ready b' = es @ new \<and> held b' = e # held b \<and> acked b' = acked b \<and>
           (quiet \<longrightarrow> new = [])))"

definition settles ::
  "('b, 't, 'e) amqp \<Rightarrow> ('b \<Rightarrow> 'e list) \<Rightarrow> ('b \<Rightarrow> 'e list) \<Rightarrow> ('b \<Rightarrow> 'e list) \<Rightarrow> bool \<Rightarrow> bool"
where
  "settles ops ready held acked quiet \<longleftrightarrow>
     (\<forall>b e hs. held b = e # hs \<longrightarrow>
        (\<exists>b' new. basic_ack ops e b = (Ret (), b') \<and> ready b' = ready b @ new \<and> held b' = hs \<and>
           acked b' = acked b @ [e] \<and> (quiet \<longrightarrow> new = []))) \<and>
     (\<forall>b e hs. held b = e # hs \<longrightarrow>
        (\<exists>b' new us vs. basic_reject ops e True b = (Ret (), b') \<and> ready b = us @ vs \<and>
           ready b' = us @ e # vs @ new \<and> held b' = hs \<and> acked b' = acked b))"

definition waits ::
  "('b, 't, 'e) amqp \<Rightarrow> 't \<Rightarrow> ('b \<Rightarrow> 'e list) \<Rightarrow> bool" where
  "waits ops tag ready \<longleftrightarrow>
     (\<forall>b. ready b = [] \<longrightarrow> basic_consume_message ops tag (- 1) b = (Hang, b))"

definition subscribes ::
  "('b, 't, 'e) amqp \<Rightarrow> string \<Rightarrow> 't \<Rightarrow> ('b \<Rightarrow> 'e list) \<Rightarrow> ('b \<Rightarrow> 'e list) \<Rightarrow> ('b \<Rightarrow> 'e list) \<Rightarrow> bool"
where
  "subscribes ops queue_name tag ready held acked \<longleftrightarrow>
     (\<forall>b. \<exists>b' new. basic_consume ops queue_name [] True False False 100 b = (Ret tag, b') \<and>
        ready b' = ready b @ new \<and> held b' = held b \<and> acked b' = acked b)"

text \<open>One round when there is a message: settled after the callback.\<close>

lemma consume_step_returns:
  assumes del: "delivers ops tag ready held acked quiet" and set: "settles ops ready held acked quiet"
    and r: "ready (broker s) = e # es" and cb: "callback (message_body ops e) (app s) = (Ret (), a)"
  shows "\<exists>b new. consume_step ops callback tag s = (Ret (), s\<lparr>broker := b, app := a\<rparr>) \<and>
           ready b = es @ new \<and> held b = held (broker s) \<and> acked b = acked (broker s) @ [e] \<and>
           (quiet \<longrightarrow> new = [])"
proof -
  obtain b1 n1 where 1: "basic_consume_message ops tag (- 1) (broker s) = (Ret (Some e), b1)"
    "ready b1 = es @ n1" "held b1 = e # held (broker s)" "acked b1 = acked (broker s)"
    "quiet \<longrightarrow> n1 = []"
    using del r unfolding delivers_def by metis
  then obtain b2 n2 where 2: "basic_ack ops e b1 = (Ret (), b2)" "ready b2 = ready b1 @ n2"
    "held b2 = held (broker s)" "acked b2 = acked b1 @ [e]" "quiet \<longrightarrow> n2 = []"
    using set unfolding settles_def by metis
  have "consume_step ops callback tag s = (Ret (), s\<lparr>broker := b2, app := a\<rparr>)"
    using 1(1) 2(1) cb
    by (simp add: consume_step_def bind_comp_def catch_std_def on_broker_def on_app_def)
  with 1 2 show ?thesis by (intro exI [of _ b2] exI [of _ "n1 @ n2"]) simp
qed

lemma consume_step_throws:
  assumes del: "delivers ops tag ready held acked quiet" and set: "settles ops ready held acked quiet"
    and r: "ready (broker s) = e # es"
    and cb: "callback (message_body ops e) (app s) = (Exc (StdException w), a)"
  shows "\<exists>b new us vs. consume_step ops callback tag s = (Ret (), s\<lparr>broker := b, app := a\<rparr>) \<and>
           es @ new = us @ vs \<and> set (us @ e # vs) \<subseteq> set (ready b) \<and> acked b = acked (broker s)"
proof -
  obtain b1 n1 where 1: "basic_consume_message ops tag (- 1) (broker s) = (Ret (Some e), b1)"
    "ready b1 = es @ n1" "held b1 = e # held (broker s)" "acked b1 = acked (broker s)"
    using del r unfolding delivers_def by metis
  then obtain b2 n2 us vs where 2: "basic_reject ops e True b1 = (Ret (), b2)" "ready b1 = us @ vs"
    "ready b2 = us @ e # vs @ n2" "held b2 = held (broker s)" "acked b2 = acked b1"
    using set unfolding settles_def by metis
  have "consume_step ops callback tag s = (Ret (), s\<lparr>broker := b2, app := a\<rparr>)"
    using 1(1) 2(1) cb
    by (simp add: consume_step_def bind_comp_def catch_std_def on_broker_def on_app_def)
  with 1 2 show ?thesis by (intro exI [of _ b2] exI [of _ n1] exI [of _ us] exI [of _ vs]) auto
qed

subsection \<open>A message that cannot be handled\<close>

definition poison :: "(string \<Rightarrow> ('s, unit) comp) \<Rightarrow> string \<Rightarrow> bool" where
  "poison callback body \<longleftrightarrow> (\<forall>a. \<exists>w a'. callback body a = (Exc (StdException w), a'))"

definition settled_callback :: "(string \<Rightarrow> ('s, unit) comp) \<Rightarrow> bool" where
  "settled_callback callback \<longleftrightarrow>
     (\<forall>body a. fst (callback body a) = Ret () \<or> (\<exists>w. fst (callback body a) = Exc (StdException w)))"

lemma consume_step_poison:
  assumes del: "delivers ops tag ready held acked quiet" and set: "settles ops ready held acked quiet"
    and cb: "settled_callback callback" and bad: "poison callback (message_body ops e)"
    and e: "e \<in> set (ready (broker s))"
  shows "\<exists>t. consume_step ops callback tag s = (Ret (), t) \<and> e \<in> set (ready (broker t))"
proof -
  obtain d es where d: "ready (broker s) = d # es" using e by (cases "ready (broker s)") auto
  obtain r a where r: "callback (message_body ops d) (app s) = (r, a)" by fastforce
  consider "r = Ret ()" | w where "r = Exc (StdException w)"
    using cb r unfolding settled_callback_def by (metis fst_conv)
  then show ?thesis
  proof cases
    case 1
    have "d \<noteq> e"
    proof
      assume "d = e"
      then obtain w a' where "callback (message_body ops d) (app s) = (Exc (StdException w), a')"
        using bad unfolding poison_def by blast
      with r 1 show False by simp
    qed
    moreover obtain b new where "consume_step ops callback tag s = (Ret (), s\<lparr>broker := b, app := a\<rparr>)"
      "ready b = es @ new"
      using consume_step_returns [OF del set d] r 1 by blast
    ultimately show ?thesis using e d by simp
  next
    case (2 w)
    obtain b new us vs where b:
      "consume_step ops callback tag s = (Ret (), s\<lparr>broker := b, app := a\<rparr>)"
      "es @ new = us @ vs" "set (us @ d # vs) \<subseteq> set (ready b)"
      using consume_step_throws [OF del set d] r 2 by blast
    have "e \<in> insert d (set (es @ new))" using e d by auto
    then have "e \<in> set (us @ d # vs)" unfolding b(2) by auto
    with b show ?thesis by auto
  qed
qed

text \<open>
  C23. A message whose callback always throws keeps the consumer busy for ever: it is put
  back each time, so on a broker that works \<open>Subscribe\<close> neither returns nor waits, whatever
  else is in the queue. There is no limit on redeliveries and no queue for rejected
  messages.
\<close>

theorem poison_message_spins:
  assumes "delivers ops tag ready held acked quiet" "settles ops ready held acked quiet"
    and "subscribes ops queue_name tag ready held acked"
    and "settled_callback callback" "poison callback (message_body ops e)"
    and "has_channel s" "e \<in> set (ready (broker s))"
  shows "subscribe ops queue_name callback s = None"
proof -
  obtain b new where b: "basic_consume ops queue_name [] True False False 100 (broker s) = (Ret tag, b)"
    "ready b = ready (broker s) @ new"
    using assms(3) unfolding subscribes_def by blast
  have "\<exists>t. rounds n (consume_step ops callback tag) u = (Ret (), t)"
    if "e \<in> set (ready (broker u))" for n u
    using that
  proof (induction n arbitrary: u)
    case (Suc n)
    from consume_step_poison [OF assms(1,2,4,5) this(2)] Suc.IH show ?case
      by (auto simp: bind_comp_def)
  qed (simp add: ret_def)
  then have "repeat_forever (consume_step ops callback tag) (s\<lparr>broker := b\<rparr>) = None"
    using assms(7) b(2) by (intro repeat_forever_None) simp
  then show ?thesis
    using assms(6) b(1) by (simp add: subscribe_def on_broker_def after_loop_def)
qed

subsection \<open>A callback that always returns\<close>

text \<open>
  What a subscriber promises of the messages it accepts: \<open>effect\<close> is what a message does to
  the application.
\<close>

locale total_callback =
  fixes callback :: "string \<Rightarrow> ('s, unit) comp" and effect :: "string \<Rightarrow> 's \<Rightarrow> 's"
    and accepts :: "string \<Rightarrow> bool"
  assumes callback_returns: "accepts body \<Longrightarrow> callback body a = (Ret (), effect body a)"
begin

lemma not_poison: "accepts body \<Longrightarrow> \<not> poison callback body"
  by (simp add: poison_def callback_returns)

lemma rounds_drain:
  assumes del: "delivers ops tag ready held acked True" and set: "settles ops ready held acked True"
    and r: "ready (broker s) = es" and ok: "\<forall>e \<in> set es. accepts (message_body ops e)"
  shows "\<exists>b. rounds (length es) (consume_step ops callback tag) s =
             (Ret (), s\<lparr>broker := b, app := fold effect (map (message_body ops) es) (app s)\<rparr>) \<and>
           ready b = [] \<and> held b = held (broker s) \<and> acked b = acked (broker s) @ es"
  using r ok
proof (induction es arbitrary: s)
  case Nil
  then show ?case by (intro exI [of _ "broker s"]) (simp add: ret_def)
next
  case (Cons e es)
  let ?a = "effect (message_body ops e) (app s)"
  obtain b where b: "consume_step ops callback tag s = (Ret (), s\<lparr>broker := b, app := ?a\<rparr>)"
    "ready b = es" "held b = held (broker s)" "acked b = acked (broker s) @ [e]"
    using consume_step_returns [OF del set Cons.prems(1), of callback ?a] Cons.prems(2)
      callback_returns by auto
  from Cons.IH [of "s\<lparr>broker := b, app := ?a\<rparr>"] b Cons.prems(2) show ?case
    by (auto simp: bind_comp_def)
qed

lemma subscribe_drains:
  assumes del: "delivers ops tag ready held acked True" and set: "settles ops ready held acked True"
    and wait: "waits ops tag ready" and sub: "subscribes ops queue_name tag ready held acked"
    and quiet: "\<And>b. ready (snd (basic_consume ops queue_name [] True False False 100 b)) = ready b"
    and ch: "has_channel s" and r: "ready (broker s) = es"
    and ok: "\<forall>e \<in> set es. accepts (message_body ops e)"
  shows "\<exists>b. subscribe ops queue_name callback s =
             Some (Hang, s\<lparr>broker := b, app := fold effect (map (message_body ops) es) (app s)\<rparr>) \<and>
           ready b = [] \<and> held b = held (broker s) \<and> acked b = acked (broker s) @ es"
proof -
  obtain b1 where b1: "basic_consume ops queue_name [] True False False 100 (broker s) = (Ret tag, b1)"
    "held b1 = held (broker s)" "acked b1 = acked (broker s)"
    using sub unfolding subscribes_def by blast
  then have "ready b1 = es" using quiet [of "broker s"] r by simp
  then obtain b2 where b2: "rounds (length es) (consume_step ops callback tag) (s\<lparr>broker := b1\<rparr>) =
      (Ret (), s\<lparr>broker := b2, app := fold effect (map (message_body ops) es) (app s)\<rparr>)"
    "ready b2 = []" "held b2 = held b1" "acked b2 = acked b1 @ es"
    using rounds_drain [OF del set, of "s\<lparr>broker := b1\<rparr>" es] ok by auto
  let ?t = "s\<lparr>broker := b2, app := fold effect (map (message_body ops) es) (app s)\<rparr>"
  have "consume_step ops callback tag ?t = (Hang, ?t)"
    using wait b2(2) unfolding waits_def by (simp add: consume_step_def bind_comp_def on_broker_def)
  from repeat_forever_SomeI [OF b2(1) this] show ?thesis
    using b1 b2 ch by (intro exI [of _ b2]) (simp add: subscribe_def on_broker_def after_loop_def)
qed

end

subsection \<open>A broker in memory\<close>

text \<open>A queue that nothing disturbs; a message put back comes last. For instances.\<close>

record mem_broker =
  mem_ready :: "string list"
  mem_held :: "string list"
  mem_acked :: "string list"

definition mem_amqp :: "(mem_broker, unit, string) amqp" where
  "mem_amqp = \<lparr>channel_create = (\<lambda>host port user pass. ret ()),
     basic_publish = (\<lambda>exchange key msg b. (Ret (), b\<lparr>mem_ready := mem_ready b @ [msg]\<rparr>)),
     basic_consume = (\<lambda>q tag no_local no_ack exclusive prefetch. ret ()),
     basic_consume_message = (\<lambda>tag timeout b.
       case mem_ready b of
         [] \<Rightarrow> (Hang, b)
       | e # es \<Rightarrow> (Ret (Some e), b\<lparr>mem_ready := es, mem_held := e # mem_held b\<rparr>)),
     basic_ack = (\<lambda>e b. (Ret (), b\<lparr>mem_held := remove1 e (mem_held b), mem_acked := mem_acked b @ [e]\<rparr>)),
     basic_reject = (\<lambda>e requeue b.
       (Ret (), b\<lparr>mem_held := remove1 e (mem_held b), mem_ready := mem_ready b @ [e]\<rparr>)),
     message_body = (\<lambda>e. e)\<rparr>"

lemma append_last_split: "\<exists>new us vs. xs = us @ vs \<and> xs @ [e] = us @ e # vs @ new"
  by (intro exI [of _ "[]"] exI [of _ xs]) simp

lemma mem_amqp_broker:
  "delivers mem_amqp () mem_ready mem_held mem_acked True"
  "settles mem_amqp mem_ready mem_held mem_acked True"
  "waits mem_amqp () mem_ready"
  "subscribes mem_amqp queue_name () mem_ready mem_held mem_acked"
  "acks_on_request mem_amqp mem_acked"
  by (auto simp: mem_amqp_def delivers_def settles_def waits_def subscribes_def acks_on_request_def
      ret_def append_last_split split: list.split)

text \<open>A callback that throws on one text.\<close>

definition picky :: "string \<Rightarrow> (string list, unit) comp" where
  "picky body a = (if body = ''bad'' then (Exc (StdException ''refused''), a) else (Ret (), a @ [body]))"

theorem acknowledged_after_handling_witness:
  "\<exists>t es ms. rounds 4 (consume_step mem_amqp picky ())
       \<lparr>broker = \<lparr>mem_ready = [''a'', ''bad'', ''b''], mem_held = [], mem_acked = []\<rparr>, app = [],
        has_channel = True\<rparr> = (Ret (), t) \<and>
     mem_acked (broker t) = es \<and> app t = ms \<and> es = [''a'', ''b''] \<and> subseq es ms"
proof -
  let ?s = "\<lparr>broker = \<lparr>mem_ready = [''a'', ''bad'', ''b''], mem_held = [], mem_acked = []\<rparr>, app = [],
        has_channel = True\<rparr>"
  have cb: "records_handled picky (\<lambda>a. a)" by (simp add: records_handled_def picky_def)
  obtain t where run: "rounds 4 (consume_step mem_amqp picky ()) ?s = (Ret (), t)"
    and t: "mem_acked (broker t) = [''a'', ''b'']"
    by (simp add: numeral_eq_Suc consume_step_def mem_amqp_def picky_def bind_comp_def catch_std_def
        on_broker_def on_app_def ret_def)
  from acknowledged_after_handling [OF mem_amqp_broker(5) cb run] t run show ?thesis
    by (auto simp: mem_amqp_def)
qed

theorem poison_message_spins_witness:
  "subscribe mem_amqp ''q'' picky
     \<lparr>broker = \<lparr>mem_ready = [''a'', ''bad'', ''b''], mem_held = [], mem_acked = []\<rparr>, app = [],
      has_channel = True\<rparr> = None"
proof (rule poison_message_spins [OF mem_amqp_broker(1,2,4), where e = "''bad''"])
  show "settled_callback picky" by (auto simp: settled_callback_def picky_def)
  show "poison picky (message_body mem_amqp ''bad'')"
    by (auto simp: poison_def picky_def mem_amqp_def)
qed simp_all

end
