(* ===== verification/Push.thy ===== *)
theory Push
  imports Message_Queue Config Json_Access
begin

section \<open>The push service\<close>

text \<open>
  \<open>PushManager\<close>, the two platform clients and the process around them (\<open>push/src\<close>,
  \<open>push/main.cpp\<close>). The clients of the source build the request for Apple or Google and log
  it in place of sending it: \<open>posts\<close> lists the URL and the text of every such request. The
  clients' pointers are those \<open>Init\<close> made. The JSON library, the environment variables and
  the broker are parameters; \<open>platform\<close> of a fresh task is not initialised, its value is a
  parameter too.
\<close>

subsection \<open>The platform clients\<close>

record apns_client =
  apns_url :: string

record fcm_client =
  fcm_url :: string
  server_key :: string

record push_manager =
  apns :: apns_client
  fcm :: fcm_client
  posts :: "(string \<times> string) list"

record 'j push_env =
  push_json :: "'j json_api"
  getenv :: "string \<Rightarrow> string option"
  any_platform :: int

definition apns_init :: "string \<Rightarrow> string \<Rightarrow> bool \<Rightarrow> apns_client" where
  "apns_init cert_path key_path is_sandbox =
     \<lparr>apns_url = (if is_sandbox then ''https://api.sandbox.push.apple.com/3/device/''
                  else ''https://api.push.apple.com/3/device/'')\<rparr>"

definition fcm_init :: "string \<Rightarrow> fcm_client" where
  "fcm_init key = \<lparr>fcm_url = ''https://fcm.googleapis.com/fcm/send'', server_key = key\<rparr>"

definition post :: "string \<Rightarrow> string \<Rightarrow> (push_manager, unit) comp" where
  "post url payload m = (Ret (), m\<lparr>posts := posts m @ [(url, payload)]\<rparr>)"

text \<open>The custom payload as a JSON value, or as a text when it cannot be parsed.\<close>

definition custom_doc :: "'j json_api \<Rightarrow> string \<Rightarrow> ('s, 'j jdoc) comp" where
  "custom_doc api custom_payload =
     bind_comp (lift_sum (json_parse api custom_payload)) (\<lambda>parsed.
       ret (case parsed of Some v \<Rightarrow> JVal v | None \<Rightarrow> JStr custom_payload))"

definition apns_doc :: "string \<Rightarrow> string \<Rightarrow> 'j jdoc \<Rightarrow> 'j jdoc" where
  "apns_doc title body custom =
     JObj [(''aps'', JObj [(''alert'', JObj [(''title'', JStr title), (''body'', JStr body)]),
                           (''badge'', JInt 1), (''sound'', JStr ''default'')]),
           (''custom_data'', custom)]"

definition apns_push_message ::
  "'j json_api \<Rightarrow> apns_client \<Rightarrow> string \<Rightarrow> string \<Rightarrow> string \<Rightarrow> string \<Rightarrow> (push_manager, bool) comp"
where
  "apns_push_message api c device_token title body custom_payload =
     (if device_token = [] then ret False
      else bind_comp (custom_doc api custom_payload) (\<lambda>custom.
           bind_comp (post (apns_url c @ device_token)
             (json_write api ''  '' (apns_doc title body custom))) (\<lambda>_.
           ret True)))"

definition fcm_doc :: "string \<Rightarrow> string \<Rightarrow> string \<Rightarrow> 'j jdoc \<Rightarrow> 'j jdoc" where
  "fcm_doc device_token title body custom =
     JObj [(''to'', JStr device_token),
           (''notification'', JObj [(''title'', JStr title), (''body'', JStr body)]),
           (''data'', JObj [(''custom'', custom)])]"

definition fcm_push_message ::
  "'j json_api \<Rightarrow> fcm_client \<Rightarrow> string \<Rightarrow> string \<Rightarrow> string \<Rightarrow> string \<Rightarrow> (push_manager, bool) comp"
where
  "fcm_push_message api c device_token title body custom_payload =
     (if device_token = [] then ret False
      else bind_comp (custom_doc api custom_payload) (\<lambda>custom.
           bind_comp (post (fcm_url c)
             (json_write api ''  '' (fcm_doc device_token title body custom))) (\<lambda>_.
           ret True)))"

subsection \<open>The manager\<close>

definition push_init :: "'j push_env \<Rightarrow> push_manager" where
  "push_init env =
     \<lparr>apns = apns_init
        (case getenv env ''APNS_CERT_PATH'' of Some v \<Rightarrow> v | None \<Rightarrow> ''/etc/certs/apns_cert.pem'')
        (case getenv env ''APNS_KEY_PATH'' of Some v \<Rightarrow> v | None \<Rightarrow> ''/etc/certs/apns_key.pem'') True,
      fcm = fcm_init (case getenv env ''FCM_SERVER_KEY'' of
               None \<Rightarrow> ''MOCK_KEY_PLEASE_CHANGE'' | Some v \<Rightarrow> v),
      posts = []\<rparr>"

record push_task =
  task_receiver :: u64
  platform :: int
  device_token :: string
  title :: string
  task_content :: string

definition new_task :: "int \<Rightarrow> push_task" where
  "new_task any = \<lparr>task_receiver = 0, platform = any, device_token = [], title = [],
     task_content = []\<rparr>"

definition task_do :: "(push_task \<Rightarrow> push_task) \<Rightarrow> (push_task, unit) comp" where
  "task_do f t = (Ret (), f t)"

text \<open>The \<open>try\<close> block, on the task it fills in; \<open>a || b || c\<close> stops at the first hit.\<close>

definition parse_body :: "'j json_api \<Rightarrow> string \<Rightarrow> (push_task, unit) comp" where
  "parse_body api raw_msg =
     bind_comp (lift_sum (json_parse api raw_msg)) (\<lambda>parsed.
     case parsed of
       None \<Rightarrow> ret ()
     | Some root \<Rightarrow>
         bind_comp (lift_sum (json_has api root ''receiver_id'')) (\<lambda>has_receiver.
         bind_comp (if has_receiver then lift_sum (json_has api root ''msg_type'') else ret False)
           (\<lambda>has_type.
         bind_comp (if has_receiver \<and> has_type then lift_sum (json_has api root ''content'')
                    else ret False) (\<lambda>has_content.
         if \<not> has_receiver \<or> \<not> has_type \<or> \<not> has_content then ret ()
         else
           bind_comp (field api (json_u64 api) root ''receiver_id'') (\<lambda>r.
           bind_comp (task_do (\<lambda>t. t\<lparr>task_receiver := r\<rparr>)) (\<lambda>_.
           bind_comp (task_do (\<lambda>t. t\<lparr>title := ''New Message''\<rparr>)) (\<lambda>_.
           bind_comp (field api (json_string api) root ''content'') (\<lambda>c.
             task_do (\<lambda>t. t\<lparr>task_content := c\<rparr>)))))))))"

definition parse_message :: "'j push_env \<Rightarrow> string \<Rightarrow> push_task" where
  "parse_message env raw_msg =
     snd (catch_all (parse_body (push_json env) raw_msg) (ret ()) (new_task (any_platform env)))"

definition fetch_device_token :: "u64 \<Rightarrow> (int \<times> string) option" where
  "fetch_device_token user_id =
     (if user_id = 2002 then Some (1, ''apns_device_token_abcdef123456'')
      else if user_id = 3003 then Some (2, ''fcm_device_token_zyxwv98765'')
      else None)"

definition mock_custom :: string where
  "mock_custom = ''{'' @ quoted ''msg_id'' @ '':'' @ quoted ''mock_123'' @ ''}''"

definition handle_incoming :: "'j push_env \<Rightarrow> string \<Rightarrow> (push_manager, unit) comp" where
  "handle_incoming env raw_mq_message m =
     (let task = parse_message env raw_mq_message
      in if task_receiver task = 0 then (Ret (), m)
         else
           (case fetch_device_token (task_receiver task) of
              None \<Rightarrow> (Ret (), m)
            | Some (p, tok) \<Rightarrow>
                (let task = task\<lparr>platform := p, device_token := tok\<rparr>
                 in if platform task = 1
                    then bind_comp (apns_push_message (push_json env) (apns m) (device_token task)
                           (title task) (task_content task) mock_custom) (\<lambda>_. ret ()) m
                    else if platform task = 2
                    then bind_comp (fcm_push_message (push_json env) (fcm m) (device_token task)
                           (title task) (task_content task) mock_custom) (\<lambda>_. ret ()) m
                    else (Ret (), m))))"

subsection \<open>The process\<close>

definition simulated :: "string \<Rightarrow> string \<Rightarrow> string" where
  "simulated receiver words =
     ''{'' @ quoted ''receiver_id'' @ '': '' @ receiver @ '', '' @ quoted ''msg_type'' @ '': 1, '' @
     quoted ''content'' @ '': '' @ quoted words @ ''}''"

definition logic_simulator :: "'j push_env \<Rightarrow> (push_manager, unit) comp" where
  "logic_simulator env =
     bind_comp (handle_incoming env (simulated ''2002'' ''Hello iOS User!'')) (\<lambda>_.
       handle_incoming env (simulated ''3003'' ''Hello Android User!''))"

definition mq_settings :: "config_map \<Rightarrow> string \<times> int \<times> string \<times> string \<times> string" where
  "mq_settings cfg =
     (get_string cfg ''dependencies.rabbitmq.host'' ''127.0.0.1'',
      get_int cfg ''dependencies.rabbitmq.port'' 5672,
      get_string cfg ''dependencies.rabbitmq.user'' ''guest'',
      get_string cfg ''dependencies.rabbitmq.pass'' ''guest'',
      get_string cfg ''dependencies.rabbitmq.queue'' ''chat.push.queue'')"

text \<open>
  \<open>StartPushService\<close>. \<open>Init\<close> cannot fail. After \<open>Subscribe\<close> has returned, whatever it
  returned, the simulator thread runs and the main thread sleeps for ever.
\<close>

definition start_push_service ::
  "'j push_env \<Rightarrow> ('b, 't, 'e) amqp \<Rightarrow> config_map \<Rightarrow> 'b \<Rightarrow> (unit, ('b, push_manager) mq) life" where
  "start_push_service env ops cfg b =
     (case mq_settings cfg of (host, port, user, pass, queue) \<Rightarrow>
        case connect ops host port user pass
               \<lparr>broker = b, app = push_init env, has_channel = False\<rparr> of
          (connected, s) \<Rightarrow>
            after_life (Ends connected s) (\<lambda>ok s.
              if \<not> ok then Ends (Ret ()) s
              else after_life (life_of (subscribe ops queue (handle_incoming env) s)) (\<lambda>_ s.
                   after_life (in_thread (on_app (logic_simulator env)) s) (\<lambda>_ s.
                     Ends Hang s))))"

definition push_main ::
  "'j push_env \<Rightarrow> ('b, 't, 'e) amqp \<Rightarrow> (string \<Rightarrow> string option) \<Rightarrow> 'b \<Rightarrow>
     (int, ('b, push_manager) mq option) life" where
  "push_main env ops open_file b =
     (case load open_file ''push/config/push_config.yaml'' of
        (False, _) \<Rightarrow> Ends (Ret (- 1)) None
      | (True, cfg) \<Rightarrow>
          (case start_push_service env ops cfg b of
             Ends (Ret _) s \<Rightarrow> Ends (Ret 0) (Some s)
           | Ends (Exc (StdException _)) s \<Rightarrow> Ends (Ret (- 1)) (Some s)
           | Ends (Exc OtherException) s \<Rightarrow> Aborts (Some s)
           | Ends Hang s \<Rightarrow> Ends Hang (Some s)
           | Aborts s \<Rightarrow> Aborts (Some s)
           | Spins \<Rightarrow> Spins))"

subsection \<open>What a message does\<close>

text \<open>
  What the program reads of a message: the receiver and the content, which is empty when it
  cannot be read as a text; nothing when a field is missing, the receiver is no number, or
  the message is not a JSON object.
\<close>

definition push_fields :: "'j json_api \<Rightarrow> string \<Rightarrow> (u64 \<times> string) option" where
  "push_fields api raw_msg =
     (case json_parse api raw_msg of
        Inr (Some root) \<Rightarrow>
          (if (\<forall>k \<in> {''receiver_id'', ''msg_type'', ''content''}. json_has api root k = Inr True)
           then (case field_value api (json_u64 api) root ''receiver_id'' of
                   Inl e \<Rightarrow> None
                 | Inr r \<Rightarrow> Some (r, case field_value api (json_string api) root ''content'' of
                     Inr c \<Rightarrow> c | Inl e \<Rightarrow> []))
           else None)
      | _ \<Rightarrow> None)"

lemma parse_message_fields:
  "parse_message env raw =
     (case push_fields (push_json env) raw of
        None \<Rightarrow> new_task (any_platform env)
      | Some (r, c) \<Rightarrow> (new_task (any_platform env))
          \<lparr>task_receiver := r, title := ''New Message'', task_content := c\<rparr>)"
proof -
  let ?api = "push_json env"
  consider "json_parse ?api raw = Inr None" | e where "json_parse ?api raw = Inl e"
    | root where "json_parse ?api raw = Inr (Some root)"
    by (metis option.exhaust sum.exhaust)
  then show ?thesis
  proof cases
    case (3 root)
    show ?thesis
      by (cases "json_has ?api root ''receiver_id''"; cases "json_has ?api root ''msg_type''";
          cases "json_has ?api root ''content''";
          cases "field_value ?api (json_u64 ?api) root ''receiver_id''";
          cases "field_value ?api (json_string ?api) root ''content''")
         (simp_all add: 3 parse_message_def parse_body_def push_fields_def catch_all_def field_eq
            bind_comp_def ret_def throw_def task_do_def new_task_def)
  qed (simp_all add: parse_message_def parse_body_def push_fields_def catch_all_def ret_def throw_def)
qed

text \<open>The value the custom payload contributes, when the library does not throw on it.\<close>

definition custom_parses :: "'j push_env \<Rightarrow> bool" where
  "custom_parses env \<longleftrightarrow> (\<exists>v. json_parse (push_json env) mock_custom = Inr v)"

definition custom_value :: "'j push_env \<Rightarrow> 'j jdoc" where
  "custom_value env =
     (case json_parse (push_json env) mock_custom of
        Inr (Some v) \<Rightarrow> JVal v | _ \<Rightarrow> JStr mock_custom)"

definition notifications :: "'j push_env \<Rightarrow> push_manager \<Rightarrow> string \<Rightarrow> (string \<times> string) list" where
  "notifications env m raw =
     (case push_fields (push_json env) raw of
        None \<Rightarrow> []
      | Some (r, c) \<Rightarrow>
          (if r = 2002 then
             [(apns_url (apns m) @ ''apns_device_token_abcdef123456'',
               json_write (push_json env) ''  '' (apns_doc ''New Message'' c (custom_value env)))]
           else if r = 3003 then
             [(fcm_url (fcm m), json_write (push_json env) ''  ''
                (fcm_doc ''fcm_device_token_zyxwv98765'' ''New Message'' c (custom_value env)))]
           else []))"

definition notify :: "'j push_env \<Rightarrow> string \<Rightarrow> push_manager \<Rightarrow> push_manager" where
  "notify env raw m = m\<lparr>posts := posts m @ notifications env m raw\<rparr>"

lemma custom_doc_value:
  "custom_parses env \<Longrightarrow> custom_doc (push_json env) mock_custom = ret (custom_value env)"
  by (auto simp: custom_parses_def custom_doc_def custom_value_def split: option.split)

lemma notify_simps [simp]: "apns (notify env raw m) = apns m" "fcm (notify env raw m) = fcm m"
  by (simp_all add: notify_def)

lemma handle_incoming_notify:
  assumes "custom_parses env"
  shows "handle_incoming env raw m = (Ret (), notify env raw m)"
  by (auto simp: custom_doc_value [OF assms] handle_incoming_def parse_message_fields notify_def notifications_def Let_def
      new_task_def fetch_device_token_def apns_push_message_def fcm_push_message_def post_def
      bind_comp_def ret_def split: option.split)

interpretation push: total_callback "handle_incoming env" "notify env" "\<lambda>raw. custom_parses env"
  for env
  by unfold_locales (rule handle_incoming_notify)

lemma fold_notify:
  "fold (notify env) raws m = m\<lparr>posts := posts m @ concat (map (notifications env m) raws)\<rparr>"
proof (induction raws arbitrary: m)
  case (Cons raw raws)
  have "notifications env (notify env raw m) = notifications env m"
    by (simp add: notifications_def fun_eq_iff split: option.split)
  with Cons show ?case by (simp add: notify_def)
qed simp

text \<open>
  C17. On a broker that works the service pushes every message that waits in its queue, in
  order and each once, acknowledges all of them and then waits for the next. A message that
  is not a JSON object, lacks a field, has no number for a receiver or is for a user without
  a device is acknowledged and pushes nothing.
\<close>

theorem push_queue_drained:
  assumes "delivers ops tag ready held acked True" "settles ops ready held acked True"
    and "waits ops tag ready" "subscribes ops queue_name tag ready held acked"
    and "\<And>b. ready (snd (basic_consume ops queue_name [] True False False 100 b)) = ready b"
    and "has_channel s" "custom_parses env"
  shows "\<exists>t. subscribe ops queue_name (handle_incoming env) s = Some (Hang, t) \<and>
           posts (app t) = posts (app s) @ concat (map (notifications env (app s))
             (map (message_body ops) (ready (broker s)))) \<and>
           ready (broker t) = [] \<and> acked (broker t) = acked (broker s) @ ready (broker s)"
proof -
  obtain b where "subscribe ops queue_name (handle_incoming env) s = Some (Hang,
      s\<lparr>broker := b, app := fold (notify env) (map (message_body ops) (ready (broker s))) (app s)\<rparr>)"
    "ready b = []" "acked b = acked (broker s) @ ready (broker s)"
    using push.subscribe_drains [OF assms(1-6) refl] assms(7) by blast
  then show ?thesis by (simp add: fold_notify)
qed

text \<open>
  A message to a user with a device whose content cannot be read as a text is pushed all
  the same: the receiver has been stored in the task before the exception, and the manager
  only checks that one. The notification has the fixed title and an empty body.
\<close>

theorem unreadable_content_pushed:
  assumes "json_parse (push_json env) raw = Inr (Some root)"
    and "\<forall>k \<in> {''receiver_id'', ''msg_type'', ''content''}. json_has (push_json env) root k = Inr True"
    and "field_value (push_json env) (json_u64 (push_json env)) root ''receiver_id'' = Inr 2002"
    and "field_value (push_json env) (json_string (push_json env)) root ''content'' = Inl e"
    and "custom_parses env"
  shows "handle_incoming env raw m =
           (Ret (), m\<lparr>posts := posts m @ [(apns_url (apns m) @ ''apns_device_token_abcdef123456'',
              json_write (push_json env) ''  '' (apns_doc ''New Message'' [] (custom_value env)))]\<rparr>)"
proof -
  have "push_fields (push_json env) raw = Some (2002, [])"
    using assms(1-4) by (simp add: push_fields_def)
  then show ?thesis
    by (simp add: handle_incoming_notify [OF assms(5)] notify_def notifications_def)
qed

subsection \<open>The process when the broker goes away\<close>



subsection \<open>Instances\<close>

definition push_texts :: "(string \<times> jtree) list" where
  "push_texts =
     [(mock_custom, TMap [(''msg_id'', TText ''mock_123'')]),
      (simulated ''2002'' ''Hello iOS User!'', TMap [(''receiver_id'', TNum 2002),
         (''msg_type'', TNum 1), (''content'', TText ''Hello iOS User!'')]),
      (simulated ''3003'' ''Hello Android User!'', TMap [(''receiver_id'', TNum 3003),
         (''msg_type'', TNum 1), (''content'', TText ''Hello Android User!'')]),
      (''odd'', TMap [(''receiver_id'', TNum 2002), (''msg_type'', TNum 1), (''content'', TMap [])])]"

definition demo_push :: "jtree push_env" where
  "demo_push = \<lparr>push_json = tree_api push_texts (\<lambda>d. ''payload''), getenv = (\<lambda>v. None),
     any_platform = 7\<rparr>"

lemma demo_push_facts:
  "custom_parses demo_push"
  "json_parse (push_json demo_push) ''odd'' = Inr (Some (TMap [(''receiver_id'', TNum 2002),
     (''msg_type'', TNum 1), (''content'', TMap [])]))"
  "push_fields (push_json demo_push) (simulated ''2002'' ''Hello iOS User!'') =
     Some (2002, ''Hello iOS User!'')"
  "push_fields (push_json demo_push) (simulated ''3003'' ''Hello Android User!'') =
     Some (3003, ''Hello Android User!'')"
  by (simp_all add: custom_parses_def demo_push_def push_texts_def mock_custom_def simulated_def
      quoted_def push_fields_def field_value_def tree_u64_def)

theorem push_queue_drained_witness:
  "\<exists>t. subscribe mem_amqp ''chat.push.queue'' (handle_incoming demo_push)
       \<lparr>broker = \<lparr>mem_ready = [''odd'', ''junk''], mem_held = [], mem_acked = []\<rparr>,
        app = push_init demo_push, has_channel = True\<rparr> = Some (Hang, t) \<and>
     mem_acked (broker t) = [''odd'', ''junk''] \<and> length (posts (app t)) = 1"
proof -
  let ?s = "\<lparr>broker = \<lparr>mem_ready = [''odd'', ''junk''], mem_held = [], mem_acked = []\<rparr>,
        app = push_init demo_push, has_channel = True\<rparr>"
  have "mem_ready (snd (basic_consume mem_amqp q [] True False False 100 b)) = mem_ready b" for q b
    by (simp add: mem_amqp_def ret_def)
  from push_queue_drained [OF mem_amqp_broker(1-4) this, of ?s demo_push] demo_push_facts(1)
  obtain t where "subscribe mem_amqp ''chat.push.queue'' (handle_incoming demo_push) ?s = Some (Hang, t)"
    "posts (app t) = posts (app ?s) @ concat (map (notifications demo_push (app ?s))
       (map (message_body mem_amqp) [''odd'', ''junk'']))"
    "mem_acked (broker t) = [''odd'', ''junk'']" by auto
  then show ?thesis
    by (simp add: notifications_def push_fields_def demo_push_def push_texts_def mock_custom_def
        simulated_def quoted_def field_value_def tree_u64_def mem_amqp_def push_init_def)
qed

theorem unreadable_content_pushed_witness:
  "\<exists>url doc. handle_incoming demo_push ''odd'' (push_init demo_push) =
     (Ret (), (push_init demo_push)\<lparr>posts := [(url, doc)]\<rparr>)"
  using unreadable_content_pushed [OF demo_push_facts(2) _ _ _ demo_push_facts(1),
      of "StdException ''not convertible to string''" "push_init demo_push"]
  by (auto simp: demo_push_def field_value_def tree_u64_def push_init_def)



subsection \<open>The shipped configuration\<close>

text \<open>\<open>push/config/push_config.yaml\<close> up to the queue.\<close>

definition shipped_push_lines :: "string list" where
  "shipped_push_lines =
     [''log:'', ''  level: '' @ quoted ''info'', ''  file: '' @ quoted ''logs/push.log'', [],
      ''dependencies:'', ''  rabbitmq:'', ''    host: '' @ quoted ''127.0.0.1'', ''    port: 5672'',
      ''    user: '' @ quoted ''admin'', ''    pass: '' @ quoted ''admin123'',
      ''    queue: '' @ quoted ''chat.push.queue'']"

text \<open>
  The credentials of the shipped configuration are not used: the section they are in is
  read as a part of the section \<open>log\<close>, and the service connects as guest.
\<close>

theorem shipped_credentials_not_used:
  "mq_settings (config_map (load_lines empty_state shipped_push_lines)) =
     (''127.0.0.1'', 5672, ''guest'', ''guest'', ''chat.push.queue'') \<and>
   get_string (config_map (load_lines empty_state shipped_push_lines))
     ''log.dependencies.rabbitmq.user'' [] = ''admin''"
  by code_simp

end
