(* ===== verification/Admin.thy ===== *)
theory Admin
  imports Json_Access Http_Text
begin

section \<open>The admin service\<close>

text \<open>
  \<open>ApiHandler\<close>, \<open>HttpConnection\<close> and the threads of \<open>AdminServer\<close> (\<open>admin/src\<close>,
  \<open>admin/main.cpp\<close>). A request is what one read delivers, at most 4096 bytes; it is cut into
  method, path and body and routed. No handler has a state: they are computations that read
  the request and build an answer, and what they throw leaves the completion handler. The
  JSON library is a parameter.
\<close>

subsection \<open>The routes\<close>

definition answer :: "'j json_api \<Rightarrow> (string \<times> 'j jdoc) list \<Rightarrow> string" where
  "answer api resp = json_write api [] (JObj resp)"

definition admin_login :: "'j json_api \<Rightarrow> string \<Rightarrow> ('s, string) comp" where
  "admin_login api body =
     bind_comp (lift_sum (json_parse api body)) (\<lambda>parsed.
     case parsed of
       None \<Rightarrow> ret (answer api [(''code'', JInt 400), (''msg'', JStr ''Invalid JSON format'')])
     | Some req \<Rightarrow>
         bind_comp (field api (json_string api) req ''username'') (\<lambda>username.
         bind_comp (field api (json_string api) req ''password'') (\<lambda>password.
         ret (answer api
           (if username = ''admin'' \<and> password = ''admin123''
            then [(''code'', JInt 0), (''msg'', JStr ''SUCCESS''),
                  (''data'', JObj [(''token'', JStr ''ADMIN_TOKEN_999999''),
                                   (''username'', JStr ''Super Admin'')])]
            else [(''code'', JInt 401), (''msg'', JStr ''Invalid username or password'')])))))"

definition listed_user :: "int \<Rightarrow> string \<Rightarrow> string \<Rightarrow> int \<Rightarrow> 'j jdoc" where
  "listed_user i name nick status =
     JObj [(''id'', JInt i), (''username'', JStr name), (''nickname'', JStr nick),
           (''status'', JInt status)]"

definition get_users :: "'j json_api \<Rightarrow> string" where
  "get_users api = answer api
     [(''code'', JInt 0), (''msg'', JStr ''SUCCESS''),
      (''data'', JObj
         [(''list'', JArr [listed_user 1001 ''test_user'' ''Alice'' 1,
                           listed_user 2002 ''bad_guy'' ''Spammer'' 2]),
          (''total'', JInt 2)])]"

definition ban_user :: "'j json_api \<Rightarrow> string \<Rightarrow> ('s, string) comp" where
  "ban_user api body =
     bind_comp (lift_sum (json_parse api body)) (\<lambda>parsed.
     case parsed of
       None \<Rightarrow> ret (answer api [(''code'', JInt 400), (''msg'', JStr ''Invalid JSON format'')])
     | Some req \<Rightarrow>
         bind_comp (field api (json_u64 api) req ''user_id'') (\<lambda>user_id.
         ret (answer api [(''code'', JInt 0), (''msg'', JStr ''User banned successfully'')])))"

text \<open>The loop over the words, from index \<open>i\<close>, with \<open>n\<close> left.\<close>

primrec word_loop :: "'j json_api \<Rightarrow> 'j \<Rightarrow> nat \<Rightarrow> nat \<Rightarrow> string list \<Rightarrow> ('s, string list) comp" where
  "word_loop api words i 0 new_words = ret new_words"
| "word_loop api words i (Suc n) new_words =
     bind_comp (lift_sum (json_at api words i)) (\<lambda>v.
     bind_comp (lift_sum (json_string api v)) (\<lambda>w.
       word_loop api words (i + 1) n (new_words @ [w])))"

definition update_config :: "'j json_api \<Rightarrow> string \<Rightarrow> ('s, string) comp" where
  "update_config api body =
     bind_comp (lift_sum (json_parse api body)) (\<lambda>parsed.
     case parsed of
       None \<Rightarrow> ret (answer api [(''code'', JInt 400), (''msg'', JStr ''Invalid JSON format'')])
     | Some req \<Rightarrow>
         bind_comp (lift_sum (json_get api req ''words'')) (\<lambda>words.
         bind_comp (word_loop api words 0 (json_len api words) []) (\<lambda>new_words.
         ret (answer api [(''code'', JInt 0), (''msg'', JStr ''Config updated globally'')]))))"

definition handle_route ::
  "'j json_api \<Rightarrow> string \<Rightarrow> string \<Rightarrow> string \<Rightarrow> ('s, string) comp" where
  "handle_route api meth path body =
     (if meth = ''POST'' \<and> path = ''/api/admin/login'' then admin_login api body
      else if meth = ''GET'' \<and> path = ''/api/admin/users'' then ret (get_users api)
      else if meth = ''POST'' \<and> path = ''/api/admin/users/ban'' then ban_user api body
      else if meth = ''POST'' \<and> path = ''/api/admin/config/words'' then update_config api body
      else ret [])"

subsection \<open>A request\<close>

text \<open>\<open>parse_request\<close> is the first half of \<open>HandleRequest\<close>: method, path and body.\<close>

definition parse_request :: "string \<Rightarrow> string \<times> string \<times> string" where
  "parse_request data =
     (let (meth, path) =
        (case str_find data '' '' 0 of
           None \<Rightarrow> ([], [])
         | Some method_end \<Rightarrow>
             (substr data 0 method_end,
              case str_find data '' '' (method_end + 1) of
                None \<Rightarrow> []
              | Some path_end \<Rightarrow> substr data (method_end + 1) (path_end - method_end - 1)));
          body = (case str_find data blank_line 0 of None \<Rightarrow> [] | Some p \<Rightarrow> drop (p + 4) data)
      in (meth, path, body))"

definition not_found_body :: string where
  "not_found_body = ''{'' @ quoted ''code'' @ '': 404, '' @ quoted ''msg'' @ '': '' @
     quoted ''Not Found'' @ ''}''"

definition response_text :: "nat \<Rightarrow> string \<Rightarrow> string" where
  "response_text status_code response_body =
     ''HTTP/1.1 '' @ dec status_code @ '' OK'' @ crlf @
     ''Content-Type: application/json; charset=utf-8'' @ crlf @
     ''Access-Control-Allow-Origin: *'' @ crlf @
     ''Access-Control-Allow-Methods: GET, POST, OPTIONS'' @ crlf @
     ''Access-Control-Allow-Headers: Content-Type, Authorization'' @ crlf @
     ''Content-Length: '' @ dec (length response_body) @ crlf @
     ''Connection: close'' @ crlf @ crlf @ response_body"

definition handle_request :: "'j json_api \<Rightarrow> string \<Rightarrow> ('s, string) comp" where
  "handle_request api request_data =
     (case parse_request request_data of (meth, path, body) \<Rightarrow>
        if meth = ''OPTIONS'' then ret (response_text 204 [])
        else bind_comp (handle_route api meth path body) (\<lambda>response_body.
          ret (if response_body = [] then response_text 404 not_found_body
               else response_text 200 response_body)))"

subsection \<open>Connections and the process\<close>

record http_conn =
  response_data :: string
  read_pending :: bool
  write_pending :: bool
  socket_open :: bool

text \<open>
  A connection reads once, from \<open>Start\<close>. The completion handlers: of that read, with the
  bytes that had arrived or \<open>None\<close> for an error (then nothing refers to the connection any
  more and its socket is closed with it), and of the write.
\<close>

definition start_http :: http_conn where
  "start_http = \<lparr>response_data = [], read_pending = True, write_pending = False,
     socket_open = True\<rparr>"

definition http_read :: "'j json_api \<Rightarrow> string option \<Rightarrow> (http_conn, unit) comp" where
  "http_read api received =
     (case received of
        None \<Rightarrow> (\<lambda>c. (Ret (), c\<lparr>read_pending := False, socket_open := False\<rparr>))
      | Some arrived \<Rightarrow>
          bind_comp (handle_request api (take 4096 arrived)) (\<lambda>resp c.
            (Ret (), c\<lparr>read_pending := False, response_data := resp, write_pending := True\<rparr>)))"

text \<open>
  The handler of the write closes the socket, whether or not the write succeeded, with the
  overload of \<open>close\<close> that throws when the system reports an error (\<open>failure\<close>).
\<close>

definition http_written :: "string option \<Rightarrow> (http_conn, unit) comp" where
  "http_written failure c =
     ((case failure of None \<Rightarrow> Ret () | Some e \<Rightarrow> Exc (StdException e)),
      c\<lparr>write_pending := False, socket_open := False\<rparr>)"

text \<open>
  What the threads of the server run: the handler of an accept, after which the next accept
  is pending (a new connection gets the next number), of a pending read or write. Nothing
  between a handler and its thread catches an exception.
\<close>

datatype event = Accepted bool | ReadDone nat "string option" | WriteDone nat "string option"

record admin_server =
  connections :: "http_conn list"

definition on_connection ::
  "nat \<Rightarrow> (http_conn \<Rightarrow> bool) \<Rightarrow> (http_conn, unit) comp \<Rightarrow> (admin_server, unit) comp" where
  "on_connection i pending m s =
     (if i < length (connections s) \<and> pending (connections s ! i)
      then (case m (connections s ! i) of
              (r, c) \<Rightarrow> (r, s\<lparr>connections := (connections s)[i := c]\<rparr>))
      else (Ret (), s))"

fun on_event :: "'j json_api \<Rightarrow> event \<Rightarrow> (admin_server, unit) comp" where
  "on_event api (Accepted ok) s =
     (Ret (), if ok then s\<lparr>connections := connections s @ [start_http]\<rparr> else s)"
| "on_event api (ReadDone i received) s =
     on_connection i read_pending (http_read api received) s"
| "on_event api (WriteDone i failure) s = on_connection i write_pending (http_written failure) s"

primrec serve :: "'j json_api \<Rightarrow> event list \<Rightarrow> admin_server \<Rightarrow> (unit, admin_server) life" where
  "serve api [] s = Ends (Ret ()) s"
| "serve api (e # es) s = after_life (in_thread (on_event api e) s) (\<lambda>_. serve api es)"

text \<open>
  \<open>Start\<close> makes the threads one after the other; \<open>spawn\<close> is what the system does for one, and
  throws when it cannot. The destructor of the server stops the dispatcher, joins the threads
  there are, and drops the handlers that were pending, and with them the connections.
\<close>

primrec start_threads :: "('w, unit) comp \<Rightarrow> nat \<Rightarrow> ('w, unit) comp" where
  "start_threads spawn 0 = ret ()"
| "start_threads spawn (Suc n) = bind_comp spawn (\<lambda>_. start_threads spawn n)"

definition destroy_admin :: "admin_server \<Rightarrow> admin_server" where
  "destroy_admin s =
     s\<lparr>connections := map (\<lambda>c. c\<lparr>read_pending := False, write_pending := False, socket_open := False\<rparr>)
        (connections s)\<rparr>"

text \<open>
  \<open>main\<close>: port 8088 and four threads; the server's threads run the events, the main thread
  sleeps. A port that cannot be bound ends the process with 0, and so does a thread that
  cannot be started, after the events the earlier threads had run by then.
\<close>

definition admin_main ::
  "'j json_api \<Rightarrow> (int \<Rightarrow> ('w, unit) comp) \<Rightarrow> ('w, unit) comp \<Rightarrow> event list \<Rightarrow> 'w \<Rightarrow>
     (int, admin_server) life" where
  "admin_main api bind_port spawn events w =
     (case bind_port 8088 w of
        (Exc (StdException _), _) \<Rightarrow> Ends (Ret 0) \<lparr>connections = []\<rparr>
      | (Exc OtherException, _) \<Rightarrow> Aborts \<lparr>connections = []\<rparr>
      | (Hang, _) \<Rightarrow> Ends Hang \<lparr>connections = []\<rparr>
      | (Ret _, w) \<Rightarrow>
          (case start_threads spawn 4 w of
             (Exc (StdException _), _) \<Rightarrow>
               after_life (serve api events \<lparr>connections = []\<rparr>) (\<lambda>_ s. Ends (Ret 0) (destroy_admin s))
           | (Exc OtherException, _) \<Rightarrow> Aborts \<lparr>connections = []\<rparr>
           | (Hang, _) \<Rightarrow> Ends Hang \<lparr>connections = []\<rparr>
           | (Ret _, _) \<Rightarrow>
               after_life (serve api events \<lparr>connections = []\<rparr>) (\<lambda>_ s. Ends Hang s)))"

text \<open>
  The admin service ends with 0 only when it could not start, and leaves no connection open
  then; its \<open>main\<close> cannot return otherwise, whatever the clients send.
\<close>

lemma admin_main_returns:
  assumes "admin_main api bind_port spawn events w = Ends (Ret code) s"
  shows "code = 0 \<and> (\<forall>c \<in> set (connections s). \<not> socket_open c) \<and>
    ((\<exists>e w'. bind_port 8088 w = (Exc (StdException e), w')) \<or>
     (\<exists>w1 e w'. bind_port 8088 w = (Ret (), w1) \<and> start_threads spawn 4 w1 = (Exc (StdException e), w')))"
proof -
  have l: "after_life l f = Ends (Ret code) s \<Longrightarrow> \<exists>a t. l = Ends (Ret a) t \<and> f a t = Ends (Ret code) s"
    for l :: "(unit, admin_server) life" and f
    by (auto simp: after_life_def split: life.splits outcome.splits)
  obtain r w1 where b: "bind_port 8088 w = (r, w1)" by fastforce
  obtain q w2 where t: "start_threads spawn 4 w1 = (q, w2)" by fastforce
  show ?thesis
    using assms b t
    by (cases r; cases q)
      (auto simp: admin_main_def bind_comp_def ret_def destroy_admin_def split: exn.splits dest!: l)
qed

subsection \<open>Cutting a request\<close>

lemma find_space:
  assumes "CHR '' '' \<notin> set x"
  shows "str_find (p @ x @ '' '' @ y) '' '' (length p) = Some (length p + length x)"
proof -
  have "find_sub '' '' (x @ '' '' @ y) = Some (length x)"
    using assms by (intro find_sub_append) (auto simp: find_sub_None dest: set_mono_sublist)
  then show ?thesis by (simp add: str_find_def)
qed

lemma parse_request_parts:
  assumes "CHR '' '' \<notin> set meth" "CHR '' '' \<notin> set path"
    and "find_sub blank_line ((meth @ '' '' @ path @ '' '' @ rest) @ butlast blank_line) = None"
  shows "parse_request ((meth @ '' '' @ path @ '' '' @ rest) @ blank_line @ body) = (meth, path, body)"
proof -
  let ?head = "meth @ '' '' @ path @ '' '' @ rest"
  let ?data = "?head @ blank_line @ body"
  have 1: "str_find ?data '' '' 0 = Some (length meth)"
    using find_space [OF assms(1), of "[]" "path @ '' '' @ rest @ blank_line @ body"] by simp
  have 2: "str_find ?data '' '' (length meth + 1) = Some (length meth + 1 + length path)"
    using find_space [OF assms(2), of "meth @ '' ''" "rest @ blank_line @ body"] by simp
  have 3: "str_find ?data blank_line 0 = Some (length ?head)"
    using find_sub_append [OF assms(3)] by (simp add: str_find_def blank_line_def)
  have "drop (length h + 4) (h @ blank_line @ body) = body" for h by (simp add: blank_line_def)
  from this [of ?head] show ?thesis unfolding parse_request_def Let_def 1 option.case 2 3
    by (simp add: substr_def)
qed

text \<open>
  C31. A request line and headers, a blank line and a body are cut back into method, path and
  body and routed by them, whatever the version, the headers and the body are, if there is
  no space in method and path and the first blank line is the one before the body.
\<close>

theorem request_routed:
  assumes "CHR '' '' \<notin> set meth" "CHR '' '' \<notin> set path"
    and "find_sub blank_line ((meth @ '' '' @ path @ '' '' @ rest) @ butlast blank_line) = None"
  shows "handle_request api ((meth @ '' '' @ path @ '' '' @ rest) @ blank_line @ body) s =
           (if meth = ''OPTIONS'' then (Ret (response_text 204 []), s)
            else
              (case handle_route api meth path body s of
                 (Ret b, s') \<Rightarrow>
                   (Ret (if b = [] then response_text 404 not_found_body else response_text 200 b), s')
               | (Exc e, s') \<Rightarrow> (Exc e, s')
               | (Hang, s') \<Rightarrow> (Hang, s')))"
  unfolding handle_request_def parse_request_parts [OF assms]
  by (simp add: bind_comp_def ret_def split: prod.split outcome.split)

subsection \<open>The response\<close>

definition response_head :: "nat \<Rightarrow> nat \<Rightarrow> string" where
  "response_head status_code content_length =
     ''HTTP/1.1 '' @ dec status_code @ '' OK'' @ crlf @
     ''Content-Type: application/json; charset=utf-8'' @ crlf @
     ''Access-Control-Allow-Origin: *'' @ crlf @
     ''Access-Control-Allow-Methods: GET, POST, OPTIONS'' @ crlf @
     ''Access-Control-Allow-Headers: Content-Type, Authorization'' @ crlf @
     ''Content-Length: '' @ dec content_length @ crlf @ ''Connection: close''"

lemma response_text_head:
  "response_text status_code body = response_head status_code (length body) @ blank_line @ body"
  by (simp add: response_text_def response_head_def crlf_def blank_line_def)

lemma split_response:
  "split_message (response_text status_code body) = Some (response_head status_code (length body), body)"
proof -
  define a where "a = ''HTTP/1.1 ''"
  define b where "b = '' OK'' @ crlf @ ''Content-Type: application/json; charset=utf-8'' @ crlf @
     ''Access-Control-Allow-Origin: *'' @ crlf @
     ''Access-Control-Allow-Methods: GET, POST, OPTIONS'' @ crlf @
     ''Access-Control-Allow-Headers: Content-Type, Authorization'' @ crlf @ ''Content-Length: ''"
  define c where "c = crlf @ ''Connection: close''"
  have "find_sub blank_line a = None" "find_sub blank_line b = None"
    "find_sub blank_line (c @ butlast blank_line) = None"
    unfolding a_def b_def c_def by code_simp+
  from split_message_numbered [OF find_sub_mid [OF dec_nonempty blank_line_dec this(1,2)] this(3),
      of status_code "length body" body]
  show ?thesis by (simp add: response_text_head response_head_def a_def b_def c_def)
qed

lemma handle_request_framed:
  "handle_request api data s = (Ret resp, s') \<Longrightarrow>
     \<exists>status \<in> {200, 204, 404}. \<exists>body. resp = response_text status body"
  by (auto simp: handle_request_def bind_comp_def ret_def
      split: prod.splits if_splits outcome.splits)

text \<open>No route changes the state it runs on.\<close>

lemma keeps_word_loop [keeps_intros]: "keeps I (word_loop api words i n ws)"
  by (induction n arbitrary: i ws) (auto intro!: keeps_intros)

lemma handle_request_keeps:
  assumes "handle_request api data s = (Ret resp, s')"
  shows "s' = s"
proof -
  have k: "keeps (\<lambda>t. t = s) (handle_request api data)"
    unfolding handle_request_def handle_route_def admin_login_def ban_user_def update_config_def
    by (intro keeps_intros)
  show ?thesis using keepsD [OF k refl assms] by simp
qed

text \<open>
  C32. Every answer can be read by a client that knows the format: the head ends at the first
  blank line, what follows is the body, and the length the head announces is its length.
\<close>

theorem response_well_framed:
  assumes "handle_request api data s = (Ret resp, s')"
  shows "\<exists>head body status. split_message resp = Some (head, body) \<and> resp = head @ blank_line @ body \<and>
           prefix (''HTTP/1.1 '' @ dec status @ '' '') head \<and>
           sublist (crlf @ ''Content-Length: '' @ dec (length body) @ crlf) head"
proof -
  obtain status body where r: "resp = response_text status body"
    using handle_request_framed [OF assms] by blast
  have "prefix (''HTTP/1.1 '' @ dec status @ '' '') (response_head status n)" for n
    by (simp add: response_head_def)
  moreover have "sublist (crlf @ ''Content-Length: '' @ dec n @ crlf) (response_head status n)" for n
  proof -
    have "response_head status n = (''HTTP/1.1 '' @ dec status @ '' OK'' @ crlf @
       ''Content-Type: application/json; charset=utf-8'' @ crlf @
       ''Access-Control-Allow-Origin: *'' @ crlf @
       ''Access-Control-Allow-Methods: GET, POST, OPTIONS'' @ crlf @
       ''Access-Control-Allow-Headers: Content-Type, Authorization'') @
       (crlf @ ''Content-Length: '' @ dec n @ crlf) @ ''Connection: close''"
      by (simp add: response_head_def)
    then show ?thesis by (metis sublist_appendI)
  qed
  ultimately show ?thesis using r split_response response_text_head by blast
qed

subsection \<open>What the routes do not check\<close>

definition ban_head :: "string \<Rightarrow> string" where
  "ban_head rest = ''POST'' @ '' '' @ ''/api/admin/users/ban'' @ '' '' @ rest"

text \<open>
  Anyone may ban: a request to the ban route with a user number in its body is answered
  with success whatever its headers are, so no token of \<open>Login\<close> is needed, and no state is
  kept or changed: the answer is all there is to the ban.
\<close>

theorem anyone_may_ban:
  assumes "find_sub blank_line (ban_head rest @ butlast blank_line) = None"
    and "json_parse api body = Inr (Some req)"
    and "field_value api (json_u64 api) req ''user_id'' = Inr user_id"
    and "answer api [(''code'', JInt 0), (''msg'', JStr ''User banned successfully'')] = ok" "ok \<noteq> []"
  shows "handle_request api (ban_head rest @ blank_line @ body) s = (Ret (response_text 200 ok), s)"
proof -
  have "parse_request (ban_head rest @ blank_line @ body) = (''POST'', ''/api/admin/users/ban'', body)"
    using parse_request_parts [of "''POST''" "''/api/admin/users/ban''" rest body] assms(1)
    by (simp add: ban_head_def)
  then have "handle_request api (ban_head rest @ blank_line @ body) =
      ret (response_text 200 ok)" (is "?h = _")
    using assms(2-5) by (simp add: handle_request_def handle_route_def ban_user_def field_eq)
  then have "?h s = ret (response_text 200 ok) s" by (rule arg_cong)
  then show ?thesis by (simp add: ret_def)
qed

definition login_head :: "string \<Rightarrow> string" where
  "login_head rest = ''POST'' @ '' '' @ ''/api/admin/login'' @ '' '' @ rest"

text \<open>
  C34. One request ends the admin service: a login that arrives in one read of at most 4096 bytes
  with a body that is JSON but neither an object nor null, a number for instance, throws
  where the user name is read, nothing catches the exception in the handler or in the thread,
  and the process is terminated with every connection it has.
\<close>

theorem odd_login_ends_service:
  assumes "find_sub blank_line (login_head rest @ butlast blank_line) = None"
    and "length (login_head rest @ blank_line @ body) \<le> 4096"
    and "json_parse api body = Inr (Some req)"
    and "members_documented api has_members" "\<not> has_members req"
    and "i < length (connections s)" "read_pending (connections s ! i)"
  shows "serve api (ReadDone i (Some (login_head rest @ blank_line @ body)) # es) s = Aborts s"
proof -
  obtain e where e: "json_get api req ''username'' = Inl (StdException e)"
    using members_get [OF assms(4,5)] by blast
  have "parse_request (login_head rest @ blank_line @ body) = (''POST'', ''/api/admin/login'', body)"
    using parse_request_parts [of "''POST''" "''/api/admin/login''" rest body] assms(1)
    by (simp add: login_head_def)
  then have "handle_request api (login_head rest @ blank_line @ body) = (throw (StdException e) :: (http_conn, string) comp)"
    using assms(3) e
    by (simp add: handle_request_def handle_route_def admin_login_def field_eq field_value_def)
  then show ?thesis
    using assms(2,6,7)
    by (simp add: http_read_def on_connection_def in_thread_def throw_def)
qed

text \<open>So does a socket the system cannot close properly after an answer.\<close>

lemma failing_close_ends_service:
  assumes "i < length (connections s)" "write_pending (connections s ! i)"
  shows "\<exists>t. serve api (WriteDone i (Some e) # es) s = Aborts t"
  using assms by (simp add: on_connection_def http_written_def in_thread_def)

subsection \<open>The life of a connection\<close>

text \<open>Waiting for its request, sending its one answer, or closed.\<close>

definition in_phase :: "http_conn \<Rightarrow> bool" where
  "in_phase c \<longleftrightarrow>
     (if read_pending c then \<not> write_pending c \<and> socket_open c \<and> response_data c = []
      else if write_pending c
      then socket_open c \<and> (\<exists>status \<in> {200, 204, 404}. \<exists>body. response_data c = response_text status body)
      else \<not> socket_open c)"

lemma http_read_phase:
  assumes c: "in_phase c" "read_pending c" and d: "http_read api received c = (Ret (), d)"
  shows "in_phase d"
proof (cases received)
  case None
  with c d show ?thesis by (auto simp: http_read_def in_phase_def)
next
  case (Some arrived)
  with d obtain resp c' where r: "handle_request api (take 4096 arrived) c = (Ret resp, c')"
    "d = c'\<lparr>read_pending := False, response_data := resp, write_pending := True\<rparr>"
    by (auto simp: http_read_def bind_comp_Ret)
  have "c' = c" by (rule handle_request_keeps [OF r(1)])
  with r c handle_request_framed [OF r(1)] show ?thesis by (auto simp: in_phase_def)
qed

lemma http_written_phase:
  "in_phase c \<Longrightarrow> write_pending c \<Longrightarrow> http_written failure c = (Ret (), d) \<Longrightarrow> in_phase d"
  by (auto simp: http_written_def in_phase_def split: if_splits option.splits)

lemma on_connection_phases:
  assumes step: "\<And>c d. in_phase c \<Longrightarrow> pending c \<Longrightarrow> m c = (Ret (), d) \<Longrightarrow> in_phase d"
    and s: "\<forall>c \<in> set (connections s). in_phase c" and t: "on_connection i pending m s = (Ret (), t)"
  shows "\<forall>c \<in> set (connections t). in_phase c"
proof (cases "i < length (connections s) \<and> pending (connections s ! i)")
  case True
  obtain r d where d: "m (connections s ! i) = (r, d)" by fastforce
  with True t have "r = Ret ()" "connections t = (connections s)[i := d]"
    by (auto simp: on_connection_def)
  moreover have "in_phase (connections s ! i)" using s True by simp
  ultimately show ?thesis
    using step [of "connections s ! i" d] True d s set_update_subset_insert [of "connections s" i d]
    by auto
qed (use s t in \<open>auto simp: on_connection_def\<close>)

lemma on_event_phases:
  assumes "\<forall>c \<in> set (connections s). in_phase c" "on_event api e s = (Ret (), t)"
  shows "\<forall>c \<in> set (connections t). in_phase c"
proof (cases e)
  case (Accepted ok)
  have "in_phase start_http" by (simp add: in_phase_def start_http_def)
  with assms Accepted show ?thesis by (auto split: if_splits)
next
  case (ReadDone i received)
  with assms(2) have t: "on_connection i read_pending (http_read api received) s = (Ret (), t)" by simp
  show ?thesis by (rule on_connection_phases [OF _ assms(1) t]) (rule http_read_phase)
next
  case (WriteDone i failure)
  with assms(2) have t: "on_connection i write_pending (http_written failure) s = (Ret (), t)" by simp
  show ?thesis by (rule on_connection_phases [OF _ assms(1) t]) (rule http_written_phase)
qed

lemma serve_phases:
  "serve api es s = Ends (Ret ()) t \<Longrightarrow> \<forall>c \<in> set (connections s). in_phase c \<Longrightarrow>
     \<forall>c \<in> set (connections t). in_phase c"
proof (induction es arbitrary: s)
  case (Cons e es)
  obtain r u where u: "on_event api e s = (r, u)" by fastforce
  with Cons.prems(1) have "r = Ret ()" "serve api es u = Ends (Ret ()) t"
    by (auto simp: in_thread_def split: outcome.splits)
  with u Cons on_event_phases show ?case by blast
qed simp

text \<open>
  C33. Whatever arrives and in whatever order the handlers run, each connection of the running
  service waits for its request, sends one well-framed answer, or is closed: it is not read
  again after its request and an answer is not overwritten while it is sent.
\<close>

theorem connection_phases:
  assumes "serve api es \<lparr>connections = []\<rparr> = Ends (Ret ()) s"
  shows "\<forall>c \<in> set (connections s). in_phase c"
  using serve_phases [OF assms] by simp

subsection \<open>Instances\<close>

definition demo_admin :: "jtree json_api" where
  "demo_admin = tree_api [(''7'', TNum 7), (''ban 5'', TMap [(''user_id'', TNum 5)])] (\<lambda>d. ''done'')"

lemma request_head_ok:
  "find_sub blank_line (ban_head (''HTTP/1.1'' @ crlf @ ''Host: a'') @ butlast blank_line) = None"
  "find_sub blank_line (login_head (''HTTP/1.1'' @ crlf @ ''Host: a'') @ butlast blank_line) = None"
  by code_simp+

lemma demo_request_length:
  "length (login_head (''HTTP/1.1'' @ crlf @ ''Host: a'') @ blank_line @ ''7'') \<le> 4096"
  by (simp add: login_head_def crlf_def blank_line_def)

theorem request_routed_witness:
  "\<exists>resp. handle_request demo_admin ((''GET'' @ '' '' @ ''/x'' @ '' '' @ ''HTTP/1.1'') @ blank_line @ []) () =
     (Ret resp, ()) \<and> resp = response_text 404 not_found_body"
proof -
  have "find_sub blank_line ((''GET'' @ '' '' @ ''/x'' @ '' '' @ ''HTTP/1.1'') @ butlast blank_line) = None"
    by code_simp
  from request_routed [OF _ _ this, of demo_admin "[]" "()"] show ?thesis
    by (simp add: handle_route_def ret_def)
qed

theorem response_well_framed_witness:
  "\<exists>resp head body. handle_request demo_admin ''OPTIONS / '' () = (Ret resp, ()) \<and>
     split_message resp = Some (head, body)"
proof -
  have "handle_request demo_admin ''OPTIONS / '' () = (Ret (response_text 204 []), ())"
    by (simp add: handle_request_def parse_request_def str_find_def substr_def ret_def Let_def)
  from response_well_framed [OF this] this show ?thesis by blast
qed

theorem anyone_may_ban_witness:
  "handle_request demo_admin (ban_head (''HTTP/1.1'' @ crlf @ ''Host: a'') @ blank_line @ ''ban 5'') () =
     (Ret (response_text 200 ''done''), ())"
  by (rule anyone_may_ban [OF request_head_ok(1), of _ _ "TMap [(''user_id'', TNum 5)]" 5])
     (simp_all add: demo_admin_def field_value_def tree_u64_def answer_def)

theorem odd_login_ends_service_witness:
  "serve demo_admin [ReadDone 0 (Some (login_head (''HTTP/1.1'' @ crlf @ ''Host: a'') @ blank_line @ ''7''))]
     \<lparr>connections = [start_http]\<rparr> = Aborts \<lparr>connections = [start_http]\<rparr>"
proof -
  have d: "members_documented demo_admin tree_members"
    unfolding demo_admin_def by (rule tree_api_documented)
  show ?thesis
    by (rule odd_login_ends_service [OF request_head_ok(2) demo_request_length _ d, of "TNum 7"])
       (simp_all add: demo_admin_def start_http_def)
qed

theorem connection_phases_witness:
  "\<exists>s. serve demo_admin [Accepted True, ReadDone 0 None] \<lparr>connections = []\<rparr> = Ends (Ret ()) s \<and>
     length (connections s) = 1 \<and> (\<forall>c \<in> set (connections s). in_phase c)"
proof -
  obtain s where s: "serve demo_admin [Accepted True, ReadDone 0 None] \<lparr>connections = []\<rparr> =
      Ends (Ret ()) s" "length (connections s) = 1"
    by (simp add: in_thread_def on_connection_def start_http_def http_read_def)
  from connection_phases [OF s(1)] s show ?thesis by blast
qed

end
