(* ===== verification/Logger.thy ===== *)
theory Logger
  imports Config
begin

section \<open>The logger\<close>

text \<open>
  The logger of the common library (\<open>common/src/logger\<close>), a wrapper of spdlog: the level
  and the sinks \<open>Init\<close> sets up, and what happens when they cannot be set up. The file
  system and the file sink are parameters. The levels are linearly ordered, as spdlog's
  enumeration is; a message passes when its level is not below the logger's.
\<close>

datatype log_level = Debug | Info | Warn | Err

fun level_rank :: "log_level \<Rightarrow> nat" where
  "level_rank Debug = 1"
| "level_rank Info = 2"
| "level_rank Warn = 3"
| "level_rank Err = 4"

fun_cases level_rank_1E: "level_rank l = 1"
  and level_rank_4E: "level_rank l = 4"

lemma level_rank_inject [simp]: "level_rank a = level_rank b \<longleftrightarrow> a = b"
  by (cases a; cases b) simp_all

lemma level_rank_range: "1 \<le> level_rank l \<and> level_rank l \<le> 4"
  by (cases l) simp_all

instantiation log_level :: linorder
begin

definition less_eq_log_level :: "log_level \<Rightarrow> log_level \<Rightarrow> bool" where
  "less_eq_log_level a b \<longleftrightarrow> level_rank a \<le> level_rank b"

definition less_log_level :: "log_level \<Rightarrow> log_level \<Rightarrow> bool" where
  "less_log_level a b \<longleftrightarrow> level_rank a < level_rank b"

instance
  by standard (auto simp: less_eq_log_level_def less_log_level_def)

end

lemma Err_top: "l \<le> Err"
  using level_rank_range by (simp add: less_eq_log_level_def)

lemma Err_le: "Err \<le> l \<longleftrightarrow> l = Err"
  using level_rank_range [of l] by (auto simp: less_eq_log_level_def intro: level_rank_4E)

lemma le_Debug: "l \<le> Debug \<longleftrightarrow> l = Debug"
  using level_rank_range [of l] by (auto simp: less_eq_log_level_def intro: level_rank_1E)

subsection \<open>State and operations\<close>

text \<open>\<open>sink_file\<close>: the file of the rotating sink (10 MB, three files), if there is one.\<close>

record logger =
  logger_name :: string
  threshold :: log_level
  flush_level :: "log_level option"
  sink_file :: "string option"

definition default_logger :: logger where
  "default_logger = \<lparr>logger_name = ''default'', threshold = Info, flush_level = None, sink_file = None\<rparr>"

definition spd_level :: "string \<Rightarrow> log_level" where
  "spd_level level =
     (if level = ''debug'' then Debug
      else if level = ''warn'' then Warn
      else if level = ''error'' then Err
      else Info)"

record 'w log_env =
  parent_path :: "string \<Rightarrow> string"
  create_directories :: "string \<Rightarrow> 'w \<Rightarrow> bool \<times> 'w"
  rotating_file_sink :: "string \<Rightarrow> int \<Rightarrow> int \<Rightarrow> 'w \<Rightarrow> (string + unit) \<times> 'w"

text \<open>The directory is made if there is one to make; that it fails is only reported.\<close>

definition make_directory :: "'w log_env \<Rightarrow> string \<Rightarrow> 'w \<Rightarrow> 'w" where
  "make_directory env log_file w =
     (if log_file = [] then w
      else
        (let parent = parent_path env log_file
         in if parent = [] then w else snd (create_directories env parent w)))"

text \<open>\<open>Init\<close>: an \<open>spdlog_ex\<close> of the file sink is caught before the logger is replaced.\<close>

definition logger_init :: "'w log_env \<Rightarrow> string \<Rightarrow> string \<Rightarrow> logger \<times> 'w \<Rightarrow> logger \<times> 'w" where
  "logger_init env log_file level s =
     (let w = make_directory env log_file (snd s)
      in case rotating_file_sink env log_file (1024 * 1024 * 10) 3 w of
           (Inl _, w') \<Rightarrow> (fst s, w')
         | (Inr _, w') \<Rightarrow>
             (\<lparr>logger_name = ''chat_logger'', threshold = spd_level level,
               flush_level = Some Warn, sink_file = Some log_file\<rparr>, w'))"

definition log_passes :: "logger \<Rightarrow> log_level \<Rightarrow> bool" where
  "log_passes l level \<longleftrightarrow> threshold l \<le> level"

text \<open>
  The part of each service's \<open>main\<close> that sets the logger up: from the configuration, or with
  the defaults, to report the failure, when it cannot be loaded.
\<close>

definition service_logger ::
  "'w log_env \<Rightarrow> (string \<Rightarrow> string option) \<Rightarrow> string \<Rightarrow> string \<Rightarrow> logger \<times> 'w \<Rightarrow> logger \<times> 'w" where
  "service_logger env open_file config_path default_file s =
     (case load open_file config_path of
        (False, _) \<Rightarrow> logger_init env default_file ''info'' s
      | (True, cfg) \<Rightarrow>
          logger_init env (get_string cfg ''log.file'' default_file)
            (get_string cfg ''log.level'' ''info'') s)"

subsection \<open>What passes\<close>

lemma spd_level_name:
  "spd_level name = Debug \<longleftrightarrow> name = ''debug''" "spd_level name = Err \<longleftrightarrow> name = ''error''"
  by (auto simp: spd_level_def)

text \<open>
  Whatever the configured level, the file and the state of the file system: errors always
  pass; debug messages pass exactly when the file sink could be made and the level is spelt
  \<open>debug\<close>, or the logger in place before let them pass and the sink could not be made. Any
  other spelling, \<open>DEBUG\<close> or \<open>warning\<close> say, gives the level info without a report.
\<close>

theorem logger_init_passes:
  assumes "logger_init env log_file level (l, w) = (l', w')"
    and "rotating_file_sink env log_file (1024 * 1024 * 10) 3 (make_directory env log_file w) = (r, w'')"
  shows "log_passes l' Err \<and>
         (log_passes l' Debug \<longleftrightarrow> (if r = Inr () then level = ''debug'' else log_passes l Debug)) \<and>
         (r = Inr () \<and> level \<notin> {''debug'', ''warn'', ''error''} \<longrightarrow> threshold l' = Info) \<and>
         (r \<noteq> Inr () \<longrightarrow> l' = l)"
  using assms
  by (auto simp: logger_init_def Let_def log_passes_def Err_top le_Debug spd_level_name
      split: sum.splits) (simp_all add: spd_level_def)

theorem logger_init_passes_witness:
  "threshold (fst (logger_init
     \<lparr>parent_path = (\<lambda>p. ''logs''), create_directories = (\<lambda>p w. (True, w + 1)),
      rotating_file_sink = (\<lambda>p m n w. (Inr (), w))\<rparr> ''logs/user.log'' ''DEBUG'' (default_logger, 0::nat))) =
   Info"
proof -
  let ?env = "\<lparr>parent_path = (\<lambda>p. ''logs''), create_directories = (\<lambda>p w. (True, w + 1)),
      rotating_file_sink = (\<lambda>p m n w. (Inr (), w))\<rparr> :: nat log_env"
  obtain l' w' where i: "logger_init ?env ''logs/user.log'' ''DEBUG'' (default_logger, 0) = (l', w')"
    by fastforce
  have "rotating_file_sink ?env ''logs/user.log'' (1024 * 1024 * 10) 3
      (make_directory ?env ''logs/user.log'' 0) = (Inr (), 1)"
    by (simp add: make_directory_def)
  from logger_init_passes [OF i this] i show ?thesis by simp
qed

subsection \<open>The shipped configuration\<close>

text \<open>The first lines of \<open>gateway/config/gateway_config.yaml\<close>, which asks for debug messages.\<close>

definition shipped_gateway_lines :: "string list" where
  "shipped_gateway_lines =
     [''server:'', ''  tcp_port: 9000'', ''  http_port: 8080'', ''  thread_pool_size: 4'',
      ''  heartbeat_timeout_sec: 30'', [], ''log:'', ''  level: '' @ quoted ''debug'',
      ''  file: '' @ quoted ''logs/gateway.log'']"

text \<open>
  The level of that file is not used: its section is nested in the one before, the lookup
  finds nothing, and whatever the file system does the gateway logs no debug message.
\<close>

theorem shipped_log_level_not_used:
  assumes "load open_file ''gateway/config/gateway_config.yaml'' =
             (True, config_map (load_lines empty_state shipped_gateway_lines))"
  shows "\<not> log_passes (fst (service_logger env open_file ''gateway/config/gateway_config.yaml''
             ''logs/gateway.log'' (default_logger, w))) Debug"
proof -
  let ?cfg = "config_map (load_lines empty_state shipped_gateway_lines)"
  have "map_of ?cfg ''log.level'' = None" by code_simp
  then have "get_string ?cfg ''log.level'' ''info'' = ''info''" by (simp add: get_string_def)
  then show ?thesis
    using assms
    by (auto simp: service_logger_def logger_init_def Let_def log_passes_def le_Debug spd_level_def
        default_logger_def split: prod.split sum.split)
qed

theorem shipped_log_level_not_used_witness:
  "\<not> log_passes (fst (service_logger
     \<lparr>parent_path = (\<lambda>p. ''logs''), create_directories = (\<lambda>p w. (True, w + 1)),
      rotating_file_sink = (\<lambda>p m n w. (Inr (), w))\<rparr>
     (\<lambda>f. Some (concat (map (\<lambda>l. l @ [CHR 0x0A]) shipped_gateway_lines)))
     ''gateway/config/gateway_config.yaml'' ''logs/gateway.log'' (default_logger, 0::nat))) Debug"
proof -
  have "getlines (concat (map (\<lambda>l. l @ [CHR 0x0A]) shipped_gateway_lines)) = shipped_gateway_lines"
    by code_simp
  then have "load (\<lambda>f. Some (concat (map (\<lambda>l. l @ [CHR 0x0A]) shipped_gateway_lines)))
      ''gateway/config/gateway_config.yaml'' =
      (True, config_map (load_lines empty_state shipped_gateway_lines))" by (simp add: load_def)
  from shipped_log_level_not_used [OF this] show ?thesis .
qed

end
