(* ===== verification/Spec2Isabelle.thy ===== *)
theory Spec2Isabelle
  imports Text_Utils Config Retry Mysql_Pool Pool_Threads Sensitive_Filter Data_Access
    Clock Tokens User_Dao User_Service Account_Book Mongo_Pool Chat_Logic Message_Store Mailbox
    Gateway Gateway_Process Gateway_Writes Gateway_Threads Gateway_Exit Delivery Message_Queue Push Admin Logger Processes
begin

text \<open>
  A model of IMSystem, a chat backend in C++: six processes (gateway, user, logic, message,
  push, admin) over a common library. This development covers the library and all six
  processes: the path of an account, of a chat message from the gateway to the stores, of a
  push notification, and of an administrator's request. It follows the sources under
  \<open>src/\<close> function by function; names are those of the source in lower case.

  \<^bold>\<open>How code is modelled.\<close> A computation on a state is a function to an outcome and the state
  left (\<open>comp\<close> in \<open>Prelude\<close>): a value, an exception (a \<open>std::exception\<close> with its text, or
  another), or \<open>Hang\<close> when it waits for ever. \<open>try\<close>/\<open>catch\<close> are combinators. Objects are
  records, identifiers are \<open>64 word\<close>, texts are lists of bytes. What an object outside the
  repository does (MySQL connector, MongoDB driver, redis++, AMQP client, bcrypt, JSON library,
  spdlog's file sink, gRPC stub, clock, random generator, file system) is an argument: a record of functions on an
  abstract world \<open>'w\<close>. What the code relies on of them is a named hypothesis of the
  theorems that need it (\<open>users_table\<close>, \<open>friends_table\<close>, \<open>index_table\<close>, \<open>body_collection\<close>,
  \<open>others_settle\<close>, \<open>stores\<close>, \<open>redis_store\<close>, \<open>delivers\<close>, \<open>settles\<close>), and instances in memory show that it can
  hold (\<open>mem_db\<close>, \<open>half_db\<close>, \<open>mb_db\<close>, \<open>mb_mongo\<close>, \<open>mem_redis\<close>, \<open>mem_amqp\<close>, \<open>tree_api\<close>). The contracts
  of the databases let other processes add rows before, during and after every call; \<open>busy_db\<close>,
  \<open>busy_env\<close> and \<open>busy_mb\<close> are instances in which they do. A process that goes
  on for ever, is terminated or spins is a value of the type \<open>life\<close>. Log messages are left
  out.

  \<^bold>\<open>Theories.\<close>
  \<^item> \<open>Prelude\<close>: outcomes and combinators, searching and cutting texts, decimal numbers
    (\<open>std::to_string\<close>, \<open>std::stoi\<close>, \<open>std::stoull\<close>) and their round trips; the predicate
    \<open>keeps\<close> for invariants of computations.
  \<^item> \<open>Json_Access\<close>, \<open>Http_Text\<close>: what is used of jsoncpp, and the head and body of HTTP messages.
  \<^item> \<open>Logger\<close> (\<open>common/src/logger\<close>): levels, linearly ordered, and the set-up with its failures.
  \<^item> \<open>Text_Utils\<close> (\<open>common/src/utils/string_utils.cpp\<close>): \<open>Split\<close>, a loop that may not end
    (\<open>partial_function\<close>), equal to a total reference when the delimiter is not empty, and
    \<open>Trim\<close>.
  \<^item> \<open>Clock\<close> (\<open>common/src/utils/time_utils.cpp\<close>): the readings of the clock and the text of the
    local time, with the calendar; the text reads back as the second it was made of. The
    offset of the local time zone is an argument.
  \<^item> \<open>Config\<close> (\<open>common/src/config\<close>): the YAML subset loader and the getters. \<open>load\<close>
    refines YAML's reading of abstract lines (\<open>yaml_step\<close>) as long as no section has a
    sibling, and nests siblings where YAML does not; lists read back what was written.
  \<^item> \<open>Retry\<close> (\<open>common/src/utils/retry.h\<close>): the two executors; the result is that of the first
    attempt that does not throw. The locale \<open>retried\<close> is the contract of a body that keeps
    an invariant.
  \<^item> \<open>Mysql_Pool\<close>, \<open>Pool_Threads\<close> (\<open>common/src/db/mysql_pool.cpp\<close>): the pool and its guard
    for one thread, with the locale \<open>connection_pool\<close> of what the guard relies on; and the
    interleavings of any number of threads as a step relation, one step per critical section,
    with invariants for ownership, wake-ups and closing.
  \<^item> \<open>Mongo_Pool\<close> (\<open>common/src/db/mongo_pool.cpp\<close>): flags, connections, redaction of the URI.
  \<^item> \<open>Data_Access\<close>: what the data access classes share: statements, result sets, the retried
    and guarded lambda, variables captured by reference. \<open>world_rel\<close> carries a transitive
    relation on worlds through any number of attempts.
  \<^item> \<open>Tokens\<close> (\<open>common/src/redis\<close>, \<open>user/src/token_manager.cpp\<close>).
  \<^item> \<open>User_Dao\<close>, \<open>User_Service\<close> (\<open>user/src\<close>): users, friends, accounts.
    \<open>Account_Book\<close>: the abstract book of accounts. The locale \<open>simulated\<close> carries a
    simulation of single calls to sequences of them; its interpretation is the refinement of
    the book by \<open>AuthManager\<close>, also while other processes add accounts.
  \<^item> \<open>Sensitive_Filter\<close> (\<open>logic/src/sensitive_filter.cpp\<close>): the trie; filtering equals masking
    the leftmost shortest matches. The locale \<open>word_filter\<close> is what the chat handlers need.
  \<^item> \<open>Chat_Logic\<close> (\<open>logic/src\<close>, \<open>logic/main.cpp\<close>): handlers (locale \<open>chat_handler\<close>), processor,
    RPC entry point, word list.
  \<^item> \<open>Message_Store\<close> (\<open>message/src\<close>): bodies in MongoDB, indices in MySQL, sequence numbers,
    saving and pulling. \<open>Mailbox\<close>: the two stores together, the invariant that every index
    row has its body, what a pull returns of what was saved.
  \<^item> \<open>Gateway\<close> (\<open>gateway/src\<close>, \<open>gateway/main.cpp\<close>): the completion handlers of a connection,
    the heartbeat, the threads that run handlers, the HTTP response, the start-up values.
    \<open>Gateway_Process\<close>: accepting, HTTP connections, signals and \<open>main\<close> as runs of events, with
    threads that cannot be started; between two events every open connection is watched. \<open>Gateway_Writes\<close>: the buffer of
    \<open>Send\<close>, the writes in flight and the bytes a client receives, as a step relation in which
    reads, timers, transmissions and completions interleave. \<open>Gateway_Threads\<close>: the handlers of
    a connection, and the continuations of its partial writes, split into steps on any number
    of threads: what may overlap and what may not, and that \<open>Gateway\<close>'s handlers are runs
    of one thread. \<open>Gateway_Exit\<close>: signals and the
    destructors at the end of the process. \<open>Delivery\<close>: the gateway joined with
    the logic service, with calls that are lost or that are handled too late.
  \<^item> \<open>Message_Queue\<close> (\<open>common/src/mq\<close>): the RabbitMQ client. The loop of \<open>Subscribe\<close> is a
    \<open>partial_function\<close>, related to its rounds; the locale \<open>total_callback\<close> is what a subscriber
    promises, interpreted by \<open>Push\<close> (\<open>push/src\<close>, \<open>push/main.cpp\<close>) for the push manager.
  \<^item> \<open>Admin\<close> (\<open>admin/src\<close>, \<open>admin/main.cpp\<close>): requests, routes, responses, connections,
    the threads and the end of the service.
  \<^item> \<open>Processes\<close> (\<open>user/main.cpp\<close>, \<open>message/main.cpp\<close>, \<open>logic/main.cpp\<close>): the start-up
    sequences, the servers, and that no operation of the two services throws.

  \<^bold>\<open>How the parts interact.\<close> The gateway takes messages from clients and hands them to the
  logic service; the logic service screens a message with the filter and saves it through the RPC under the retry executor; the message service stores the body, then the
  index, each under the executor and the index through a guarded connection; the user
  service does the same for accounts and friends and keeps tokens in Redis. The push service
  consumes a queue of the broker and builds notifications; no code of the repository
  publishes to that queue. The admin service stands alone. All data access retries three
  times, so a lambda runs four times at most, which is the bound of the executor itself:
  there is no fuel in the model. Loops that end are functions with a measure.

  \<^bold>\<open>What the theorems show.\<close> Claims are numbered in the texts before them. They cover the
  functional behaviour of each part on every branch, invariants of the pool under every
  interleaving, round trips (register and login, saving and pulling, lists, the clock's text), the
  refinement of abstract specifications (the book of accounts, YAML's reading of a file), and the
  points where the code does not do what it means to: sibling sections of a configuration nest,
  so the shipped word list is not read; the saved token is never compared; a retried
  insertion or fetch repeats its effect; a mailbox takes one indexed message; messages that
  are JSON but neither an object nor null make the gateway exit, and one such request ends the
  admin service; a call to the logic service that is answered too late is made again, and
  handled twice; an answer sent while another is on its way garbles both, and a message
  that TCP delivers in two segments is refused twice; pulled messages have lost their sender,
  and the text of a message is found by an identifier its client chose; the logic service aborts
  when its port is taken; a client that resets its connection early ends the accepting of the
  gateway, a connection may be closed by one thread while another uses it, and two may write to it
  at once, and the gateway's end
  logs through a destroyed logger when connections are open; a negative number of threads
  terminates it; a message that cannot be handled keeps the queue's consumer busy for ever; losing the broker
  makes the push service send its test messages.

  \<^bold>\<open>Not modelled.\<close> The text of log messages, the generated protocol stubs, and the static
  destructors of the processes other than the gateway, which end by a signal nothing handles. In the
  theories on messages the handlers of the gateway and of the admin server run to their end one
  at a time, and only their asynchronous writes overlap; their interleaving on threads is
  modelled for one connection (\<open>Gateway_Threads\<close>). The
  RedisClient's pointer is the one \<open>Connect\<close> made. Several messages of thrown exceptions
  are abbreviated, since no code reads them. Fields of a default-initialised message are
  what an argument \<open>uninit\<close> says.
\<close>

section \<open>Properties that span the services\<close>

text \<open>
  C35. No operation of the user or the message service leaks a MySQL connection or closes the
  pool: whatever the driver, the database and the other parties do, an operation that returns
  or throws leaves an open pool open and with the connections it had. (The connections to
  MongoDB are entries of the driver's own pool.)
\<close>

theorem no_operation_leaks:
  "keeps (holds_conns M) (register uenv name password nick) \<and>
   keeps (holds_conns M) (login uenv name password client_type) \<and>
   keeps (holds_conns M) (logout uenv uid token) \<and>
   keeps (holds_conns M) (add_friend uenv uid target verify_msg) \<and>
   keeps (holds_conns M) (friend_list uenv uid page page_size count0) \<and>
   keeps (holds_conns M) (save_message menv msg) \<and>
   keeps (holds_conns M) (pull_offline menv uninit uid begin_seq limit)"
  by (intro conjI keeps_intros)

end
